(* ===== verification/Go_Prelude.thy ===== *)
theory Go_Prelude
  imports Main "HOL-Library.AList" "HOL-Library.Multiset" "HOL-Library.Char_ord"
    "HOL-Library.List_Lexorder"
begin

text \<open>
  What the monitor uses of Go and its standard library, shared by every component.

  A Go string is a sequence of bytes: \<^typ>\<open>string\<close>, one \<^typ>\<open>char\<close> per byte. An \<open>int64\<close> is
  an \<^typ>\<open>int\<close> in the signed 64-bit range, with the wrap-around of its arithmetic written out
  (\<open>wrap64\<close>). A Go map is an association list with distinct keys, whose order stands for
  the order in which \<open>range\<close> happens to visit it. An error is a record of the sentinels that
  \<open>errors.Is\<close> finds in it and of its message; a fallible function returns
  \<open>go_error + 'a\<close>. An instant is a number of nanoseconds since the Unix epoch.

  The lemmas are about the string functions (split and join, index, prefixes, decimal
  numbers) and about association lists; the collections \<open>go_string\<close> and \<open>go_map\<close> gather the
  ones the component proofs add to the simplifier.
\<close>

named_theorems go_string \<open>facts on the string functions\<close>
named_theorems go_map \<open>facts on association lists as Go maps\<close>

section \<open>Errors\<close>

text \<open>The sentinel errors of the packages; \<open>CtxCanceled\<close> and \<open>CtxDeadlineExceeded\<close> are the two
  of the context package, \<open>ConstraintErr\<close>, \<open>ValidationErr\<close> and \<open>EntNotFound\<close> the error types
  that the generated ent code returns.\<close>

datatype sentinel =
    ErrDial | ErrAuth | ErrTimeout
  | ErrNotFound | ErrDuplicateHostname
  | CtxCanceled | CtxDeadlineExceeded
  | ConstraintErr | ValidationErr | EntNotFound

record go_error =
  err_chain :: "sentinel list"
  err_msg :: string

type_synonym 'a result = "go_error + 'a"

definition new_error :: "string \<Rightarrow> go_error" where
  "new_error m = \<lparr>err_chain = [], err_msg = m\<rparr>"

text \<open>\<open>fmt.Errorf("pre%w", err)\<close> keeps the chain of what it wraps.\<close>

definition wrap_error :: "string \<Rightarrow> go_error \<Rightarrow> go_error" where
  "wrap_error pre e = e\<lparr>err_msg := pre @ err_msg e\<rparr>"

definition errors_is :: "go_error \<Rightarrow> sentinel \<Rightarrow> bool" where
  "errors_is e s = List.member (err_chain e) s"

lemma errors_is_wrap [simp]: "errors_is (wrap_error pre e) s = errors_is e s"
  by (simp add: errors_is_def wrap_error_def)

lemma errors_is_new [simp]: "\<not> errors_is (new_error m) s"
  by (simp add: errors_is_def new_error_def)

lemma err_msg_wrap [simp]: "err_msg (wrap_error pre e) = pre @ err_msg e"
  by (simp add: wrap_error_def)

lemma err_msg_new [simp]: "err_msg (new_error m) = m"
  by (simp add: new_error_def)

definition is_ok :: "'e + 'a \<Rightarrow> bool" where
  "is_ok r = (case r of Inl _ \<Rightarrow> False | Inr _ \<Rightarrow> True)"

lemma is_ok_simps [simp]: "is_ok (Inr x)" "\<not> is_ok (Inl e)"
  by (simp_all add: is_ok_def)

lemma is_okE: "is_ok r \<Longrightarrow> (\<And>x. r = Inr x \<Longrightarrow> P) \<Longrightarrow> P"
  by (cases r) simp_all

definition bind_result :: "'a result \<Rightarrow> ('a \<Rightarrow> 'b result) \<Rightarrow> 'b result" where
  "bind_result r f = (case r of Inl e \<Rightarrow> Inl e | Inr x \<Rightarrow> f x)"

definition wrap_result :: "string \<Rightarrow> 'a result \<Rightarrow> 'a result" where
  "wrap_result pre r = (case r of Inl e \<Rightarrow> Inl (wrap_error pre e) | Inr x \<Rightarrow> Inr x)"

lemma bind_result_simps [simp]: "bind_result (Inr x) f = f x" "bind_result (Inl e) f = Inl e"
  by (simp_all add: bind_result_def)

lemma wrap_result_simps [simp]:
  "wrap_result pre (Inr x) = Inr x" "wrap_result pre (Inl e) = Inl (wrap_error pre e)"
  by (simp_all add: wrap_result_def)

lemma is_ok_bind: "is_ok (bind_result r f) \<longleftrightarrow> is_ok r \<and> is_ok (f (projr r))"
  by (cases r) simp_all

lemma is_ok_wrap: "is_ok (wrap_result pre r) \<longleftrightarrow> is_ok r" "is_ok r \<Longrightarrow> wrap_result pre r = r"
  by (cases r; simp)+

lemma is_ok_projr: "is_ok r \<Longrightarrow> r = Inr (projr r)"
  by (cases r) simp_all

section \<open>Machine integers and time\<close>

abbreviation int64_min :: int where "int64_min \<equiv> - (2 ^ 63)"
abbreviation int64_max :: int where "int64_max \<equiv> 2 ^ 63 - 1"

definition wrap64 :: "int \<Rightarrow> int" where
  "wrap64 i = (i + 2 ^ 63) mod 2 ^ 64 - 2 ^ 63"

definition is_int64 :: "int \<Rightarrow> bool" where
  "is_int64 i \<longleftrightarrow> int64_min \<le> i \<and> i \<le> int64_max"

lemma wrap64_id: "is_int64 i \<Longrightarrow> wrap64 i = i"
  by (simp add: wrap64_def is_int64_def)

lemma is_int64_wrap64: "is_int64 (wrap64 i)"
proof -
  have "0 \<le> (i + 2 ^ 63) mod 2 ^ 64" "(i + 2 ^ 63) mod 2 ^ 64 < (2 ^ 64 :: int)"
    by simp_all
  then show ?thesis by (simp add: is_int64_def wrap64_def)
qed

type_synonym time = int
type_synonym duration = int

abbreviation second :: duration where "second \<equiv> 1000000000"

text \<open>The zero \<open>time.Time\<close> is midnight of January 1, year 1.\<close>

definition zero_time :: time where
  "zero_time = - 62135596800 * second"

definition unix_nano :: "time \<Rightarrow> int" where
  "unix_nano t = wrap64 t"

definition time_unix :: "int \<Rightarrow> time" where
  "time_unix s = s * second"

text \<open>\<open>Time.Sub\<close> saturates at the ends of \<open>time.Duration\<close>.\<close>

definition time_sub :: "time \<Rightarrow> time \<Rightarrow> duration" where
  "time_sub t u = max int64_min (min int64_max (t - u))"

section \<open>Strings\<close>

definition has_prefix :: "string \<Rightarrow> string \<Rightarrow> bool" where
  "has_prefix p s \<longleftrightarrow> take (length p) s = p"

definition has_suffix :: "string \<Rightarrow> string \<Rightarrow> bool" where
  "has_suffix p s \<longleftrightarrow> has_prefix (rev p) (rev s)"

definition trim_prefix :: "string \<Rightarrow> string \<Rightarrow> string" where
  "trim_prefix p s = (if has_prefix p s then drop (length p) s else s)"

definition cut_prefix :: "string \<Rightarrow> string \<Rightarrow> string option" where
  "cut_prefix p s = (if has_prefix p s then Some (drop (length p) s) else None)"

lemma has_prefix_append [simp, go_string]: "has_prefix p (p @ s)"
  by (simp add: has_prefix_def)

lemma has_prefix_self [simp]: "has_prefix p p"
  by (simp add: has_prefix_def)

lemma trim_prefix_append [simp, go_string]: "trim_prefix p (p @ s) = s"
  by (simp add: trim_prefix_def)

lemma has_prefix_Cons [go_string]:
  "has_prefix (a # p) (b # s) \<longleftrightarrow> a = b \<and> has_prefix p s"
  "has_prefix (a # p) [] = False" "has_prefix [] s"
  by (auto simp: has_prefix_def)

lemma has_prefixE:
  assumes "has_prefix p s" obtains r where "s = p @ r"
  using assms unfolding has_prefix_def by (metis append_take_drop_id)

lemma has_prefix_iff: "has_prefix p s \<longleftrightarrow> (\<exists>r. s = p @ r)"
  by (auto elim: has_prefixE)

subsection \<open>Index, split and join\<close>

fun index_byte :: "char \<Rightarrow> string \<Rightarrow> nat option" where
  "index_byte c [] = None"
| "index_byte c (x # xs) = (if x = c then Some 0 else map_option Suc (index_byte c xs))"

fun index_of :: "string \<Rightarrow> string \<Rightarrow> nat option" where
  "index_of p [] = (if p = [] then Some 0 else None)"
| "index_of p (x # xs) =
     (if has_prefix p (x # xs) then Some 0 else map_option Suc (index_of p xs))"

definition last_index_byte :: "char \<Rightarrow> string \<Rightarrow> nat option" where
  "last_index_byte c s =
     map_option (\<lambda>i. length s - 1 - i) (index_byte c (rev s))"

definition contains :: "string \<Rightarrow> string \<Rightarrow> bool" where
  "contains s p \<longleftrightarrow> index_of p s \<noteq> None"

text \<open>\<open>strings.ContainsAny\<close> for a set of ASCII characters.\<close>

definition contains_any :: "string \<Rightarrow> string \<Rightarrow> bool" where
  "contains_any s cs = list_ex (List.member cs) s"

fun split_on :: "char \<Rightarrow> string \<Rightarrow> string list" where
  "split_on c [] = [[]]"
| "split_on c (x # xs) =
     (if x = c then [] # split_on c xs
      else (case split_on c xs of [] \<Rightarrow> [[x]] | y # ys \<Rightarrow> (x # y) # ys))"

fun join :: "string \<Rightarrow> string list \<Rightarrow> string" where
  "join sep [] = []"
| "join sep [x] = x"
| "join sep (x # y # ys) = x @ sep @ join sep (y # ys)"

lemma index_byte_None [go_string]: "index_byte c s = None \<longleftrightarrow> c \<notin> set s"
  by (induction s) auto

lemma index_byte_append [go_string]: "c \<notin> set p \<Longrightarrow> index_byte c (p @ c # r) = Some (length p)"
  by (induction p) auto

lemma index_byte_SomeD:
  "index_byte c s = Some i \<Longrightarrow>
     i < length s \<and> s ! i = c \<and> c \<notin> set (take i s) \<and> s = take i s @ c # drop (Suc i) s"
proof (induction s arbitrary: i)
  case Nil
  then show ?case by simp
next
  case (Cons x xs)
  show ?case
  proof (cases "x = c")
    case True
    with Cons.prems show ?thesis by simp
  next
    case False
    with Cons.prems obtain j where "index_byte c xs = Some j" "i = Suc j" by auto
    with Cons.IH [of j] False show ?thesis by simp
  qed
qed

lemma index_of_None_prefix: "index_of p s = None \<Longrightarrow> \<not> has_prefix p s"
  by (cases s) (auto simp: has_prefix_def split: if_splits)

lemma index_of_SomeD:
  "index_of p s = Some i \<Longrightarrow> i + length p \<le> length s \<and> s = take i s @ p @ drop (i + length p) s"
proof (induction s arbitrary: i)
  case Nil
  then show ?case by (simp split: if_splits)
next
  case (Cons x xs)
  show ?case
  proof (cases "has_prefix p (x # xs)")
    case True
    with Cons.prems have "i = 0" by simp
    moreover from True obtain r where "x # xs = p @ r" by (rule has_prefixE)
    ultimately show ?thesis by simp
  next
    case False
    with Cons.prems obtain j where "index_of p xs = Some j" "i = Suc j" by auto
    with Cons.IH [of j] show ?thesis by simp
  qed
qed

lemma index_of_None_iff: "index_of p s = None \<longleftrightarrow> (\<nexists>u v. s = u @ p @ v)"
proof (induction s)
  case Nil
  then show ?case by auto
next
  case (Cons x xs)
  have "(\<exists>u v. x # xs = u @ p @ v) \<longleftrightarrow> has_prefix p (x # xs) \<or> (\<exists>u v. xs = u @ p @ v)"
    by (auto simp: has_prefix_iff Cons_eq_append_conv)
  with Cons show ?case by auto
qed

lemma contains_iff: "contains s p \<longleftrightarrow> (\<exists>u v. s = u @ p @ v)"
  using index_of_None_iff [of p s] by (simp add: contains_def)

lemma contains_append: "contains s p \<Longrightarrow> contains (u @ s) p"
  unfolding contains_iff by (metis append.assoc)

lemma split_on_not_Nil [simp]: "split_on c s \<noteq> []"
  by (induction s) (auto split: list.split)

lemma split_on_no [go_string]: "c \<notin> set s \<Longrightarrow> split_on c s = [s]"
  by (induction s) auto

lemma split_on_append [go_string]:
  "c \<notin> set p \<Longrightarrow> split_on c (p @ c # r) = p # split_on c r"
  by (induction p) auto

lemma join_split [simp]: "join [c] (split_on c s) = s"
proof (induction s)
  case Nil
  then show ?case by simp
next
  case (Cons x xs)
  then show ?case by (cases "split_on c xs"; cases "tl (split_on c xs)") auto
qed

lemma split_join:
  "xs \<noteq> [] \<Longrightarrow> \<forall>x \<in> set xs. c \<notin> set x \<Longrightarrow> split_on c (join [c] xs) = xs"
proof (induction xs)
  case Nil
  then show ?case by simp
next
  case (Cons x xs)
  then show ?case by (cases xs) (simp_all add: split_on_no split_on_append)
qed

lemma split_on_free: "x \<in> set (split_on c s) \<Longrightarrow> c \<notin> set x"
  by (induction s arbitrary: x) (auto split: list.splits if_splits)

lemma count_split: "length (split_on c s) = Suc (count_list s c)"
  by (induction s) (auto split: list.splits)

lemma set_join: "set (join sep xs) \<subseteq> set sep \<union> \<Union> (set ` set xs)"
  by (induction sep xs rule: join.induct) auto

subsection \<open>Byte-wise replacement\<close>

text \<open>\<open>strings.NewReplacer\<close> and \<open>strings.ReplaceAll\<close>, where every pattern is one byte.\<close>

definition replace_bytes :: "(char \<Rightarrow> string) \<Rightarrow> string \<Rightarrow> string" where
  "replace_bytes f s = concat (map f s)"

lemma replace_bytes_simps [simp, go_string]:
  "replace_bytes f [] = []"
  "replace_bytes f (x # xs) = f x @ replace_bytes f xs"
  "replace_bytes f (xs @ ys) = replace_bytes f xs @ replace_bytes f ys"
  by (simp_all add: replace_bytes_def)

text \<open>Escaping one byte at a time can be undone when a decoder undoes it in front of any rest.\<close>

locale byte_escape =
  fixes esc :: "char \<Rightarrow> string"
    and dec :: "string \<Rightarrow> string"
  assumes dec_Nil: "dec [] = []"
    and dec_esc: "dec (esc c @ s) = c # dec s"
begin

lemma dec_replace_append: "dec (replace_bytes esc s @ t) = s @ dec t"
  by (induction s) (simp_all add: dec_esc)

lemma dec_replace: "dec (replace_bytes esc s) = s"
  using dec_replace_append [of s "[]"] by (simp add: dec_Nil)

lemma replace_inj: "replace_bytes esc s = replace_bytes esc t \<longleftrightarrow> s = t"
  by (metis dec_replace)

end

subsection \<open>White space\<close>

text \<open>The UTF-8 encodings of the runes of \<open>unicode.IsSpace\<close>.\<close>

definition space_runes :: "string list" where
  "space_runes = map (map char_of)
     [[9], [10], [11], [12], [13], [32], [194, 133], [194, 160], [225, 154, 128],
      [226, 128, 128], [226, 128, 129], [226, 128, 130], [226, 128, 131], [226, 128, 132],
      [226, 128, 133], [226, 128, 134], [226, 128, 135], [226, 128, 136], [226, 128, 137],
      [226, 128, 138], [226, 128, 168], [226, 128, 169], [226, 128, 175], [226, 129, 159],
      [227, 128, 128 :: nat]]"

function strip_left :: "string list \<Rightarrow> string \<Rightarrow> string" where
  "strip_left rs s =
     (case find (\<lambda>r. r \<noteq> [] \<and> has_prefix r s) rs of
        None \<Rightarrow> s | Some r \<Rightarrow> strip_left rs (drop (length r) s))"
  by pat_completeness auto
termination
  by (relation "measure (\<lambda>(rs, s). length s)")
     (auto simp: find_Some_iff elim!: has_prefixE)

declare strip_left.simps [simp del]

definition trim_space :: "string \<Rightarrow> string" where
  "trim_space s =
     rev (strip_left (map rev space_runes) (rev (strip_left space_runes s)))"

lemma strip_left_Nil [simp]: "strip_left rs [] = []"
  by (subst strip_left.simps) (auto split: option.split simp: find_Some_iff has_prefix_def)

lemma trim_space_Nil [simp]: "trim_space [] = []"
  by (simp add: trim_space_def)

lemma strip_left_id: "(\<And>r. r \<in> set rs \<Longrightarrow> r = [] \<or> \<not> has_prefix r s) \<Longrightarrow> strip_left rs s = s"
proof -
  assume a: "\<And>r. r \<in> set rs \<Longrightarrow> r = [] \<or> \<not> has_prefix r s"
  have "find (\<lambda>r. r \<noteq> [] \<and> has_prefix r s) rs = None"
    using a by (auto simp: find_None_iff)
  then show ?thesis by (subst strip_left.simps) simp
qed

text \<open>The bytes at which a space rune can begin or end.\<close>

definition space_edge :: "nat \<Rightarrow> bool" where
  "space_edge n \<longleftrightarrow> n \<le> 32 \<or> 128 \<le> n"

lemma space_runes_edges:
  "r \<in> set space_runes \<Longrightarrow>
     r \<noteq> [] \<and> space_edge (of_char (hd r)) \<and> space_edge (of_char (last r))"
  by (auto simp: space_runes_def space_edge_def)

lemma strip_left_no_edge:
  assumes "\<And>r. r \<in> set rs \<Longrightarrow> r \<noteq> [] \<and> space_edge (of_char (hd r))"
    and "\<not> space_edge (of_char x)"
  shows "strip_left rs (x # xs) = x # xs"
proof (rule strip_left_id)
  fix r
  assume "r \<in> set rs"
  with assms(1) obtain y ys where "r = y # ys" "space_edge (of_char y)"
    by (metis list.collapse)
  with assms(2) show "r = [] \<or> \<not> has_prefix r (x # xs)"
    by (auto simp: has_prefix_Cons)
qed

lemma trim_space_id:
  assumes "s \<noteq> []" "\<not> space_edge (of_char (hd s))" "\<not> space_edge (of_char (last s))"
  shows "trim_space s = s"
proof -
  from assms obtain x xs where s: "s = x # xs" by (cases s) auto
  have l: "strip_left space_runes s = s"
    unfolding s by (rule strip_left_no_edge) (use assms s space_runes_edges in auto)
  from assms obtain y ys where r: "rev s = y # ys" "last s = y"
    by (metis list.collapse rev.simps(1) rev_rev_ident hd_rev)
  have "strip_left (map rev space_runes) (rev s) = rev s"
    unfolding r(1)
    by (rule strip_left_no_edge)
      (use assms r space_runes_edges in \<open>auto simp: hd_rev\<close>)
  then show ?thesis by (simp add: trim_space_def l)
qed

text \<open>\<open>strings.TrimRight\<close> and \<open>strings.TrimLeft\<close> with a one-byte cut set.\<close>

definition trim_right :: "char \<Rightarrow> string \<Rightarrow> string" where
  "trim_right c s = rev (dropWhile (\<lambda>x. x = c) (rev s))"

lemma trim_right_id: "s = [] \<or> last s \<noteq> c \<Longrightarrow> trim_right c s = s"
  by (cases s rule: rev_cases) (auto simp: trim_right_def)

lemma set_trim_right: "set (trim_right c s) \<subseteq> set s"
  unfolding trim_right_def by (auto dest: set_dropWhileD)

text \<open>\<open>strings.ToLower\<close> on ASCII.\<close>

definition to_lower :: "string \<Rightarrow> string" where
  "to_lower s = map (\<lambda>c. let n = (of_char c :: nat) in
     if 65 \<le> n \<and> n \<le> 90 then char_of (n + 32) else c) s"

subsection \<open>Decimal integers\<close>

definition digit_char :: "nat \<Rightarrow> char" where
  "digit_char d = char_of (48 + d)"

fun dec_nat :: "nat \<Rightarrow> string" where
  "dec_nat n = (if n < 10 then [digit_char n] else dec_nat (n div 10) @ [digit_char (n mod 10)])"

declare dec_nat.simps [simp del]

text \<open>\<open>strconv.FormatInt(i, 10)\<close>, also what \<open>%d\<close> prints.\<close>

definition format_int :: "int \<Rightarrow> string" where
  "format_int i = (if i < 0 then CHR ''-'' # dec_nat (nat (- i)) else dec_nat (nat i))"

definition digit_val :: "char \<Rightarrow> nat option" where
  "digit_val c = (let n = of_char c in if 48 \<le> n \<and> n \<le> 57 then Some (n - 48) else None)"

datatype num_error = ErrSyntax | ErrRange

text \<open>\<open>strconv.ParseUint(s, 10, 64)\<close>: the error reported is that of the first offending byte.\<close>

fun parse_uint_from :: "nat \<Rightarrow> string \<Rightarrow> num_error + nat" where
  "parse_uint_from acc [] = Inr acc"
| "parse_uint_from acc (c # cs) =
     (case digit_val c of
        None \<Rightarrow> Inl ErrSyntax
      | Some d \<Rightarrow> if 2 ^ 64 \<le> acc * 10 + d then Inl ErrRange
                  else parse_uint_from (acc * 10 + d) cs)"

definition parse_uint :: "string \<Rightarrow> num_error + nat" where
  "parse_uint s = (if s = [] then Inl ErrSyntax else parse_uint_from 0 s)"

text \<open>\<open>strconv.ParseInt(s, 10, 64)\<close>; \<open>strconv.Atoi\<close> accepts the same strings on a 64-bit
  platform.\<close>

definition parse_int64 :: "string \<Rightarrow> num_error + int" where
  "parse_int64 s =
     (let neg = (s \<noteq> [] \<and> hd s = CHR ''-'');
          body = (if s \<noteq> [] \<and> (hd s = CHR ''-'' \<or> hd s = CHR ''+'') then tl s else s)
      in case parse_uint body of
           Inl e \<Rightarrow> Inl e
         | Inr n \<Rightarrow>
             if \<not> neg \<and> 2 ^ 63 \<le> n then Inl ErrRange
             else if neg \<and> 2 ^ 63 < n then Inl ErrRange
             else Inr (if neg then - int n else int n))"

lemma of_char_digit [simp]: "d < 10 \<Longrightarrow> (of_char (digit_char d) :: nat) = 48 + d"
  by (simp add: digit_char_def)

lemma digit_val_digit [simp]: "d < 10 \<Longrightarrow> digit_val (digit_char d) = Some d"
  by (simp add: digit_val_def Let_def)

lemma dec_nat_not_Nil [simp]: "dec_nat n \<noteq> []"
  by (subst dec_nat.simps) simp

lemma dec_nat_bytes: "c \<in> set (dec_nat n) \<Longrightarrow> 48 \<le> (of_char c :: nat) \<and> of_char c \<le> (57 :: nat)"
proof (induction n rule: dec_nat.induct)
  case (1 n)
  show ?case
  proof (cases "n < 10")
    case True
    with "1.prems" show ?thesis by (subst (asm) dec_nat.simps) auto
  next
    case False
    have "c \<in> set (dec_nat (n div 10)) \<or> c = digit_char (n mod 10)"
      using "1.prems" False by (subst (asm) dec_nat.simps) auto
    with "1.IH" [OF False] show ?thesis by auto
  qed
qed

lemma parse_uint_append:
  "parse_uint_from a (xs @ ys) =
     (case parse_uint_from a xs of Inl e \<Rightarrow> Inl e | Inr b \<Rightarrow> parse_uint_from b ys)"
  by (induction a xs rule: parse_uint_from.induct) (auto split: option.split)

lemma parse_dec_nat: "n < 2 ^ 64 \<Longrightarrow> parse_uint_from 0 (dec_nat n) = Inr n"
proof (induction n rule: dec_nat.induct)
  case (1 n)
  show ?case
  proof (cases "n < 10")
    case True
    then show ?thesis by (subst dec_nat.simps) simp
  next
    case False
    have small: "n div 10 < 2 ^ 64" using "1.prems" by simp
    have "parse_uint_from 0 (dec_nat (n div 10)) = Inr (n div 10)"
      by (rule "1.IH" [OF False small])
    moreover have "n div 10 * 10 + n mod 10 = n" by simp
    ultimately show ?thesis
      using False "1.prems" by (subst dec_nat.simps) (simp add: parse_uint_append)
  qed
qed

lemma hd_dec_nat: "hd (dec_nat n) \<noteq> CHR ''-''" "hd (dec_nat n) \<noteq> CHR ''+''"
proof -
  have "48 \<le> (of_char (hd (dec_nat n)) :: nat)"
    using dec_nat_bytes [of "hd (dec_nat n)" n] by simp
  then show "hd (dec_nat n) \<noteq> CHR ''-''" "hd (dec_nat n) \<noteq> CHR ''+''" by auto
qed

lemma parse_format_int [simp, go_string]:
  assumes "is_int64 i" shows "parse_int64 (format_int i) = Inr i"
proof (cases "i < 0")
  case True
  let ?n = "nat (- i)"
  from True assms have n: "?n \<le> 2 ^ 63" by (simp add: is_int64_def)
  then have "parse_uint (dec_nat ?n) = Inr ?n"
    by (simp add: parse_uint_def parse_dec_nat)
  with True n show ?thesis by (simp add: parse_int64_def format_int_def Let_def)
next
  case False
  let ?n = "nat i"
  from False assms have n: "?n < 2 ^ 63" by (simp add: is_int64_def)
  then have "parse_uint (dec_nat ?n) = Inr ?n"
    by (simp add: parse_uint_def parse_dec_nat)
  with False n show ?thesis
    by (simp add: parse_int64_def format_int_def Let_def hd_dec_nat)
qed

lemma parse_int64_range: "parse_int64 s = Inr i \<Longrightarrow> is_int64 i"
  by (auto simp: parse_int64_def Let_def is_int64_def split: sum.splits if_splits)

lemma parse_int64_not_Nil: "parse_int64 s = Inr i \<Longrightarrow> s \<noteq> []"
  by (auto simp: parse_int64_def parse_uint_def)

text \<open>A decimal number holds no byte that the protocols use as a delimiter.\<close>

lemma format_int_bytes:
  "c \<in> set (format_int i) \<Longrightarrow> c = CHR ''-'' \<or> (48 \<le> (of_char c :: nat) \<and> of_char c \<le> (57 :: nat))"
  by (auto simp: format_int_def dest: dec_nat_bytes split: if_splits)

lemma format_int_not_Nil [simp]: "format_int i \<noteq> []"
  by (simp add: format_int_def)

lemma not_in_format_int:
  "c \<noteq> CHR ''-'' \<Longrightarrow> (of_char c :: nat) < 48 \<or> 57 < (of_char c :: nat) \<Longrightarrow> c \<notin> set (format_int i)"
  using format_int_bytes by fastforce

lemma trim_format_int [simp]: "trim_space (format_int i) = format_int i"
proof (rule trim_space_id)
  have "\<not> space_edge (of_char c)" if "c \<in> set (format_int i)" for c
    using format_int_bytes [OF that] by (auto simp: space_edge_def)
  then show "\<not> space_edge (of_char (hd (format_int i)))" "\<not> space_edge (of_char (last (format_int i)))"
    by simp_all
qed simp

lemma format_int_inj: "is_int64 i \<Longrightarrow> is_int64 j \<Longrightarrow> format_int i = format_int j \<longleftrightarrow> i = j"
  by (metis parse_format_int Inr_inject)

subsection \<open>Durations\<close>

text \<open>\<open>Duration.String\<close>, what \<open>%s\<close> and \<open>%v\<close> print.\<close>

definition frac_string :: "nat \<Rightarrow> nat \<Rightarrow> string" where
  "frac_string prec v =
     (let f = v mod 10 ^ prec; ds = dec_nat f in
      if f = 0 then []
      else CHR ''.'' # trim_right (CHR ''0'') (replicate (prec - length ds) (CHR ''0'') @ ds))"

definition duration_string :: "duration \<Rightarrow> string" where
  "duration_string d =
     (let u = nat (abs d); secs = u div 10 ^ 9;
          body =
            (if u = 0 then ''0s''
             else if u < 1000 then dec_nat u @ ''ns''
             else if u < 10 ^ 6 then
               dec_nat (u div 1000) @ frac_string 3 u @ [CHR 0xC2, CHR 0xB5] @ ''s''
             else if u < 10 ^ 9 then dec_nat (u div 10 ^ 6) @ frac_string 6 u @ ''ms''
             else
               (if 3600 \<le> secs then dec_nat (secs div 3600) @ ''h'' else []) @
               (if 60 \<le> secs then dec_nat (secs div 60 mod 60) @ ''m'' else []) @
               dec_nat (secs mod 60) @ frac_string 9 u @ ''s'')
      in if d < 0 then CHR ''-'' # body else body)"

subsection \<open>Quoting\<close>

text \<open>\<open>%q\<close>, exact for ASCII strings; a byte above 127 is copied, as it is in every printable
  rune. Quoted strings occur in error messages only.\<close>

definition hex_digit :: "nat \<Rightarrow> char" where
  "hex_digit d = (if d < 10 then char_of (48 + d) else char_of (87 + d))"

definition quote_byte :: "char \<Rightarrow> string" where
  "quote_byte c =
     (let n = (of_char c :: nat); bs = char_of (92 :: nat) in
      if n = 34 \<or> n = 92 then [bs, c]
      else if n = 7 then [bs, CHR ''a''] else if n = 8 then [bs, CHR ''b'']
      else if n = 12 then [bs, CHR ''f''] else if n = 10 then [bs, CHR ''n'']
      else if n = 13 then [bs, CHR ''r''] else if n = 9 then [bs, CHR ''t'']
      else if n = 11 then [bs, CHR ''v'']
      else if n < 32 \<or> n = 127 then [bs, CHR ''x'', hex_digit (n div 16), hex_digit (n mod 16)]
      else [c])"

definition go_quote :: "string \<Rightarrow> string" where
  "go_quote s = CHR 0x22 # replace_bytes quote_byte s @ [CHR 0x22]"

text \<open>The message of a \<open>strconv.NumError\<close>.\<close>

definition num_error_msg :: "string \<Rightarrow> string \<Rightarrow> num_error \<Rightarrow> string" where
  "num_error_msg fn s e =
     ''strconv.'' @ fn @ '': parsing '' @ go_quote s @ '': '' @
     (case e of ErrSyntax \<Rightarrow> ''invalid syntax'' | ErrRange \<Rightarrow> ''value out of range'')"

section \<open>Floating-point numbers\<close>

text \<open>The program only copies \<open>float64\<close> values between a textual input and a textual output.
  Their type is a parameter \<open>'f\<close>, with the conversions of strconv and fmt the code calls:
  \<open>ParseFloat(s, 64)\<close>, \<open>FormatFloat(f, 'f', -1, 64)\<close>, the verb \<open>%.4f\<close>, the conversion to
  \<open>int64\<close>, and the zero value.\<close>

record 'f float_ops =
  parse_float :: "string \<Rightarrow> num_error + 'f"
  format_float :: "'f \<Rightarrow> string"
  format_float4 :: "'f \<Rightarrow> string"
  float_to_int :: "'f \<Rightarrow> int"
  zero_float :: 'f

text \<open>Integer-valued floats, the instance the closed examples evaluate.\<close>

definition int_floats :: "int float_ops" where
  "int_floats = \<lparr>parse_float = parse_int64, format_float = format_int,
     format_float4 = (\<lambda>i. format_int i @ ''.0000''), float_to_int = (\<lambda>i. i), zero_float = 0\<rparr>"

section \<open>Maps\<close>

type_synonym 'v go_map = "(string \<times> 'v) list"

definition is_map :: "('k \<times> 'v) list \<Rightarrow> bool" where
  "is_map m = distinct (map fst m)"

abbreviation map_put :: "('k \<times> 'v) list \<Rightarrow> 'k \<Rightarrow> 'v \<Rightarrow> ('k \<times> 'v) list" where
  "map_put m k v \<equiv> AList.update k v m"

text \<open>A map read that yields the zero value of strings for a missing key.\<close>

definition map_get :: "string go_map \<Rightarrow> string \<Rightarrow> string" where
  "map_get m k = (case map_of m k of None \<Rightarrow> [] | Some v \<Rightarrow> v)"

lemma is_map_Nil [simp, go_map]: "is_map []"
  by (simp add: is_map_def)

lemma is_map_put [simp, go_map]: "is_map m \<Longrightarrow> is_map (map_put m k v)"
  by (simp add: is_map_def distinct_update)

lemma map_of_put [simp, go_map]: "map_of (map_put m k v) = (map_of m)(k \<mapsto> v)"
  by (rule update_conv')

lemma map_put_new: "k \<notin> fst ` set m \<Longrightarrow> map_put m k v = m @ [(k, v)]"
  by (induction m) auto

lemma keys_distinct_perm: "mset xs = mset ys \<Longrightarrow> distinct (map fst xs) = distinct (map fst ys)"
  by (rule mset_eq_imp_distinct_iff) simp

lemma is_map_perm: "mset m = mset m' \<Longrightarrow> is_map m \<longleftrightarrow> is_map m'"
  unfolding is_map_def by (metis mset_map mset_eq_imp_distinct_iff)

lemma map_of_perm: "is_map m \<Longrightarrow> mset m = mset m' \<Longrightarrow> map_of m = map_of m'"
  using is_map_perm [of m m'] unfolding is_map_def
  by (metis map_of_inject_set mset_eq_setD)

text \<open>The order in which the \<open>range\<close> statements of a function visit their maps: one
  permutation for each of the function's loops.\<close>

type_synonym 'k range_order = "nat \<Rightarrow> 'k list \<Rightarrow> 'k list"

definition valid_order :: "'k range_order \<Rightarrow> bool" where
  "valid_order ord \<longleftrightarrow> (\<forall>i xs. mset (ord i xs) = mset xs)"

definition source_order :: "'k range_order" where
  "source_order i xs = xs"

lemma valid_source_order [simp]: "valid_order source_order"
  by (simp add: valid_order_def source_order_def)

lemma valid_orderD: "valid_order ord \<Longrightarrow> mset (ord i xs) = mset xs"
  by (simp add: valid_order_def)

lemma valid_order_set: "valid_order ord \<Longrightarrow> set (ord i xs) = set xs"
  by (metis mset_eq_setD valid_orderD)

subsection \<open>Maps in key order\<close>

definition sorted_entries :: "(string \<times> 'v) list \<Rightarrow> (string \<times> 'v) list" where
  "sorted_entries m = sort_key fst m"

lemma sorted_entries_perm:
  assumes "is_map m" "mset m = mset m'"
  shows "sorted_entries m = sorted_entries m'"
proof -
  have "is_map m'" using assms is_map_perm by blast
  then have "distinct (map fst (sorted_entries m'))" "sorted (map fst (sorted_entries m'))"
    "distinct (map fst (sorted_entries m))" "sorted (map fst (sorted_entries m))"
    using assms(1) by (simp_all add: sorted_entries_def is_map_def distinct_map inj_on_def)
  moreover have "mset (sorted_entries m) = mset (sorted_entries m')"
    using assms(2) by (simp add: sorted_entries_def)
  ultimately show ?thesis
    by (metis (mono_tags, lifting) distinct_map map_sorted_distinct_set_unique mset_eq_setD sup.idem)
qed

lemma mset_sorted_entries [simp]: "mset (sorted_entries m) = mset m"
  by (simp add: sorted_entries_def)

lemma set_sorted_entries [simp]: "set (sorted_entries m) = set m"
  by (simp add: sorted_entries_def)

lemma is_map_sorted_entries [simp]: "is_map (sorted_entries m) = is_map m"
  using is_map_perm by (metis mset_sorted_entries)

lemma map_of_sorted_entries [simp]: "is_map m \<Longrightarrow> map_of (sorted_entries m) = map_of m"
  using map_of_perm by (metis is_map_sorted_entries mset_sorted_entries)

end
