(* ===== verification/Http_Client.thy ===== *)
theory Http_Client
  imports Go_Prelude
begin

text \<open>
  The outbound HTTP calls the clients make (VictoriaMetrics, Loki, Telegram), as far as the
  clients see them: a request, a response with its status and body, and an environment that
  says what building and sending a request does. The remote services are not part of the
  program, so the environment is a parameter of every client. Also \<open>url.Values.Encode\<close> and
  \<open>strings.TrimRight(baseURL, "/")\<close>.
\<close>

record http_request =
  rq_method :: string
  rq_url :: string
  rq_content_type :: string
  rq_body :: string

record http_response =
  rs_status :: nat
  rs_content_type :: string
  rs_body :: string

text \<open>\<open>build_request\<close> is the error \<open>http.NewRequestWithContext\<close> reports for a URL (none when
  it parses), \<open>send\<close> what the network and the service answer.\<close>

record http_env =
  build_request :: "string \<Rightarrow> go_error option"
  send :: "http_request \<Rightarrow> http_response result"

definition http_call ::
  "http_env \<Rightarrow> http_request \<Rightarrow> string \<Rightarrow> string \<Rightarrow> http_response result" where
  "http_call env rq build_prefix send_prefix =
     (case build_request env (rq_url rq) of
        Some e \<Rightarrow> Inl (wrap_error build_prefix e)
      | None \<Rightarrow> (case send env rq of
            Inl e \<Rightarrow> Inl (wrap_error send_prefix e)
          | Inr rs \<Rightarrow> Inr rs))"

definition is_2xx :: "http_response \<Rightarrow> bool" where
  "is_2xx rs \<longleftrightarrow> rs_status rs div 100 = 2"

text \<open>The error of a non-2xx response: prefix, status, and the trimmed head of the body.\<close>

definition http_status_error :: "string \<Rightarrow> nat \<Rightarrow> http_response \<Rightarrow> go_error" where
  "http_status_error pre limit rs =
     new_error (pre @ ''HTTP '' @ format_int (int (rs_status rs)) @ '': '' @
                trim_space (take limit (rs_body rs)))"

definition trim_slash :: "string \<Rightarrow> string" where
  "trim_slash u = trim_right (CHR ''/'') u"

lemma trim_slash_no_slash: "trim_slash u = [] \<or> last (trim_slash u) \<noteq> CHR ''/''"
proof (cases "dropWhile (\<lambda>x. x = CHR ''/'') (rev u)")
  case Nil
  then show ?thesis by (simp add: trim_slash_def trim_right_def)
next
  case (Cons a xs)
  then have "a \<noteq> CHR ''/''" by (simp add: dropWhile_eq_Cons_conv)
  then show ?thesis by (simp add: trim_slash_def trim_right_def Cons)
qed

lemma trim_slash_idem: "trim_slash (trim_slash u) = trim_slash u"
  using trim_slash_no_slash [of u] unfolding trim_slash_def by (metis trim_right_id)

subsection \<open>Query strings\<close>

definition upper_hex :: "nat \<Rightarrow> char" where
  "upper_hex d = (if d < 10 then char_of (48 + d) else char_of (55 + d))"

definition is_unreserved :: "nat \<Rightarrow> bool" where
  "is_unreserved n \<longleftrightarrow> (48 \<le> n \<and> n \<le> 57) \<or> (65 \<le> n \<and> n \<le> 90) \<or> (97 \<le> n \<and> n \<le> 122) \<or>
     n = 45 \<or> n = 46 \<or> n = 95 \<or> n = 126"

definition query_escape_byte :: "char \<Rightarrow> string" where
  "query_escape_byte c =
     (let n = (of_char c :: nat) in
      if is_unreserved n then [c]
      else if n = 32 then ''+''
      else [CHR ''%'', upper_hex (n div 16), upper_hex (n mod 16)])"

definition query_escape :: "string \<Rightarrow> string" where
  "query_escape s = replace_bytes query_escape_byte s"

text \<open>\<open>url.Values.Encode\<close> for values given in key order.\<close>

definition encode_values :: "(string \<times> string) list \<Rightarrow> string" where
  "encode_values kvs = join ''&'' (map (\<lambda>(k, v). query_escape k @ ''='' @ query_escape v) kvs)"

lemma query_escape_safe:
  assumes "c \<in> set (query_escape s)"
  shows "c \<noteq> CHR ''&'' \<and> c \<noteq> CHR ''='' \<and> c \<noteq> CHR '' '' \<and> c \<noteq> CHR ''#''"
proof -
  from assms obtain x where x: "c \<in> set (query_escape_byte x)"
    by (auto simp: query_escape_def replace_bytes_def)
  have hex: "upper_hex d \<noteq> CHR ''&'' \<and> upper_hex d \<noteq> CHR ''='' \<and> upper_hex d \<noteq> CHR '' '' \<and>
      upper_hex d \<noteq> CHR ''#''" if "d < 16" for d
  proof -
    have "48 \<le> (of_char (upper_hex d) :: nat)" "(of_char (upper_hex d) :: nat) \<noteq> 61"
      using that by (simp_all add: upper_hex_def)
    then show ?thesis by auto
  qed
  have "(of_char x :: nat) div 16 < 16" by (simp add: less_mult_imp_div_less)
  moreover have "(of_char x :: nat) mod 16 < 16" by simp
  ultimately show ?thesis
    using x hex by (auto simp: query_escape_byte_def Let_def is_unreserved_def split: if_splits)
qed

end
