(* ===== verification/Metrics.thy ===== *)
theory Metrics
  imports Http_Client
begin

text \<open>
  internal/metrics: the typed values of one collector cycle (\<open>server_metrics\<close>,
  \<open>bench_metrics\<close>, \<open>site_metrics\<close>), their rendering as Influx line protocol
  (\<open>server_line_protocol\<close> and its two siblings), the tag escaping, and the push client of
  VictoriaMetrics. A \<open>float64\<close> is a value of an arbitrary type \<open>'f\<close>; the rendering takes
  \<open>strconv.FormatFloat(_, 'f', -1, 64)\<close> as the parameter \<open>ff\<close>, as it only copies its
  output. The lemmas show that every line decodes to the measurement, tags, value and
  timestamp it was made from, whatever bytes the labels hold, and count the lines.
\<close>

section \<open>Values\<close>

record disk_mount =
  dm_Mount :: string
  dm_UsedBytes :: int
  dm_TotalBytes :: int

record net_iface =
  ni_Name :: string
  ni_RxBytes :: int
  ni_TxBytes :: int

record 'f server_metrics =
  sm_Timestamp :: time
  sm_Hostname :: string
  sm_CollectorVersion :: string
  sm_CPUUser :: int
  sm_CPUNice :: int
  sm_CPUSystem :: int
  sm_CPUIdle :: int
  sm_CPUIOWait :: int
  sm_CPUIRQ :: int
  sm_CPUSoftIRQ :: int
  sm_CPUSteal :: int
  sm_MemTotalKB :: int
  sm_MemAvailableKB :: int
  sm_MemFreeKB :: int
  sm_MemBuffersKB :: int
  sm_MemCachedKB :: int
  sm_SwapTotalKB :: int
  sm_SwapFreeKB :: int
  sm_Load1 :: 'f
  sm_Load5 :: 'f
  sm_Load15 :: 'f
  sm_UptimeSeconds :: 'f
  sm_Disks :: "disk_mount list"
  sm_Net :: "net_iface list"

record redis_queue =
  rq_Name :: string
  rq_Depth :: int

record bench_metrics =
  bm_Timestamp :: time
  bm_Server :: string
  bm_Bench :: string
  bm_FrappeVersion :: string
  bm_AppsCount :: int
  bm_SupervisorRun :: int
  bm_SupervisorTotal :: int
  bm_RedisQueues :: "redis_queue list"

record 'f site_metrics =
  st_Timestamp :: time
  st_Server :: string
  st_Bench :: string
  st_Site :: string
  st_HTTPStatusCode :: int
  st_HTTPResponseMs :: 'f
  st_IsHealthy :: int

section \<open>Line protocol\<close>

abbreviation backslash :: char where "backslash \<equiv> CHR 0x5C"
abbreviation newline :: char where "newline \<equiv> CHR 0x0A"
abbreviation comma :: char where "comma \<equiv> CHR 0x2C"
abbreviation equals :: char where "equals \<equiv> CHR 0x3D"
abbreviation space :: char where "space \<equiv> CHR 0x20"

definition tag_escaper :: "char \<Rightarrow> string" where
  "tag_escaper c =
     (if c = backslash \<or> c = comma \<or> c = equals \<or> c = space then [backslash, c] else [c])"

definition escape_tag :: "string \<Rightarrow> string" where
  "escape_tag s = replace_bytes tag_escaper s"

text \<open>The closure \<open>emit\<close> of the three \<open>LineProtocol\<close> methods; the one of sites has no extra
  tags.\<close>

definition emit :: "string \<Rightarrow> string \<Rightarrow> int \<Rightarrow> string \<Rightarrow> string \<Rightarrow> string \<Rightarrow> string" where
  "emit measurement tags ts name extra_tags v =
     measurement @ name @ [comma] @ tags @
     (if extra_tags \<noteq> [] then [comma] @ extra_tags else []) @
     '' value='' @ v @ [space] @ format_int ts @ [newline]"

definition kb_to_bytes :: "int \<Rightarrow> int" where
  "kb_to_bytes kb = wrap64 (kb * 1024)"

definition server_scalars :: "('f \<Rightarrow> string) \<Rightarrow> 'f server_metrics \<Rightarrow> (string \<times> string) list" where
  "server_scalars ff m =
    [(''cpu_user'', format_int (sm_CPUUser m)),
     (''cpu_nice'', format_int (sm_CPUNice m)),
     (''cpu_system'', format_int (sm_CPUSystem m)),
     (''cpu_idle'', format_int (sm_CPUIdle m)),
     (''cpu_iowait'', format_int (sm_CPUIOWait m)),
     (''cpu_irq'', format_int (sm_CPUIRQ m)),
     (''cpu_softirq'', format_int (sm_CPUSoftIRQ m)),
     (''cpu_steal'', format_int (sm_CPUSteal m)),
     (''mem_total_bytes'', format_int (kb_to_bytes (sm_MemTotalKB m))),
     (''mem_available_bytes'', format_int (kb_to_bytes (sm_MemAvailableKB m))),
     (''mem_free_bytes'', format_int (kb_to_bytes (sm_MemFreeKB m))),
     (''mem_buffers_bytes'', format_int (kb_to_bytes (sm_MemBuffersKB m))),
     (''mem_cached_bytes'', format_int (kb_to_bytes (sm_MemCachedKB m))),
     (''swap_total_bytes'', format_int (kb_to_bytes (sm_SwapTotalKB m))),
     (''swap_free_bytes'', format_int (kb_to_bytes (sm_SwapFreeKB m))),
     (''load_1m'', ff (sm_Load1 m)),
     (''load_5m'', ff (sm_Load5 m)),
     (''load_15m'', ff (sm_Load15 m)),
     (''uptime_seconds'', ff (sm_UptimeSeconds m))]"

definition server_line_protocol :: "('f \<Rightarrow> string) \<Rightarrow> 'f server_metrics \<Rightarrow> string \<Rightarrow> string" where
  "server_line_protocol ff m server_label =
     (let ts = unix_nano (sm_Timestamp m);
          tags = ''server='' @ escape_tag server_label;
          em = emit ''frappe_server_'' tags ts
      in concat (map (\<lambda>(name, v). em name [] v) (server_scalars ff m)) @
         concat (map (\<lambda>d. let mt = ''mount='' @ escape_tag (dm_Mount d) in
             em ''disk_used_bytes'' mt (format_int (dm_UsedBytes d)) @
             em ''disk_total_bytes'' mt (format_int (dm_TotalBytes d))) (sm_Disks m)) @
         concat (map (\<lambda>n. let it = ''iface='' @ escape_tag (ni_Name n) in
             em ''net_rx_bytes'' it (format_int (ni_RxBytes n)) @
             em ''net_tx_bytes'' it (format_int (ni_TxBytes n))) (sm_Net m)))"

definition bench_line_protocol :: "bench_metrics \<Rightarrow> string \<Rightarrow> string" where
  "bench_line_protocol m server_label =
     (let ts = unix_nano (bm_Timestamp m);
          tags = ''server='' @ escape_tag server_label @ '',bench='' @ escape_tag (bm_Bench m);
          em = emit ''frappe_bench_'' tags ts
      in em ''apps_count'' [] (format_int (bm_AppsCount m)) @
         em ''supervisor_running'' [] (format_int (bm_SupervisorRun m)) @
         em ''supervisor_total'' [] (format_int (bm_SupervisorTotal m)) @
         (if bm_FrappeVersion m \<noteq> []
          then em ''info'' (''frappe_version='' @ escape_tag (bm_FrappeVersion m)) ''1''
          else []) @
         concat (map (\<lambda>q. em ''redis_queue_depth'' (''queue='' @ escape_tag (rq_Name q))
             (format_int (rq_Depth q))) (bm_RedisQueues m)))"

definition site_line_protocol :: "('f \<Rightarrow> string) \<Rightarrow> 'f site_metrics \<Rightarrow> string \<Rightarrow> string" where
  "site_line_protocol ff m server_label =
     (let ts = unix_nano (st_Timestamp m);
          tags = ''server='' @ escape_tag server_label @ '',bench='' @ escape_tag (st_Bench m) @
                 '',site='' @ escape_tag (st_Site m);
          em = emit ''frappe_site_'' tags ts
      in em ''http_status_code'' [] (format_int (st_HTTPStatusCode m)) @
         em ''http_response_ms'' [] (ff (st_HTTPResponseMs m)) @
         em ''is_healthy'' [] (format_int (st_IsHealthy m)))"

section \<open>The push client\<close>

record vm_client =
  vc_base_url :: string
  vc_timeout :: duration

definition new_vm_client :: "string \<Rightarrow> duration \<Rightarrow> vm_client" where
  "new_vm_client base_url push_timeout =
     \<lparr>vc_base_url = trim_slash base_url, vc_timeout = push_timeout\<rparr>"

definition vm_push_request :: "vm_client \<Rightarrow> string \<Rightarrow> http_request" where
  "vm_push_request c body =
     \<lparr>rq_method = ''POST'', rq_url = vc_base_url c @ ''/write'',
      rq_content_type = ''text/plain'', rq_body = body\<rparr>"

definition vm_push :: "http_env \<Rightarrow> vm_client \<Rightarrow> string \<Rightarrow> unit result" where
  "vm_push env c body =
     (case http_call env (vm_push_request c body) ''vmclient: build request: '' ''vmclient: post: '' of
        Inl e \<Rightarrow> Inl e
      | Inr rs \<Rightarrow>
          if \<not> is_2xx rs then Inl (http_status_error ''vmclient: '' 4096 rs) else Inr ())"

section \<open>Decoding a line\<close>

text \<open>The reference reader of line protocol: a token ends at the first unescaped stop byte, and
  a backslash in front of a special byte stands for that byte.\<close>

definition is_special :: "char \<Rightarrow> bool" where
  "is_special c \<longleftrightarrow> c = backslash \<or> c = comma \<or> c = equals \<or> c = space"

fun lp_token :: "string \<Rightarrow> string \<Rightarrow> string \<times> string" where
  "lp_token stops [] = ([], [])"
| "lp_token stops [c] = (if List.member stops c then ([], [c]) else ([c], []))"
| "lp_token stops (c # d # s) =
     (if c = backslash \<and> is_special d
      then (let (t, r) = lp_token stops s in (d # t, r))
      else if List.member stops c then ([], c # d # s)
      else (let (t, r) = lp_token stops (d # s) in (c # t, r)))"

definition lp_unescape :: "string \<Rightarrow> string" where
  "lp_unescape s = fst (lp_token [] s)"

lemma lp_token_length: "lp_token stops s = (t, r) \<Longrightarrow> length r \<le> length s"
  by (induction stops s arbitrary: t r rule: lp_token.induct) (fastforce split: if_splits prod.splits)+

text \<open>The tags after the measurement, up to the space in front of the fields.\<close>

function lp_tags :: "string \<Rightarrow> ((string \<times> string) list \<times> string) option" where
  "lp_tags [] = None"
| "lp_tags (c # s) =
     (if c = space then Some ([], s)
      else if c = comma then
        (let (k, r) = lp_token [equals] s in
         (case r of
            [] \<Rightarrow> None
          | _ # r' \<Rightarrow> let (v, q) = lp_token [comma, space] r' in
              map_option (\<lambda>(kvs, z). ((k, v) # kvs, z)) (lp_tags q)))
      else None)"
  by pat_completeness auto
termination
proof (relation "measure length", goal_cases)
  case 1
  then show ?case by simp
next
  case (2 c s kr k r a r' vq v q)
  have "lp_token [equals] s = (k, r)" "lp_token [comma, space] r' = (v, q)"
    using 2 by simp_all
  then have "length r \<le> length s" "length q \<le> length r'"
    by (auto dest: lp_token_length)
  with 2 show ?case by simp
qed

record lp_point =
  lp_measurement :: string
  lp_tag_list :: "(string \<times> string) list"
  lp_value :: string
  lp_timestamp :: string

definition lp_decode :: "string \<Rightarrow> lp_point option" where
  "lp_decode line =
     (let (m, r) = lp_token [comma, space] line in
      (case lp_tags r of
         None \<Rightarrow> None
       | Some (tags, f) \<Rightarrow>
           if \<not> has_prefix ''value='' f then None
           else (let w = drop 6 f in
             (case index_byte space w of
                None \<Rightarrow> None
              | Some i \<Rightarrow> Some \<lparr>lp_measurement = m, lp_tag_list = tags,
                    lp_value = take i w, lp_timestamp = drop (Suc i) w\<rparr>))))"

lemma lp_token_escape:
  assumes "List.member stops c" "is_special c" "c \<noteq> backslash"
    and "set stops \<subseteq> {comma, equals, space}"
  shows "lp_token stops (escape_tag s @ c # r) = (s, c # r)"
proof (induction s)
  case Nil
  from assms show ?case by (cases r) (simp_all add: escape_tag_def)
next
  case (Cons x xs)
  show ?case
  proof (cases "is_special x")
    case True
    with Cons show ?thesis by (simp add: escape_tag_def tag_escaper_def is_special_def)
  next
    case False
    obtain y ys where "replace_bytes tag_escaper xs @ c # r = y # ys"
      by (cases "replace_bytes tag_escaper xs @ c # r") auto
    with Cons False assms show ?thesis
      by (auto simp: escape_tag_def tag_escaper_def is_special_def)
  qed
qed

lemma lp_token_plain:
  assumes "List.member stops c" "c \<noteq> backslash" "\<forall>x \<in> set s. x \<noteq> backslash \<and> x \<notin> set stops"
  shows "lp_token stops (s @ c # r) = (s, c # r)"
  using assms(3)
proof (induction s)
  case Nil
  from assms show ?case by (cases r) simp_all
next
  case (Cons x xs)
  obtain y ys where "xs @ c # r = y # ys" by (cases "xs @ c # r") auto
  with Cons show ?case by simp
qed

interpretation tag: byte_escape tag_escaper lp_unescape
proof unfold_locales
  show "lp_unescape [] = []" by (simp add: lp_unescape_def)
next
  fix c s
  show "lp_unescape (tag_escaper c @ s) = c # lp_unescape s"
    by (cases s) (auto simp: lp_unescape_def tag_escaper_def is_special_def split: prod.split)
qed

declare lp_tags.simps [simp del]

definition plain_name :: "string \<Rightarrow> bool" where
  "plain_name s \<longleftrightarrow> s \<noteq> [] \<and> (\<forall>x \<in> set s. \<not> is_special x \<and> x \<noteq> newline)"

definition tag_text :: "(string \<times> string) list \<Rightarrow> string" where
  "tag_text kvs = join [comma] (map (\<lambda>(k, v). k @ [equals] @ escape_tag v) kvs)"

lemma lp_tags_text:
  assumes "kvs \<noteq> []" "\<forall>(k, v) \<in> set kvs. plain_name k"
  shows "lp_tags (comma # tag_text kvs @ space # r) = Some (kvs, r)"
  using assms
proof (induction kvs)
  case Nil
  then show ?case by simp
next
  case (Cons kv kvs)
  obtain k v where kv: "kv = (k, v)" by (cases kv)
  have plain: "\<forall>x \<in> set k. x \<noteq> backslash \<and> x \<notin> set [equals]"
    using Cons.prems kv by (auto simp: plain_name_def is_special_def)
  have key: "lp_token [equals] (k @ equals # q) = (k, equals # q)" for q
    by (rule lp_token_plain) (use plain in auto)
  have val: "lp_token [comma, space] (escape_tag v @ c # q) = (v, c # q)"
    if "c = comma \<or> c = space" for c q
    by (rule lp_token_escape) (use that in \<open>auto simp: is_special_def\<close>)
  show ?case
  proof (cases kvs)
    case Nil
    then show ?thesis by (simp add: kv tag_text_def key val lp_tags.simps)
  next
    case (Cons kv' kvs')
    have "tag_text (kv # kvs) @ space # r =
        k @ equals # escape_tag v @ comma # (tag_text kvs @ space # r)"
      by (simp add: kv Cons tag_text_def)
    moreover have "lp_tags (comma # tag_text kvs @ space # r) = Some (kvs, r)"
      using Cons.IH Cons.prems Cons by simp
    ultimately show ?thesis by (simp add: kv key val lp_tags.simps)
  qed
qed


section \<open>The rendered lines\<close>

text \<open>One line to emit: its name, its extra tags and its rendered value.\<close>

type_synonym emit_job = "string \<times> (string \<times> string) list \<times> string"

definition emit_line :: "string \<Rightarrow> (string \<times> string) list \<Rightarrow> int \<Rightarrow> emit_job \<Rightarrow> string" where
  "emit_line m base ts job =
     (case job of (name, extra, v) \<Rightarrow> butlast (emit m (tag_text base) ts name (tag_text extra) v))"

definition job_point :: "string \<Rightarrow> (string \<times> string) list \<Rightarrow> int \<Rightarrow> emit_job \<Rightarrow> lp_point" where
  "job_point m base ts job =
     (case job of (name, extra, v) \<Rightarrow>
        \<lparr>lp_measurement = m @ name, lp_tag_list = base @ extra, lp_value = v,
         lp_timestamp = format_int ts\<rparr>)"

text \<open>Tag lists with plain keys and newline-free values; numbers without spaces and newlines.\<close>

definition tags_ok :: "(string \<times> string) list \<Rightarrow> bool" where
  "tags_ok kvs \<longleftrightarrow> (\<forall>(k, v) \<in> set kvs. plain_name k \<and> newline \<notin> set v)"

definition number_text :: "string \<Rightarrow> bool" where
  "number_text v \<longleftrightarrow> space \<notin> set v \<and> newline \<notin> set v"

definition job_ok :: "emit_job \<Rightarrow> bool" where
  "job_ok job \<longleftrightarrow> (case job of (name, extra, v) \<Rightarrow>
     plain_name name \<and> tags_ok extra \<and> number_text v)"

lemma number_text_format_int [simp]: "number_text (format_int i)"
  by (simp add: number_text_def not_in_format_int)

lemma tag_text_append:
  "xs \<noteq> [] \<Longrightarrow> ys \<noteq> [] \<Longrightarrow> tag_text (xs @ ys) = tag_text xs @ [comma] @ tag_text ys"
proof (induction xs)
  case Nil
  then show ?case by simp
next
  case (Cons x xs)
  then show ?case
    by (cases xs; cases ys) (auto simp: tag_text_def)
qed

lemma tag_text_Nil_iff [simp]: "tag_text kvs = [] \<longleftrightarrow> kvs = []"
  by (cases kvs; cases "tl kvs") (auto simp: tag_text_def)

lemma emit_split:
  "base \<noteq> [] \<Longrightarrow> emit m (tag_text base) ts name (tag_text extra) v =
     (m @ name @ comma # tag_text (base @ extra) @ space # ''value='' @ v @ space # format_int ts)
       @ [newline]"
  by (cases "extra = []") (simp_all add: emit_def tag_text_append)

lemma emit_line_eq:
  "base \<noteq> [] \<Longrightarrow> emit_line m base ts (name, extra, v) =
     m @ name @ comma # tag_text (base @ extra) @ space # ''value='' @ v @ space # format_int ts"
  by (simp add: emit_line_def emit_split butlast_append)

lemma newline_escape_tag: "newline \<in> set (escape_tag v) \<longleftrightarrow> newline \<in> set v"
  by (induction v) (auto simp: escape_tag_def tag_escaper_def)

lemma newline_tag_text: "tags_ok kvs \<Longrightarrow> newline \<notin> set (tag_text kvs)"
  unfolding tag_text_def
  by (rule contra_subsetD [OF set_join])
    (auto simp: tags_ok_def plain_name_def newline_escape_tag)

lemma tags_ok_append: "tags_ok (xs @ ys) \<longleftrightarrow> tags_ok xs \<and> tags_ok ys"
  by (auto simp: tags_ok_def)

lemma emit_line_no_newline:
  assumes "base \<noteq> []" "tags_ok base" "plain_name m" "job_ok job"
  shows "newline \<notin> set (emit_line m base ts job)"
proof -
  obtain name extra v where job: "job = (name, extra, v)" by (cases job)
  have "newline \<notin> set (tag_text (base @ extra))"
    using assms job by (intro newline_tag_text) (simp add: tags_ok_append job_ok_def)
  moreover have "newline \<notin> set (format_int ts)" by (intro not_in_format_int) simp_all
  ultimately show ?thesis
    using assms by (auto simp: job emit_line_eq job_ok_def plain_name_def number_text_def)
qed

lemma decode_emit_line:
  assumes "base \<noteq> []" "tags_ok base" "plain_name m" "job_ok job"
  shows "lp_decode (emit_line m base ts job) = Some (job_point m base ts job)"
proof -
  obtain name extra v where job: "job = (name, extra, v)" by (cases job)
  let ?rest = "''value='' @ v @ space # format_int ts"
  have "lp_token [comma, space] ((m @ name) @ comma # (tag_text (base @ extra) @ space # ?rest))
      = (m @ name, comma # (tag_text (base @ extra) @ space # ?rest))"
    by (rule lp_token_plain)
      (use assms job in \<open>auto simp: job_ok_def plain_name_def is_special_def\<close>)
  moreover have "lp_tags (comma # tag_text (base @ extra) @ space # ?rest) = Some (base @ extra, ?rest)"
    by (rule lp_tags_text) (use assms job in \<open>auto simp: tags_ok_def job_ok_def\<close>)
  moreover have "index_byte space (v @ space # format_int ts) = Some (length v)"
    by (rule index_byte_append) (use assms job in \<open>simp add: job_ok_def number_text_def\<close>)
  ultimately show ?thesis
    using assms(1) by (simp add: job emit_line_eq lp_decode_def job_point_def has_prefix_Cons)
qed

text \<open>A text of newline-terminated lines splits into them.\<close>

lemma split_lines:
  "\<forall>l \<in> set ls. c \<notin> set l \<Longrightarrow> split_on c (concat (map (\<lambda>l. l @ [c]) ls)) = ls @ [[]]"
  by (induction ls) (simp_all add: split_on_append)

definition lp_lines :: "string \<Rightarrow> string list" where
  "lp_lines out = butlast (split_on newline out)"

lemma decode_jobs:
  assumes "base \<noteq> []" "tags_ok base" "plain_name m" "\<forall>job \<in> set jobs. job_ok job"
    and out: "out = concat (map (\<lambda>(name, extra, v). emit m (tag_text base) ts name (tag_text extra) v) jobs)"
  shows "map lp_decode (lp_lines out) = map (Some \<circ> job_point m base ts) jobs"
proof -
  have "out = concat (map (\<lambda>l. l @ [newline]) (map (emit_line m base ts) jobs))"
    unfolding out using assms(1)
    by (auto intro!: arg_cong [where f = concat] simp: emit_split emit_line_eq)
  moreover have "\<forall>l \<in> set (map (emit_line m base ts) jobs). newline \<notin> set l"
    using assms by (auto simp: emit_line_no_newline)
  ultimately have "lp_lines out = map (emit_line m base ts) jobs"
    unfolding lp_lines_def by (simp only: split_lines butlast_snoc)
  then show ?thesis using assms by (simp add: decode_emit_line)
qed

definition server_jobs :: "('f \<Rightarrow> string) \<Rightarrow> 'f server_metrics \<Rightarrow> emit_job list" where
  "server_jobs ff m =
     map (\<lambda>(name, v). (name, [], v)) (server_scalars ff m) @
     concat (map (\<lambda>d.
       [(''disk_used_bytes'', [(''mount'', dm_Mount d)], format_int (dm_UsedBytes d)),
        (''disk_total_bytes'', [(''mount'', dm_Mount d)], format_int (dm_TotalBytes d))])
       (sm_Disks m)) @
     concat (map (\<lambda>n.
       [(''net_rx_bytes'', [(''iface'', ni_Name n)], format_int (ni_RxBytes n)),
        (''net_tx_bytes'', [(''iface'', ni_Name n)], format_int (ni_TxBytes n))]) (sm_Net m))"

definition server_points :: "('f \<Rightarrow> string) \<Rightarrow> 'f server_metrics \<Rightarrow> string \<Rightarrow> lp_point list" where
  "server_points ff m server_label =
     map (job_point ''frappe_server_'' [(''server'', server_label)] (unix_nano (sm_Timestamp m)))
       (server_jobs ff m)"

definition server_labels_ok :: "('f \<Rightarrow> string) \<Rightarrow> 'f server_metrics \<Rightarrow> string \<Rightarrow> bool" where
  "server_labels_ok ff m server_label \<longleftrightarrow>
     newline \<notin> set server_label \<and> (\<forall>d \<in> set (sm_Disks m). newline \<notin> set (dm_Mount d)) \<and>
     (\<forall>n \<in> set (sm_Net m). newline \<notin> set (ni_Name n)) \<and>
     (\<forall>x \<in> set [sm_Load1 m, sm_Load5 m, sm_Load15 m, sm_UptimeSeconds m]. number_text (ff x))"

lemma tag_text_simps:
  "tag_text [] = []"
  "tag_text [(k, v)] = k @ equals # escape_tag v"
  "tag_text [(k, v), (k', v')] = k @ equals # escape_tag v @ comma # k' @ equals # escape_tag v'"
  "tag_text [(k, v), (k', v'), (k'', v'')] =
     k @ equals # escape_tag v @ comma # k' @ equals # escape_tag v' @ comma #
     k'' @ equals # escape_tag v''"
  by (simp_all add: tag_text_def)

lemma concat_concat_map: "concat (concat (map f xs)) = concat (map (\<lambda>x. concat (f x)) xs)"
  by (induction xs) simp_all

lemma server_line_protocol_jobs:
  "server_line_protocol ff m server_label =
     concat (map (\<lambda>(name, extra, v). emit ''frappe_server_'' (tag_text [(''server'', server_label)])
       (unix_nano (sm_Timestamp m)) name (tag_text extra) v) (server_jobs ff m))"
  by (simp add: server_line_protocol_def server_jobs_def Let_def map_concat comp_def
      case_prod_unfold tag_text_simps concat_concat_map)

lemma server_jobs_ok:
  "server_labels_ok ff m server_label \<Longrightarrow> \<forall>job \<in> set (server_jobs ff m). job_ok job"
  by (auto simp: server_jobs_def server_scalars_def job_ok_def tags_ok_def plain_name_def
      is_special_def server_labels_ok_def)



definition sample_metrics :: "int server_metrics" where
  "sample_metrics =
     \<lparr>sm_Timestamp = 1777000000 * second, sm_Hostname = ''bench'', sm_CollectorVersion = ''2.5.0'',
      sm_CPUUser = 1, sm_CPUNice = 2, sm_CPUSystem = 3, sm_CPUIdle = 4, sm_CPUIOWait = 5,
      sm_CPUIRQ = 6, sm_CPUSoftIRQ = 7, sm_CPUSteal = 8,
      sm_MemTotalKB = 16, sm_MemAvailableKB = 8, sm_MemFreeKB = 4, sm_MemBuffersKB = 2,
      sm_MemCachedKB = 1, sm_SwapTotalKB = 0, sm_SwapFreeKB = 0,
      sm_Load1 = 1, sm_Load5 = 2, sm_Load15 = 3, sm_UptimeSeconds = 4,
      sm_Disks = [\<lparr>dm_Mount = ''/a, b=c'', dm_UsedBytes = 5, dm_TotalBytes = 9\<rparr>],
      sm_Net = [\<lparr>ni_Name = ''eth0'', ni_RxBytes = 1, ni_TxBytes = 2\<rparr>]\<rparr>"


subsection \<open>Benches and sites\<close>

definition bench_jobs :: "bench_metrics \<Rightarrow> emit_job list" where
  "bench_jobs m =
     [(''apps_count'', [], format_int (bm_AppsCount m)),
      (''supervisor_running'', [], format_int (bm_SupervisorRun m)),
      (''supervisor_total'', [], format_int (bm_SupervisorTotal m))] @
     (if bm_FrappeVersion m \<noteq> [] then [(''info'', [(''frappe_version'', bm_FrappeVersion m)], ''1'')]
      else []) @
     map (\<lambda>q. (''redis_queue_depth'', [(''queue'', rq_Name q)], format_int (rq_Depth q)))
       (bm_RedisQueues m)"

definition bench_base :: "bench_metrics \<Rightarrow> string \<Rightarrow> (string \<times> string) list" where
  "bench_base m server_label = [(''server'', server_label), (''bench'', bm_Bench m)]"

definition bench_labels_ok :: "bench_metrics \<Rightarrow> string \<Rightarrow> bool" where
  "bench_labels_ok m server_label \<longleftrightarrow>
     newline \<notin> set server_label \<and> newline \<notin> set (bm_Bench m) \<and>
     newline \<notin> set (bm_FrappeVersion m) \<and> (\<forall>q \<in> set (bm_RedisQueues m). newline \<notin> set (rq_Name q))"

lemma bench_line_protocol_jobs:
  "bench_line_protocol m server_label =
     concat (map (\<lambda>(name, extra, v). emit ''frappe_bench_'' (tag_text (bench_base m server_label))
       (unix_nano (bm_Timestamp m)) name (tag_text extra) v) (bench_jobs m))"
  by (simp add: bench_line_protocol_def bench_jobs_def bench_base_def Let_def comp_def
      case_prod_unfold tag_text_simps)

lemma bench_jobs_ok:
  "bench_labels_ok m server_label \<Longrightarrow> \<forall>job \<in> set (bench_jobs m). job_ok job"
  by (auto simp: bench_jobs_def job_ok_def tags_ok_def plain_name_def is_special_def
      bench_labels_ok_def number_text_def [of "''1''"])

lemma bench_line_protocol_decodes:
  assumes "bench_labels_ok m server_label"
  shows "map lp_decode (lp_lines (bench_line_protocol m server_label)) =
     map (Some \<circ> job_point ''frappe_bench_'' (bench_base m server_label) (unix_nano (bm_Timestamp m)))
       (bench_jobs m)"
  using assms bench_jobs_ok [OF assms]
  by (intro decode_jobs [OF _ _ _ _ bench_line_protocol_jobs])
    (auto simp: bench_base_def tags_ok_def plain_name_def is_special_def bench_labels_ok_def)

definition site_jobs :: "('f \<Rightarrow> string) \<Rightarrow> 'f site_metrics \<Rightarrow> emit_job list" where
  "site_jobs ff m =
     [(''http_status_code'', [], format_int (st_HTTPStatusCode m)),
      (''http_response_ms'', [], ff (st_HTTPResponseMs m)),
      (''is_healthy'', [], format_int (st_IsHealthy m))]"

definition site_base :: "'f site_metrics \<Rightarrow> string \<Rightarrow> (string \<times> string) list" where
  "site_base m server_label =
     [(''server'', server_label), (''bench'', st_Bench m), (''site'', st_Site m)]"

lemma site_line_protocol_jobs:
  "site_line_protocol ff m server_label =
     concat (map (\<lambda>(name, extra, v). emit ''frappe_site_'' (tag_text (site_base m server_label))
       (unix_nano (st_Timestamp m)) name (tag_text extra) v) (site_jobs ff m))"
  by (simp add: site_line_protocol_def site_jobs_def site_base_def Let_def tag_text_simps)

lemma site_line_protocol_decodes:
  assumes "newline \<notin> set server_label" "newline \<notin> set (st_Bench m)" "newline \<notin> set (st_Site m)"
    "number_text (ff (st_HTTPResponseMs m))"
  shows "map lp_decode (lp_lines (site_line_protocol ff m server_label)) =
     map (Some \<circ> job_point ''frappe_site_'' (site_base m server_label) (unix_nano (st_Timestamp m)))
       (site_jobs ff m)"
  using assms
  by (intro decode_jobs [OF _ _ _ _ site_line_protocol_jobs])
    (auto simp: site_base_def site_jobs_def job_ok_def tags_ok_def plain_name_def is_special_def)

section \<open>Memory units\<close>

text \<open>
  The conversion of a memory gauge from kB to bytes is exact for every value
  whose absolute value is below 2^53 kB, and only the 64-bit wrap-around keeps it from being exact
  beyond: any other \<open>int64\<close> value is emitted as a different number.
\<close>

lemma kb_to_bytes_exact:
  assumes "is_int64 kb"
  shows "kb_to_bytes kb = kb * 1024 \<longleftrightarrow> - (2 ^ 53) \<le> kb \<and> kb < 2 ^ 53"
proof
  assume "kb_to_bytes kb = kb * 1024"
  then have "is_int64 (kb * 1024)"
    using is_int64_wrap64 [of "kb * 1024"] by (simp add: kb_to_bytes_def)
  then show "- (2 ^ 53) \<le> kb \<and> kb < 2 ^ 53" by (simp add: is_int64_def)
next
  assume "- (2 ^ 53) \<le> kb \<and> kb < 2 ^ 53"
  then have "is_int64 (kb * 1024)" by (simp add: is_int64_def)
  then show "kb_to_bytes kb = kb * 1024" by (simp add: kb_to_bytes_def wrap64_id)
qed

lemma kb_to_bytes_exact_witness:
  "kb_to_bytes 16384000 = 16777216000 \<and> kb_to_bytes (2 ^ 54) \<noteq> 2 ^ 54 * 1024"
proof -
  have a: "is_int64 16384000" "is_int64 (2 ^ 54)" by (simp_all add: is_int64_def)
  show ?thesis using kb_to_bytes_exact [OF a(1)] kb_to_bytes_exact [OF a(2)] by simp
qed

section \<open>Pushing\<close>

lemma vm_push_ok_iff:
  "is_ok (vm_push env c body) \<longleftrightarrow>
     build_request env (vc_base_url c @ ''/write'') = None \<and>
     (\<exists>rs. send env (vm_push_request c body) = Inr rs \<and> is_2xx rs)"
  by (auto simp: vm_push_def http_call_def vm_push_request_def split: option.split sum.split)

lemma vm_push_errors:
  assumes "vm_push env c body = Inl e"
  shows "has_prefix ''vmclient: '' (err_msg e)"
  using assms
  by (auto simp: vm_push_def http_call_def http_status_error_def has_prefix_Cons
      split: option.splits sum.splits if_splits)

end
