(* ===== verification/Parser.thy ===== *)
theory Parser
  imports Metrics
begin

text \<open>
  internal/parser: from the text the bench-side collector prints to the typed metrics.
  \<open>tokenize\<close> splits the text into named sections of key-value pairs, \<open>split_kv\<close> finds the
  separator of a line, \<open>split_labeled_key\<close> takes a key with inline labels apart, and the
  converters \<open>server_from_sections\<close>, \<open>bench_from_sections\<close> and \<open>site_from_sections\<close> build the
  records of \<open>Metrics\<close>. The lemmas show that tokenizing inverts rendering, that section names
  are distinct, exactly when the paired disk and interface counters are accepted, in any
  order of map iteration, and that every bench and site the output names is found again.
\<close>

section \<open>Tokenizer\<close>

record kv_section =
  sec_Name :: string
  sec_KVs :: "string go_map"

type_synonym parse_output = "kv_section list"

definition output_section :: "parse_output \<Rightarrow> string \<Rightarrow> kv_section option" where
  "output_section out name = find (\<lambda>s. sec_Name s = name) out"

text \<open>The scan for the \<open>=\<close> at brace depth zero.\<close>

fun find_eq :: "nat \<Rightarrow> string \<Rightarrow> nat option" where
  "find_eq depth [] = None"
| "find_eq depth (c # cs) =
     (if c = CHR ''{'' then map_option Suc (find_eq (Suc depth) cs)
      else if c = CHR ''}'' then map_option Suc (find_eq (if depth > 0 then depth - 1 else depth) cs)
      else if c = equals \<and> depth = 0 then Some 0
      else map_option Suc (find_eq depth cs))"

definition split_kv :: "string \<Rightarrow> (string \<times> string) result" where
  "split_kv line =
     (case find_eq 0 line of
        None \<Rightarrow> Inl (new_error (''malformed (no '' @ [CHR 0x27] @ ''='' @ [CHR 0x27] @
                       '' at brace-depth zero): '' @ go_quote line))
      | Some eq \<Rightarrow> Inr (take eq line, drop (eq + 1) line))"

definition carriage_return :: char where "carriage_return = CHR 0x0D"

definition line_error :: "nat \<Rightarrow> string \<Rightarrow> go_error" where
  "line_error line_no msg = new_error (''line '' @ format_int (int line_no) @ '': '' @ msg)"

definition flush_section :: "parse_output \<Rightarrow> kv_section option \<Rightarrow> parse_output" where
  "flush_section out current = (case current of None \<Rightarrow> out | Some s \<Rightarrow> out @ [s])"

text \<open>The loop of \<open>Tokenize\<close>: line number, sections so far, current section, names seen.\<close>

fun tokenize_lines ::
  "nat \<Rightarrow> parse_output \<Rightarrow> kv_section option \<Rightarrow> string list \<Rightarrow> string list \<Rightarrow> parse_output result" where
  "tokenize_lines n out current seen [] = Inl (new_error ''missing ###END marker'')"
| "tokenize_lines n out current seen (l # ls) =
     (let line = trim_right carriage_return l in
      if line = [] then tokenize_lines (Suc n) out current seen ls
      else if line = ''###END'' then Inr (flush_section out current)
      else if has_prefix ''###'' line then
        (let out' = flush_section out current; name = trim_prefix ''###'' line in
         if name = [] then Inl (line_error n ''empty section name'')
         else if List.member seen name then
           Inl (line_error n (''duplicate section '' @ go_quote name))
         else tokenize_lines (Suc n) out' (Some \<lparr>sec_Name = name, sec_KVs = []\<rparr>) (name # seen) ls)
      else (case current of
              None \<Rightarrow> Inl (line_error n (''content outside section: '' @ go_quote line))
            | Some s \<Rightarrow>
                (case split_kv line of
                   Inl e \<Rightarrow> Inl (wrap_error (''line '' @ format_int (int n) @ '': '') e)
                 | Inr (key, v) \<Rightarrow>
                     tokenize_lines (Suc n) out
                       (Some (s\<lparr>sec_KVs := map_put (sec_KVs s) key v\<rparr>)) seen ls)))"

definition tokenize :: "string \<Rightarrow> parse_output result" where
  "tokenize input = tokenize_lines 1 [] None [] (split_on newline input)"

section \<open>Labelled keys\<close>

abbreviation dquote :: char where "dquote \<equiv> CHR 0x22"

fun label_pairs :: "string go_map \<Rightarrow> string list \<Rightarrow> string go_map option" where
  "label_pairs labels [] = Some labels"
| "label_pairs labels (pair # ps) =
     (case index_byte equals pair of
        None \<Rightarrow> None
      | Some eq \<Rightarrow>
          let lk = trim_space (take eq pair); lv = trim_space (drop (eq + 1) pair) in
          if length lv < 2 \<or> hd lv \<noteq> dquote \<or> last lv \<noteq> dquote then None
          else label_pairs (map_put labels lk (butlast (tl lv))) ps)"

text \<open>\<open>None\<close> is the result \<open>ok = false\<close>, on which every caller skips the key.\<close>

definition split_labeled_key :: "string \<Rightarrow> (string \<times> string go_map) option" where
  "split_labeled_key k =
     (case index_byte (CHR ''{'') k of
        None \<Rightarrow> None
      | Some op \<Rightarrow>
          if \<not> has_suffix ''}'' k then None
          else (let base = take op k; body = take (length k - op - 2) (drop (op + 1) k) in
            if body = [] then Some (base, [])
            else (case label_pairs [] (split_on comma body) of
                    None \<Rightarrow> None | Some labels \<Rightarrow> Some (base, labels))))"

section \<open>Required fields\<close>

definition require_string :: "kv_section \<Rightarrow> string \<Rightarrow> string result" where
  "require_string s key =
     (case map_of (sec_KVs s) key of
        None \<Rightarrow> Inl (new_error (''missing required key '' @ go_quote key))
      | Some v \<Rightarrow>
          if v = [] then Inl (new_error (''key '' @ go_quote key @ '' has empty value''))
          else Inr v)"

definition require_int64 :: "kv_section \<Rightarrow> string \<Rightarrow> int result" where
  "require_int64 s key =
     (case require_string s key of
        Inl e \<Rightarrow> Inl e
      | Inr v \<Rightarrow> (case parse_int64 v of
            Inl e \<Rightarrow> Inl (new_error (''key '' @ go_quote key @ '': invalid int64 '' @ go_quote v @
                       '': '' @ num_error_msg ''ParseInt'' v e))
          | Inr n \<Rightarrow> Inr n))"

definition require_float64 :: "'f float_ops \<Rightarrow> kv_section \<Rightarrow> string \<Rightarrow> 'f result" where
  "require_float64 fo s key =
     (case require_string s key of
        Inl e \<Rightarrow> Inl e
      | Inr v \<Rightarrow> (case parse_float fo v of
            Inl e \<Rightarrow> Inl (new_error (''key '' @ go_quote key @ '': invalid float64 '' @ go_quote v @
                       '': '' @ num_error_msg ''ParseFloat'' v e))
          | Inr x \<Rightarrow> Inr x))"

section \<open>Paired counters\<close>

text \<open>\<open>readDisks\<close> and \<open>readNet\<close> do the same job on different names; the names and the
  texts of their errors are the argument \<open>pair_names\<close>.\<close>

record pair_names =
  pn_metric :: string
  pn_label :: string
  pn_first :: string
  pn_second :: string
  pn_subject :: string
  pn_both :: string

record pair_acc =
  pa_first :: int
  pa_second :: int
  pa_hasFirst :: bool
  pa_hasSecond :: bool

definition empty_acc :: pair_acc where
  "empty_acc = \<lparr>pa_first = 0, pa_second = 0, pa_hasFirst = False, pa_hasSecond = False\<rparr>"

definition set_acc :: "pair_names \<Rightarrow> string \<Rightarrow> int \<Rightarrow> pair_acc \<Rightarrow> pair_acc" where
  "set_acc pn base n a =
     (if base = pn_first pn then a\<lparr>pa_first := n, pa_hasFirst := True\<rparr>
      else if base = pn_second pn then a\<lparr>pa_second := n, pa_hasSecond := True\<rparr>
      else a)"

fun scan_pairs ::
  "pair_names \<Rightarrow> (string \<times> pair_acc) list \<Rightarrow> (string \<times> string) list \<Rightarrow>
     (string \<times> pair_acc) list result" where
  "scan_pairs pn accs [] = Inr accs"
| "scan_pairs pn accs ((k, v) # kvs) =
     (case split_labeled_key k of
        None \<Rightarrow> scan_pairs pn accs kvs
      | Some (base, labels) \<Rightarrow>
          (case map_of labels (pn_label pn) of
             None \<Rightarrow> scan_pairs pn accs kvs
           | Some inst \<Rightarrow>
               (case parse_int64 v of
                  Inl e \<Rightarrow> Inl (new_error (pn_metric pn @ '' metric '' @ go_quote k @
                      '': invalid int64 '' @ go_quote v @ '': '' @ num_error_msg ''ParseInt'' v e))
                | Inr n \<Rightarrow>
                    let entry = (case map_of accs inst of None \<Rightarrow> empty_acc | Some a \<Rightarrow> a)
                    in scan_pairs pn (map_put accs inst (set_acc pn base n entry)) kvs)))"

fun collect_pairs ::
  "pair_names \<Rightarrow> (string \<times> pair_acc) list \<Rightarrow> (string \<times> int \<times> int) list result" where
  "collect_pairs pn [] = Inr []"
| "collect_pairs pn ((inst, a) # accs) =
     (if \<not> pa_hasFirst a \<and> \<not> pa_hasSecond a then
        Inl (new_error (pn_subject pn @ '' '' @ go_quote inst @ '' missing both '' @ pn_both pn))
      else if \<not> pa_hasFirst a then
        Inl (new_error (pn_subject pn @ '' '' @ go_quote inst @ '' missing '' @ pn_first pn))
      else if \<not> pa_hasSecond a then
        Inl (new_error (pn_subject pn @ '' '' @ go_quote inst @ '' missing '' @ pn_second pn))
      else (case collect_pairs pn accs of
              Inl e \<Rightarrow> Inl e
            | Inr rest \<Rightarrow> Inr ((inst, pa_first a, pa_second a) # rest)))"

text \<open>The map iteration orders of one run of the converters.\<close>

record map_orders =
  kv_order :: "(string \<times> string) range_order"
  acc_order :: "(string \<times> pair_acc) range_order"

definition valid_orders :: "map_orders \<Rightarrow> bool" where
  "valid_orders mo \<longleftrightarrow> valid_order (kv_order mo) \<and> valid_order (acc_order mo)"

definition source_orders :: map_orders where
  "source_orders = \<lparr>kv_order = source_order, acc_order = source_order\<rparr>"

definition read_pairs ::
  "pair_names \<Rightarrow> map_orders \<Rightarrow> nat \<Rightarrow> kv_section \<Rightarrow> (string \<times> int \<times> int) list result" where
  "read_pairs pn mo loop s =
     (case scan_pairs pn [] (kv_order mo loop (sec_KVs s)) of
        Inl e \<Rightarrow> Inl e
      | Inr accs \<Rightarrow> collect_pairs pn (acc_order mo loop accs))"

definition disk_names :: pair_names where
  "disk_names = \<lparr>pn_metric = ''disk'', pn_label = ''mount'', pn_first = ''disk_used_bytes'',
     pn_second = ''disk_total_bytes'', pn_subject = ''disk'', pn_both = ''used and total''\<rparr>"

definition net_names :: pair_names where
  "net_names = \<lparr>pn_metric = ''net'', pn_label = ''iface'', pn_first = ''net_rx_bytes'',
     pn_second = ''net_tx_bytes'', pn_subject = ''iface'', pn_both = ''rx and tx''\<rparr>"

definition read_disks :: "map_orders \<Rightarrow> kv_section \<Rightarrow> disk_mount list result" where
  "read_disks mo s =
     (case read_pairs disk_names mo 0 s of
        Inl e \<Rightarrow> Inl e
      | Inr ps \<Rightarrow> Inr (map (\<lambda>(mount, used, total).
          \<lparr>dm_Mount = mount, dm_UsedBytes = used, dm_TotalBytes = total\<rparr>) ps))"

definition read_net :: "map_orders \<Rightarrow> kv_section \<Rightarrow> net_iface list result" where
  "read_net mo s =
     (case read_pairs net_names mo 1 s of
        Inl e \<Rightarrow> Inl e
      | Inr ps \<Rightarrow> Inr (map (\<lambda>(name, rx, tx).
          \<lparr>ni_Name = name, ni_RxBytes = rx, ni_TxBytes = tx\<rparr>) ps))"

section \<open>Server, bench and site converters\<close>

definition zero_server :: "'f float_ops \<Rightarrow> 'f server_metrics" where
  "zero_server fo =
     \<lparr>sm_Timestamp = zero_time, sm_Hostname = [], sm_CollectorVersion = [],
      sm_CPUUser = 0, sm_CPUNice = 0, sm_CPUSystem = 0, sm_CPUIdle = 0, sm_CPUIOWait = 0,
      sm_CPUIRQ = 0, sm_CPUSoftIRQ = 0, sm_CPUSteal = 0,
      sm_MemTotalKB = 0, sm_MemAvailableKB = 0, sm_MemFreeKB = 0, sm_MemBuffersKB = 0,
      sm_MemCachedKB = 0, sm_SwapTotalKB = 0, sm_SwapFreeKB = 0,
      sm_Load1 = zero_float fo, sm_Load5 = zero_float fo, sm_Load15 = zero_float fo,
      sm_UptimeSeconds = zero_float fo, sm_Disks = [], sm_Net = []\<rparr>"

type_synonym ('v, 'm) field_setters = "(string \<times> ('v \<Rightarrow> 'm \<Rightarrow> 'm)) list"

definition int_fields :: "(int, 'f server_metrics) field_setters" where
  "int_fields =
    [(''cpu_user'', \<lambda>v m. m\<lparr>sm_CPUUser := v\<rparr>),
     (''cpu_nice'', \<lambda>v m. m\<lparr>sm_CPUNice := v\<rparr>),
     (''cpu_system'', \<lambda>v m. m\<lparr>sm_CPUSystem := v\<rparr>),
     (''cpu_idle'', \<lambda>v m. m\<lparr>sm_CPUIdle := v\<rparr>),
     (''cpu_iowait'', \<lambda>v m. m\<lparr>sm_CPUIOWait := v\<rparr>),
     (''cpu_irq'', \<lambda>v m. m\<lparr>sm_CPUIRQ := v\<rparr>),
     (''cpu_softirq'', \<lambda>v m. m\<lparr>sm_CPUSoftIRQ := v\<rparr>),
     (''cpu_steal'', \<lambda>v m. m\<lparr>sm_CPUSteal := v\<rparr>),
     (''mem_total_kb'', \<lambda>v m. m\<lparr>sm_MemTotalKB := v\<rparr>),
     (''mem_available_kb'', \<lambda>v m. m\<lparr>sm_MemAvailableKB := v\<rparr>),
     (''mem_free_kb'', \<lambda>v m. m\<lparr>sm_MemFreeKB := v\<rparr>),
     (''mem_buffers_kb'', \<lambda>v m. m\<lparr>sm_MemBuffersKB := v\<rparr>),
     (''mem_cached_kb'', \<lambda>v m. m\<lparr>sm_MemCachedKB := v\<rparr>),
     (''swap_total_kb'', \<lambda>v m. m\<lparr>sm_SwapTotalKB := v\<rparr>),
     (''swap_free_kb'', \<lambda>v m. m\<lparr>sm_SwapFreeKB := v\<rparr>)]"

definition float_fields :: "('f, 'f server_metrics) field_setters" where
  "float_fields =
    [(''load_1m'', \<lambda>v m. m\<lparr>sm_Load1 := v\<rparr>),
     (''load_5m'', \<lambda>v m. m\<lparr>sm_Load5 := v\<rparr>),
     (''load_15m'', \<lambda>v m. m\<lparr>sm_Load15 := v\<rparr>),
     (''uptime_seconds'', \<lambda>v m. m\<lparr>sm_UptimeSeconds := v\<rparr>)]"

fun set_fields ::
  "string \<Rightarrow> (string \<Rightarrow> 'v result) \<Rightarrow> ('v, 'm) field_setters \<Rightarrow> 'm \<Rightarrow> 'm result" where
  "set_fields pre require [] m = Inr m"
| "set_fields pre require ((key, upd) # fs) m =
     (case require key of
        Inl e \<Rightarrow> Inl (wrap_error pre e)
      | Inr v \<Rightarrow> set_fields pre require fs (upd v m))"

definition section_or_error :: "parse_output \<Rightarrow> string \<Rightarrow> kv_section result" where
  "section_or_error out name =
     (case output_section out name of
        None \<Rightarrow> Inl (new_error (''missing '' @ name @ '' section''))
      | Some s \<Rightarrow> Inr s)"

definition server_from_sections ::
  "'f float_ops \<Rightarrow> map_orders \<Rightarrow> parse_output \<Rightarrow> 'f server_metrics result" where
  "server_from_sections fo mo out =
     bind_result (section_or_error out ''META'') (\<lambda>meta.
     bind_result (section_or_error out ''SERVER'') (\<lambda>server.
     bind_result (wrap_result ''META: '' (require_string meta ''version'')) (\<lambda>version.
     bind_result (wrap_result ''META: '' (require_string meta ''hostname'')) (\<lambda>hostname.
     bind_result (wrap_result ''META: '' (require_int64 meta ''timestamp'')) (\<lambda>ts.
     bind_result (set_fields ''SERVER: '' (require_int64 server) int_fields
         ((zero_server fo)\<lparr>sm_CollectorVersion := version, sm_Hostname := hostname,
            sm_Timestamp := time_unix ts\<rparr>)) (\<lambda>m1.
     if sm_MemTotalKB m1 \<le> 0 then
       Inl (new_error (''SERVER: mem_total_kb must be positive, got '' @ format_int (sm_MemTotalKB m1)))
     else
     bind_result (set_fields ''SERVER: '' (require_float64 fo server) float_fields m1) (\<lambda>m2.
     bind_result (wrap_result ''SERVER disks: '' (read_disks mo server)) (\<lambda>disks.
     bind_result (wrap_result ''SERVER net: '' (read_net mo server)) (\<lambda>nets.
       Inr (m2\<lparr>sm_Disks := disks, sm_Net := nets\<rparr>))))))))))"

definition bench_section_prefix :: string where "bench_section_prefix = ''BENCH:''"
definition site_section_prefix :: string where "site_section_prefix = ''SITE:''"

definition bench_names :: "parse_output \<Rightarrow> string list" where
  "bench_names out =
     map (\<lambda>s. trim_prefix bench_section_prefix (sec_Name s))
       (filter (\<lambda>s. has_prefix bench_section_prefix (sec_Name s)) out)"

fun site_names_for :: "parse_output \<Rightarrow> (string \<times> string) list" where
  "site_names_for [] = []"
| "site_names_for (s # out) =
     (if \<not> has_prefix site_section_prefix (sec_Name s) then site_names_for out
      else (let rest = trim_prefix site_section_prefix (sec_Name s) in
        (case index_byte (CHR '':'') rest of
           None \<Rightarrow> site_names_for out
         | Some colon \<Rightarrow> (take colon rest, drop (colon + 1) rest) # site_names_for out)))"

fun frappe_version :: "string \<Rightarrow> (string \<times> string) list \<Rightarrow> string" where
  "frappe_version version [] = version"
| "frappe_version version ((k, v) # kvs) =
     (case split_labeled_key k of
        None \<Rightarrow> frappe_version version kvs
      | Some (base, labels) \<Rightarrow>
          if base \<noteq> ''info'' then frappe_version version kvs
          else (case map_of labels ''frappe_version'' of
                  None \<Rightarrow> frappe_version version kvs
                | Some w \<Rightarrow> frappe_version w kvs))"

fun redis_queues :: "string \<Rightarrow> (string \<times> string) list \<Rightarrow> redis_queue list result" where
  "redis_queues bench [] = Inr []"
| "redis_queues bench ((k, v) # kvs) =
     (case split_labeled_key k of
        None \<Rightarrow> redis_queues bench kvs
      | Some (base, labels) \<Rightarrow>
          if base \<noteq> ''redis_queue_depth'' then redis_queues bench kvs
          else (case map_of labels ''queue'' of
                  None \<Rightarrow> redis_queues bench kvs
                | Some qname \<Rightarrow>
                    (case parse_int64 v of
                       Inl e \<Rightarrow> Inl (new_error (''BENCH '' @ bench @ '': redis_queue_depth '' @
                           go_quote k @ '': '' @ num_error_msg ''ParseInt'' v e))
                     | Inr n \<Rightarrow> bind_result (redis_queues bench kvs)
                         (\<lambda>qs. Inr (\<lparr>rq_Name = qname, rq_Depth = n\<rparr> # qs)))))"

definition bench_from_sections :: "map_orders \<Rightarrow> parse_output \<Rightarrow> string \<Rightarrow> bench_metrics result" where
  "bench_from_sections mo out bench =
     bind_result (section_or_error out (bench_section_prefix @ bench)) (\<lambda>s.
     let pre = ''BENCH '' @ bench @ '': '' in
     bind_result (wrap_result pre (require_int64 s ''apps_count'')) (\<lambda>apps.
     bind_result (wrap_result pre (require_int64 s ''supervisor_running'')) (\<lambda>running.
     bind_result (wrap_result pre (require_int64 s ''supervisor_total'')) (\<lambda>total.
     bind_result (redis_queues bench (kv_order mo 3 (sec_KVs s))) (\<lambda>queues.
       Inr \<lparr>bm_Timestamp = zero_time, bm_Server = [], bm_Bench = bench,
         bm_FrappeVersion = frappe_version [] (kv_order mo 2 (sec_KVs s)),
         bm_AppsCount = apps, bm_SupervisorRun = running, bm_SupervisorTotal = total,
         bm_RedisQueues = queues\<rparr>)))))"

definition site_from_sections ::
  "'f float_ops \<Rightarrow> parse_output \<Rightarrow> string \<Rightarrow> string \<Rightarrow> 'f site_metrics result" where
  "site_from_sections fo out bench site =
     bind_result (section_or_error out (site_section_prefix @ bench @ '':'' @ site)) (\<lambda>s.
     let pre = ''SITE '' @ bench @ ''/'' @ site @ '': '' in
     bind_result (wrap_result pre (require_int64 s ''http_status_code'')) (\<lambda>code.
     bind_result (wrap_result pre (require_float64 fo s ''http_response_ms'')) (\<lambda>ms.
     bind_result (wrap_result pre (require_int64 s ''is_healthy'')) (\<lambda>healthy.
       Inr \<lparr>st_Timestamp = zero_time, st_Server = [], st_Bench = bench, st_Site = site,
         st_HTTPStatusCode = code, st_HTTPResponseMs = ms, st_IsHealthy = healthy\<rparr>))))"

definition meta_timestamp :: "parse_output \<Rightarrow> time result" where
  "meta_timestamp out =
     bind_result (section_or_error out ''META'') (\<lambda>meta.
     bind_result (wrap_result ''META: '' (require_int64 meta ''timestamp'')) (\<lambda>ts.
       Inr (time_unix ts)))"


section \<open>Tokenizing a rendered output\<close>

text \<open>What the collector script prints for a list of sections.\<close>

definition render_kv :: "string \<times> string \<Rightarrow> string" where
  "render_kv kv = fst kv @ equals # snd kv"

definition section_lines :: "kv_section \<Rightarrow> string list" where
  "section_lines s = (''###'' @ sec_Name s) # map render_kv (sec_KVs s)"

definition render_output :: "parse_output \<Rightarrow> string" where
  "render_output out =
     concat (map (\<lambda>l. l @ [newline]) (concat (map section_lines out) @ [''###END'']))"

definition key_ok :: "string \<Rightarrow> bool" where
  "key_ok k \<longleftrightarrow> find_eq 0 (k @ [equals]) = Some (length k)"

definition line_ok :: "string \<Rightarrow> bool" where
  "line_ok l \<longleftrightarrow> newline \<notin> set l \<and> (l = [] \<or> last l \<noteq> carriage_return)"

definition kv_ok :: "string \<times> string \<Rightarrow> bool" where
  "kv_ok kv \<longleftrightarrow> key_ok (fst kv) \<and> line_ok (render_kv kv) \<and> \<not> has_prefix ''###'' (render_kv kv)"

definition section_ok :: "kv_section \<Rightarrow> bool" where
  "section_ok s \<longleftrightarrow> sec_Name s \<noteq> [] \<and> sec_Name s \<noteq> ''END'' \<and> line_ok (sec_Name s) \<and>
     is_map (sec_KVs s) \<and> list_all kv_ok (sec_KVs s)"

definition output_ok :: "parse_output \<Rightarrow> bool" where
  "output_ok out \<longleftrightarrow> distinct (map sec_Name out) \<and> list_all section_ok out"

lemma find_eq_append:
  "find_eq d (k @ [equals]) = Some (length k) \<Longrightarrow> find_eq d (k @ equals # v) = Some (length k)"
  by (induction d k rule: find_eq.induct) (auto split: if_splits)

lemma split_kv_render: "key_ok k \<Longrightarrow> split_kv (render_kv (k, v)) = Inr (k, v)"
  by (simp add: split_kv_def render_kv_def key_ok_def find_eq_append)

lemma trim_cr_line: "line_ok l \<Longrightarrow> trim_right carriage_return l = l"
  by (auto simp: line_ok_def intro: trim_right_id)

lemma tokenize_kvs:
  assumes "list_all kv_ok kvs" "is_map (acc @ kvs)"
  shows "tokenize_lines n out (Some \<lparr>sec_Name = name, sec_KVs = acc\<rparr>) seen (map render_kv kvs @ ls) =
     tokenize_lines (n + length kvs) out (Some \<lparr>sec_Name = name, sec_KVs = acc @ kvs\<rparr>) seen ls"
  using assms
proof (induction kvs arbitrary: n acc)
  case Nil
  then show ?case by simp
next
  case (Cons kv kvs)
  obtain k v where kv: "kv = (k, v)" by (cases kv)
  have ok: "key_ok k" "line_ok (render_kv kv)" "\<not> has_prefix ''###'' (render_kv kv)"
    using Cons.prems(1) kv by (simp_all add: kv_ok_def)
  have "has_prefix ''###'' ''###END''" by (simp add: has_prefix_def)
  with ok(3) have ne: "render_kv kv \<noteq> []" "render_kv kv \<noteq> ''###END''"
    by (auto simp: render_kv_def)
  have "k \<notin> fst ` set acc" using Cons.prems(2) kv by (auto simp: is_map_def)
  then have put: "map_put acc k v = acc @ [kv]" by (simp add: map_put_new kv)
  have "tokenize_lines (Suc n) out (Some \<lparr>sec_Name = name, sec_KVs = acc @ [kv]\<rparr>) seen
      (map render_kv kvs @ ls) =
    tokenize_lines (Suc n + length kvs) out (Some \<lparr>sec_Name = name, sec_KVs = (acc @ [kv]) @ kvs\<rparr>) seen ls"
    by (rule Cons.IH) (use Cons.prems in auto)
  with ok ne put show ?case
    by (simp add: Let_def trim_cr_line split_kv_render kv)
qed

lemma tokenize_section:
  assumes "section_ok s" "sec_Name s \<notin> set seen"
  shows "tokenize_lines n out cur seen (section_lines s @ ls) =
     tokenize_lines (Suc n + length (sec_KVs s)) (flush_section out cur) (Some s) (sec_Name s # seen) ls"
proof -
  have l: "line_ok (''###'' @ sec_Name s)" "sec_Name s \<noteq> []" "sec_Name s \<noteq> ''END''"
    using assms(1) by (auto simp: section_ok_def line_ok_def carriage_return_def)
  have "trim_prefix ''###'' (''###'' @ sec_Name s) = sec_Name s"
    "has_prefix ''###'' (''###'' @ sec_Name s)"
    by (rule trim_prefix_append, rule has_prefix_append)
  with l assms(2) tokenize_kvs [of "sec_KVs s" "[]" "Suc n" "flush_section out cur" "sec_Name s"
      "sec_Name s # seen" ls] assms(1)
  show ?thesis
    by (cases s) (simp add: section_lines_def Let_def trim_cr_line section_ok_def)
qed

lemma tokenize_sections:
  assumes "list_all section_ok secs" "distinct (map sec_Name secs)"
    "set (map sec_Name secs) \<inter> set seen = {}"
  shows "tokenize_lines n out cur seen (concat (map section_lines secs) @ ''###END'' # ls) =
     Inr (flush_section out cur @ secs)"
  using assms
proof (induction secs arbitrary: n out cur seen)
  case Nil
  then show ?case by (simp add: trim_right_def carriage_return_def)
next
  case (Cons s secs)
  have "tokenize_lines n out cur seen (section_lines s @ concat (map section_lines secs) @ ''###END'' # ls) =
    tokenize_lines (Suc n + length (sec_KVs s)) (flush_section out cur) (Some s) (sec_Name s # seen)
      (concat (map section_lines secs) @ ''###END'' # ls)"
    by (rule tokenize_section) (use Cons.prems in auto)
  also have "\<dots> = Inr (flush_section (flush_section out cur) (Some s) @ secs)"
    by (rule Cons.IH) (use Cons.prems in auto)
  finally show ?case by (simp add: flush_section_def)
qed

lemma tokenize_rendered:
  assumes "output_ok out"
  shows "tokenize (render_output out) = Inr out"
proof -
  have free: "\<forall>l \<in> set (concat (map section_lines out) @ [''###END'']). newline \<notin> set l"
    using assms
    by (auto simp: output_ok_def list_all_iff section_ok_def section_lines_def kv_ok_def line_ok_def)
  have "tokenize_lines 1 [] None [] (concat (map section_lines out) @ ''###END'' # [[]]) =
      Inr (flush_section [] None @ out)"
    by (rule tokenize_sections) (use assms in \<open>auto simp: output_ok_def\<close>)
  then show ?thesis
    by (simp only: tokenize_def render_output_def split_lines [OF free])
      (simp add: flush_section_def)
qed


definition sample_output :: parse_output where
  "sample_output =
    [\<lparr>sec_Name = ''META'', sec_KVs = [(''version'', ''2.5.0''), (''timestamp'', ''1777000000'')]\<rparr>,
     \<lparr>sec_Name = ''SITE:b1:s1.example'', sec_KVs =
        [(''disk_used_bytes{mount='' @ [dquote] @ ''/'' @ [dquote] @ ''}'', ''42'')]\<rparr>]"

lemma sample_output_ok: "output_ok sample_output"
  by (simp add: output_ok_def sample_output_def section_ok_def line_ok_def carriage_return_def
      is_map_def kv_ok_def key_ok_def render_kv_def has_prefix_def)


text \<open>The sections of an accepted output have distinct, non-empty names and distinct keys.\<close>

definition parsed_ok :: "parse_output \<Rightarrow> bool" where
  "parsed_ok out \<longleftrightarrow> distinct (map sec_Name out) \<and>
     (\<forall>s \<in> set out. sec_Name s \<noteq> [] \<and> is_map (sec_KVs s))"

lemma tokenize_lines_parsed:
  assumes "tokenize_lines n out current seen ls = Inr res"
    and "parsed_ok (flush_section out current)"
    and "set (map sec_Name (flush_section out current)) \<subseteq> set seen"
  shows "parsed_ok res"
  using assms
proof (induction n out current seen ls rule: tokenize_lines.induct)
  case (1 n out current seen)
  then show ?case by simp
next
  case (2 n out current seen l ls)
  let ?line = "trim_right carriage_return l"
  consider "?line = []" | "?line = ''###END''"
    | (sec) "?line \<noteq> []" "?line \<noteq> ''###END''" "has_prefix ''###'' ?line"
    | (kv) "?line \<noteq> []" "?line \<noteq> ''###END''" "\<not> has_prefix ''###'' ?line"
    by blast
  then show ?case
  proof cases
    case 1
    with 2 show ?thesis by simp
  next
    case 2
    with \<open>tokenize_lines n out current seen (l # ls) = Inr res\<close>
      \<open>parsed_ok (flush_section out current)\<close>
    show ?thesis by simp
  next
    case sec
    let ?name = "trim_prefix ''###'' ?line"
    let ?out = "flush_section out current" and ?cur = "Some \<lparr>sec_Name = ?name, sec_KVs = []\<rparr>"
    have name: "?name \<noteq> []" "?name \<notin> set seen"
      and run: "tokenize_lines (Suc n) ?out ?cur (?name # seen) ls = Inr res"
      using sec "2.prems"(1) by (auto simp: Let_def split: if_splits)
    have ok: "parsed_ok (flush_section ?out ?cur)"
      using name "2.prems"(2,3) by (auto simp: parsed_ok_def flush_section_def)
    have sub: "set (map sec_Name (flush_section ?out ?cur)) \<subseteq> set (?name # seen)"
      using "2.prems"(3) by (auto simp: flush_section_def)
    show ?thesis
      by (rule "2.IH"(2) [OF refl _ _ _ refl refl _ _ run ok sub]) (use sec name in auto)
  next
    case kv
    obtain s where cur: "current = Some s"
      using kv "2.prems"(1) by (cases current) (auto simp: Let_def)
    obtain k v where split: "split_kv ?line = Inr (k, v)"
      using kv "2.prems"(1) cur by (cases "split_kv ?line") (auto simp: Let_def)
    let ?s = "s\<lparr>sec_KVs := map_put (sec_KVs s) k v\<rparr>"
    have run: "tokenize_lines (Suc n) out (Some ?s) seen ls = Inr res"
      using kv "2.prems"(1) cur split by (simp add: Let_def)
    have ok: "parsed_ok (flush_section out (Some ?s))"
      using "2.prems"(2) cur by (auto simp: parsed_ok_def flush_section_def)
    have sub: "set (map sec_Name (flush_section out (Some ?s))) \<subseteq> set seen"
      using "2.prems"(3) cur by (simp add: flush_section_def)
    show ?thesis
      by (rule "2.IH"(3) [OF refl _ _ _ cur split refl run ok sub]) (use kv in auto)
  qed
qed

lemma tokenize_parsed: "tokenize input = Inr out \<Longrightarrow> parsed_ok out"
  unfolding tokenize_def
  by (rule tokenize_lines_parsed) (auto simp: flush_section_def parsed_ok_def)

lemma output_section_unique:
  "parsed_ok out \<Longrightarrow> s \<in> set out \<Longrightarrow> output_section out (sec_Name s) = Some s"
  unfolding parsed_ok_def output_section_def
  by (induction out) (auto simp: image_iff)


section \<open>Labelled keys read back\<close>

text \<open>The form in which the collector script prints a key with one label.\<close>

definition labeled_key :: "string \<Rightarrow> string \<Rightarrow> string \<Rightarrow> string" where
  "labeled_key base label val =
     base @ CHR ''{'' # label @ equals # dquote # val @ [dquote, CHR ''}'']"

definition plain_text :: "string \<Rightarrow> bool" where
  "plain_text s \<longleftrightarrow> list_all (\<lambda>c. \<not> space_edge (of_char c) \<and> c \<noteq> dquote) s"

definition plain_label :: "string \<Rightarrow> bool" where
  "plain_label s \<longleftrightarrow> s \<noteq> [] \<and> plain_text s \<and> equals \<notin> set s \<and> comma \<notin> set s"

lemma plain_textD: "plain_text s \<Longrightarrow> c \<in> set s \<Longrightarrow> \<not> space_edge (of_char c) \<and> c \<noteq> dquote"
  by (simp add: plain_text_def list_all_iff)

lemma trim_plain: "plain_text s \<Longrightarrow> trim_space s = s"
  by (cases "s = []") (simp_all add: trim_space_id plain_textD)

lemma dquote_no_edge: "\<not> space_edge (of_char dquote)"
  by (simp add: space_edge_def)

lemma trim_quoted:
  assumes "plain_text s"
  shows "trim_space (dquote # s) = dquote # s"
    and "trim_space (dquote # s @ [dquote]) = dquote # s @ [dquote]"
proof -
  have "last (dquote # s) = dquote \<or> last (dquote # s) \<in> set s" by simp
  then have "\<not> space_edge (of_char (last (dquote # s)))"
    using plain_textD [OF assms] dquote_no_edge by metis
  then show "trim_space (dquote # s) = dquote # s"
    using dquote_no_edge by (intro trim_space_id) simp_all
  show "trim_space (dquote # s @ [dquote]) = dquote # s @ [dquote]"
    using dquote_no_edge by (intro trim_space_id) simp_all
qed

lemma label_pairs_one:
  assumes "plain_label label" "plain_text val"
  shows "label_pairs [] (split_on comma (label @ equals # dquote # val @ [dquote])) =
     (if comma \<in> set val then None else Some [(label, val)])"
proof (cases "comma \<in> set val")
  case False
  then have "comma \<notin> set (label @ equals # dquote # val @ [dquote])"
    using assms(1) by (auto simp: plain_label_def)
  then have "split_on comma (label @ equals # dquote # val @ [dquote]) =
      [label @ equals # dquote # val @ [dquote]]"
    by (rule split_on_no)
  with assms False show ?thesis
    by (simp add: plain_label_def index_byte_append trim_plain trim_quoted Let_def butlast_append)
next
  case True
  then obtain a b where v: "val = a @ comma # b" "comma \<notin> set a"
    by (meson split_list_first)
  have "comma \<notin> set (label @ equals # dquote # a)"
    using assms(1) v by (auto simp: plain_label_def)
  then have split: "split_on comma ((label @ equals # dquote # a) @ comma # b @ [dquote]) =
      (label @ equals # dquote # a) # split_on comma (b @ [dquote])"
    by (rule split_on_append)
  have "plain_text a" using assms(2) v by (simp add: plain_text_def)
  moreover have "a \<noteq> [] \<Longrightarrow> last a \<noteq> dquote"
    using assms(2) v by (auto simp: plain_text_def list_all_iff)
  ultimately show ?thesis
    using assms(1) split v True
    by (auto simp: plain_label_def index_byte_append trim_plain trim_quoted Let_def)
qed

lemma split_labeled_eq:
  assumes "CHR ''{'' \<notin> set base" "plain_label label" "plain_text val"
  shows "split_labeled_key (labeled_key base label val) =
     (if comma \<in> set val then None else Some (base, [(label, val)]))"
proof -
  define body where "body = label @ equals # dquote # val @ [dquote]"
  have k: "labeled_key base label val = base @ CHR ''{'' # body @ [CHR ''}'']"
    by (simp add: labeled_key_def body_def)
  have "index_byte (CHR ''{'') (labeled_key base label val) = Some (length base)"
    unfolding k using assms(1) by (rule index_byte_append)
  moreover have "has_suffix ''}'' (labeled_key base label val)"
    unfolding k by (simp add: has_suffix_def has_prefix_def)
  moreover have "take (length base) (labeled_key base label val) = base"
    "take (length (labeled_key base label val) - length base - 2)
       (drop (length base + 1) (labeled_key base label val)) = body"
    by (simp_all add: k)
  moreover have "label_pairs [] (split_on comma body) =
      (if comma \<in> set val then None else Some [(label, val)])" "body \<noteq> []"
    using label_pairs_one [OF assms(2,3)] by (simp_all add: body_def)
  ultimately show ?thesis
    unfolding split_labeled_key_def Let_def by simp
qed

text \<open>
  A key with one label, printed by the script with a quoted value of printable characters,
  reads back as its base name and that label, whatever the value contains but a comma; with a
  comma in the value the key counts as unlabelled (every caller skips it) and the
  sample is lost without an error.
\<close>

lemma split_labeled_key_reads:
  assumes "CHR ''{'' \<notin> set base" "plain_label label" "plain_text val"
  shows "split_labeled_key (labeled_key base label val) =
     (if comma \<in> set val then None else Some (base, [(label, val)]))"
  by (rule split_labeled_eq [OF assms])

lemma split_labeled_key_reads_witness:
  "split_labeled_key (labeled_key ''disk_used_bytes'' ''mount'' ''/data'') =
     Some (''disk_used_bytes'', [(''mount'', ''/data'')]) \<and>
   split_labeled_key (labeled_key ''disk_used_bytes'' ''mount'' ''/a,b'') = None"
  using split_labeled_key_reads [of "''disk_used_bytes''" "''mount''" "''/data''"]
    split_labeled_key_reads [of "''disk_used_bytes''" "''mount''" "''/a,b''"]
  by (simp add: plain_label_def plain_text_def space_edge_def)


section \<open>Paired counters are complete\<close>

text \<open>The samples of one pair kind that a section holds: base name, instance and raw value.\<close>

definition pair_sample :: "pair_names \<Rightarrow> string \<times> string \<Rightarrow> (string \<times> string \<times> string) option" where
  "pair_sample pn kv =
     (case split_labeled_key (fst kv) of
        None \<Rightarrow> None
      | Some (base, labels) \<Rightarrow>
          map_option (\<lambda>inst. (base, inst, snd kv)) (map_of labels (pn_label pn)))"

definition pair_samples :: "pair_names \<Rightarrow> (string \<times> string) list \<Rightarrow> (string \<times> string \<times> string) list" where
  "pair_samples pn kvs = List.map_filter (pair_sample pn) kvs"

text \<open>Every sample is a number, and every instance has both of its counters.\<close>

definition pairs_complete :: "pair_names \<Rightarrow> (string \<times> string) list \<Rightarrow> bool" where
  "pairs_complete pn kvs \<longleftrightarrow>
     list_all (\<lambda>(b, i, v). is_ok (parse_int64 v)) (pair_samples pn kvs) \<and>
     list_all (\<lambda>(b, i, v).
       list_ex (\<lambda>(b', i', v'). b' = pn_first pn \<and> i' = i) (pair_samples pn kvs) \<and>
       list_ex (\<lambda>(b', i', v'). b' = pn_second pn \<and> i' = i) (pair_samples pn kvs))
       (pair_samples pn kvs)"

lemma pair_samples_simps [simp]:
  "pair_samples pn [] = []"
  "pair_samples pn (kv # kvs) =
     (case pair_sample pn kv of None \<Rightarrow> pair_samples pn kvs | Some t \<Rightarrow> t # pair_samples pn kvs)"
  by (simp_all add: pair_samples_def map_filter_simps split: option.split)

lemma set_pair_samples: "set (pair_samples pn kvs) = {t. \<exists>kv \<in> set kvs. pair_sample pn kv = Some t}"
  by (induction kvs) (auto split: option.splits)

lemma set_pair_samples_perm:
  "set xs = set ys \<Longrightarrow> set (pair_samples pn xs) = set (pair_samples pn ys)"
  by (simp add: set_pair_samples)

lemma pairs_complete_perm: "set xs = set ys \<Longrightarrow> pairs_complete pn xs = pairs_complete pn ys"
  by (simp add: pairs_complete_def list_all_iff list_ex_iff set_pair_samples_perm [of xs ys])

definition inst_step ::
  "pair_names \<Rightarrow> string \<Rightarrow> string \<times> string \<times> string \<Rightarrow> pair_acc option \<Rightarrow> pair_acc option" where
  "inst_step pn inst t acc =
     (case t of (b, i, v) \<Rightarrow>
        if i \<noteq> inst then acc
        else (case parse_int64 v of
                Inl e \<Rightarrow> acc
              | Inr n \<Rightarrow> Some (set_acc pn b n (case acc of None \<Rightarrow> empty_acc | Some a \<Rightarrow> a))))"

lemma inst_step_simps:
  "i \<noteq> inst \<Longrightarrow> inst_step pn inst (b, i, v) acc = acc"
  "parse_int64 v = Inr n \<Longrightarrow> inst_step pn inst (b, inst, v) acc =
     Some (set_acc pn b n (case acc of None \<Rightarrow> empty_acc | Some a \<Rightarrow> a))"
  by (simp_all add: inst_step_def)

lemma scan_pairs_step:
  "pair_sample pn kv = None \<Longrightarrow> scan_pairs pn accs (kv # kvs) = scan_pairs pn accs kvs"
  "pair_sample pn kv = Some (b, i, v) \<Longrightarrow> parse_int64 v = Inl e \<Longrightarrow>
     \<not> is_ok (scan_pairs pn accs (kv # kvs))"
  "pair_sample pn kv = Some (b, i, v) \<Longrightarrow> parse_int64 v = Inr n \<Longrightarrow>
     scan_pairs pn accs (kv # kvs) =
       scan_pairs pn (map_put accs i (set_acc pn b n
         (case map_of accs i of None \<Rightarrow> empty_acc | Some a \<Rightarrow> a))) kvs"
  by (cases kv; auto simp: pair_sample_def Let_def split: option.splits prod.splits)+

lemma scan_pairs_ok:
  "is_ok (scan_pairs pn accs kvs) \<longleftrightarrow> (\<forall>(b, i, v) \<in> set (pair_samples pn kvs). is_ok (parse_int64 v))"
proof (induction kvs arbitrary: accs)
  case Nil
  then show ?case by simp
next
  case (Cons kv kvs)
  show ?case
  proof (cases "pair_sample pn kv")
    case None
    then show ?thesis using Cons by (simp add: scan_pairs_step)
  next
    case (Some t)
    then obtain b i v where t: "pair_sample pn kv = Some (b, i, v)" by (cases t) auto
    show ?thesis
    proof (cases "parse_int64 v")
      case (Inl e)
      with t show ?thesis by (simp add: scan_pairs_step(2) del: scan_pairs.simps)
    next
      case (Inr n)
      with t show ?thesis by (simp add: scan_pairs_step(3) Cons.IH del: scan_pairs.simps)
    qed
  qed
qed

lemma scan_pairs_fold:
  "scan_pairs pn accs kvs = Inr accs' \<Longrightarrow> is_map accs \<Longrightarrow>
     is_map accs' \<and> map_of accs' inst = fold (inst_step pn inst) (pair_samples pn kvs) (map_of accs inst)"
proof (induction kvs arbitrary: accs)
  case Nil
  then show ?case by simp
next
  case (Cons kv kvs)
  show ?case
  proof (cases "pair_sample pn kv")
    case None
    then show ?thesis using Cons by (simp add: scan_pairs_step del: scan_pairs.simps)
  next
    case (Some t)
    then obtain b i v where t: "pair_sample pn kv = Some (b, i, v)" by (cases t) auto
    have "is_ok (scan_pairs pn accs (kv # kvs))" using Cons.prems(1) by simp
    with t obtain n where n: "parse_int64 v = Inr n"
      by (cases "parse_int64 v") (auto simp: scan_pairs_step(2) simp del: scan_pairs.simps)
    let ?acc = "map_put accs i (set_acc pn b n (case map_of accs i of None \<Rightarrow> empty_acc | Some a \<Rightarrow> a))"
    have "scan_pairs pn ?acc kvs = Inr accs'"
      using Cons.prems(1) by (simp add: scan_pairs_step(3) [OF t n] del: scan_pairs.simps)
    from Cons.IH [OF this] Cons.prems(2) t n show ?thesis
      by (simp add: inst_step_def)
  qed
qed

definition acc_spec ::
  "pair_names \<Rightarrow> (string \<times> string \<times> string) list \<Rightarrow> string \<Rightarrow> pair_acc \<Rightarrow> bool" where
  "acc_spec pn ss inst a \<longleftrightarrow>
     (pa_hasFirst a \<longleftrightarrow> (\<exists>v. (pn_first pn, inst, v) \<in> set ss)) \<and>
     (pa_hasSecond a \<longleftrightarrow> (\<exists>v. (pn_second pn, inst, v) \<in> set ss)) \<and>
     (pa_hasFirst a \<longrightarrow> (\<exists>v. (pn_first pn, inst, v) \<in> set ss \<and> parse_int64 v = Inr (pa_first a))) \<and>
     (pa_hasSecond a \<longrightarrow> (\<exists>v. (pn_second pn, inst, v) \<in> set ss \<and> parse_int64 v = Inr (pa_second a)))"

lemma fold_inst_step:
  assumes "pn_first pn \<noteq> pn_second pn" "\<forall>(b, i, v) \<in> set ss. is_ok (parse_int64 v)"
  shows "case fold (inst_step pn inst) ss None of
       None \<Rightarrow> (\<forall>(b, i, v) \<in> set ss. i \<noteq> inst)
     | Some a \<Rightarrow> (\<exists>(b, i, v) \<in> set ss. i = inst) \<and> acc_spec pn ss inst a"
  using assms(2)
proof (induction ss rule: rev_induct)
  case Nil
  then show ?case by simp
next
  case (snoc t ss)
  obtain b i v where t: "t = (b, i, v)" by (cases t)
  from snoc.prems t obtain n where n: "parse_int64 v = Inr n" by (auto elim: is_okE)
  have IH: "case fold (inst_step pn inst) ss None of
       None \<Rightarrow> (\<forall>(b, i, v) \<in> set ss. i \<noteq> inst)
     | Some a \<Rightarrow> (\<exists>(b, i, v) \<in> set ss. i = inst) \<and> acc_spec pn ss inst a"
    using snoc by simp
  show ?case
  proof (cases "i = inst")
    case False
    with t have "fold (inst_step pn inst) (ss @ [t]) None = fold (inst_step pn inst) ss None"
      by (simp add: inst_step_simps)
    with False IH t show ?thesis
      by (cases "fold (inst_step pn inst) ss None") (auto simp: acc_spec_def)
  next
    case True
    show ?thesis
    proof (cases "fold (inst_step pn inst) ss None")
      case None
      with IH have "\<And>b v. (b, inst, v) \<notin> set ss" by auto
      with None True t n assms(1) show ?thesis
        by (auto simp: inst_step_simps(2) [OF n] acc_spec_def set_acc_def empty_acc_def)
    next
      case (Some a)
      with IH have "acc_spec pn ss inst a" by simp
      with Some True t n assms(1) show ?thesis
        by (auto simp: inst_step_simps(2) [OF n] acc_spec_def set_acc_def)
    qed
  qed
qed

lemma collect_pairs_ok:
  "is_ok (collect_pairs pn accs) \<longleftrightarrow> (\<forall>(i, a) \<in> set accs. pa_hasFirst a \<and> pa_hasSecond a)"
proof (induction accs)
  case Nil
  then show ?case by simp
next
  case (Cons x accs)
  then show ?case
    by (cases x; cases "collect_pairs pn accs") auto
qed

lemma collect_pairs_Inr:
  "collect_pairs pn accs = Inr ps \<Longrightarrow>
     ps = map (\<lambda>(i, a). (i, pa_first a, pa_second a)) accs \<and>
     (\<forall>(i, a) \<in> set accs. pa_hasFirst a \<and> pa_hasSecond a)"
  by (induction accs arbitrary: ps) (auto split: sum.splits if_splits)

lemma scan_pairs_spec:
  assumes "pn_first pn \<noteq> pn_second pn" "scan_pairs pn [] kvs = Inr accs"
  shows "is_map accs"
    and "fst ` set accs = (\<lambda>(b, i, v). i) ` set (pair_samples pn kvs)"
    and "(i, a) \<in> set accs \<Longrightarrow> acc_spec pn (pair_samples pn kvs) i a"
proof -
  let ?ss = "pair_samples pn kvs"
  have ok: "\<forall>(b, i, v) \<in> set ?ss. is_ok (parse_int64 v)"
    using scan_pairs_ok [of pn "[]" kvs] assms(2) by simp
  note spec = fold_inst_step [OF assms(1) ok]
  have lookup: "map_of accs inst = fold (inst_step pn inst) ?ss None" for inst
    using scan_pairs_fold [OF assms(2)] by simp
  show m: "is_map accs" using scan_pairs_fold [OF assms(2)] by simp
  have "inst \<in> fst ` set accs \<longleftrightarrow> inst \<in> (\<lambda>(b, i, v). i) ` set ?ss" for inst
  proof -
    have "inst \<in> fst ` set accs \<longleftrightarrow> map_of accs inst \<noteq> None"
      by (simp add: map_of_eq_None_iff)
    also have "\<dots> \<longleftrightarrow> (\<exists>(b, i, v) \<in> set ?ss. i = inst)"
      using spec [of inst] unfolding lookup by (auto split: option.splits)
    finally show ?thesis by (force simp: image_iff)
  qed
  then show "fst ` set accs = (\<lambda>(b, i, v). i) ` set ?ss" by blast
  assume "(i, a) \<in> set accs"
  then have "map_of accs i = Some a" using m by (simp add: is_map_def)
  then show "acc_spec pn ?ss i a" using spec [of i] by (simp add: lookup)
qed

lemma read_pairs_ok_iff:
  assumes "pn_first pn \<noteq> pn_second pn" "valid_orders mo"
  shows "is_ok (read_pairs pn mo loop s) \<longleftrightarrow> pairs_complete pn (sec_KVs s)"
proof -
  let ?kvs = "kv_order mo loop (sec_KVs s)" and ?ss = "pair_samples pn (sec_KVs s)"
  have perm: "set ?kvs = set (sec_KVs s)"
    using assms(2) by (simp add: valid_orders_def valid_order_set)
  have "is_ok (read_pairs pn mo loop s) \<longleftrightarrow> pairs_complete pn ?kvs"
  proof (cases "scan_pairs pn [] ?kvs")
    case (Inl e)
    then show ?thesis using scan_pairs_ok [of pn "[]" ?kvs]
      by (auto simp: read_pairs_def pairs_complete_def list_all_iff)
  next
    case (Inr accs)
    note spec = scan_pairs_spec [OF assms(1) Inr]
    have "\<forall>(b, i, v) \<in> set (pair_samples pn ?kvs). is_ok (parse_int64 v)"
      using scan_pairs_ok [of pn "[]" ?kvs] Inr by simp
    moreover have "set (acc_order mo loop accs) = set accs"
      using assms(2) by (simp add: valid_orders_def valid_order_set)
    moreover have "(\<forall>(i, a) \<in> set accs. pa_hasFirst a \<and> pa_hasSecond a) \<longleftrightarrow>
        (\<forall>i \<in> fst ` set accs. (\<exists>v. (pn_first pn, i, v) \<in> set (pair_samples pn ?kvs)) \<and>
           (\<exists>v. (pn_second pn, i, v) \<in> set (pair_samples pn ?kvs)))"
      using spec(3) by (fastforce simp: acc_spec_def)
    ultimately show ?thesis
      unfolding spec(2)
      by (fastforce simp: read_pairs_def Inr collect_pairs_ok pairs_complete_def list_all_iff list_ex_iff)
  qed
  then show ?thesis using pairs_complete_perm [OF perm] by simp
qed

lemma read_pairs_spec:
  assumes "pn_first pn \<noteq> pn_second pn" "valid_orders mo" "read_pairs pn mo loop s = Inr ps"
  shows "distinct (map fst ps)"
    and "set (map fst ps) = (\<lambda>(b, i, v). i) ` set (pair_samples pn (sec_KVs s))"
    and "(i, x, y) \<in> set ps \<Longrightarrow>
      \<exists>u w. (pn_first pn, i, u) \<in> set (pair_samples pn (sec_KVs s)) \<and> parse_int64 u = Inr x \<and>
            (pn_second pn, i, w) \<in> set (pair_samples pn (sec_KVs s)) \<and> parse_int64 w = Inr y"
proof -
  let ?kvs = "kv_order mo loop (sec_KVs s)"
  from assms(3) obtain accs where scan: "scan_pairs pn [] ?kvs = Inr accs"
    and col: "collect_pairs pn (acc_order mo loop accs) = Inr ps"
    by (auto simp: read_pairs_def split: sum.splits)
  note spec = scan_pairs_spec [OF assms(1) scan]
  have ss: "set (pair_samples pn ?kvs) = set (pair_samples pn (sec_KVs s))"
    using assms(2) by (intro set_pair_samples_perm) (simp add: valid_orders_def valid_order_set)
  have ord: "mset (acc_order mo loop accs) = mset accs" "set (acc_order mo loop accs) = set accs"
    using assms(2) by (simp_all add: valid_orders_def valid_order_set valid_orderD)
  note ps = collect_pairs_Inr [OF col]
  have keys: "map fst ps = map fst (acc_order mo loop accs)"
    using ps by (simp add: case_prod_unfold)
  show "distinct (map fst ps)"
    unfolding keys using spec(1) is_map_perm [OF ord(1)] by (simp add: is_map_def)
  show "set (map fst ps) = (\<lambda>(b, i, v). i) ` set (pair_samples pn (sec_KVs s))"
    unfolding keys using spec(2) by (simp add: ord ss)
  assume "(i, x, y) \<in> set ps"
  with ps obtain a where "(i, a) \<in> set (acc_order mo loop accs)" "x = pa_first a" "y = pa_second a"
    "pa_hasFirst a" "pa_hasSecond a"
    by fastforce
  with spec(3) [of i a] ord(2)
  show "\<exists>u w. (pn_first pn, i, u) \<in> set (pair_samples pn (sec_KVs s)) \<and> parse_int64 u = Inr x \<and>
      (pn_second pn, i, w) \<in> set (pair_samples pn (sec_KVs s)) \<and> parse_int64 w = Inr y"
    by (auto simp: acc_spec_def ss)
qed

lemma pair_names_distinct [simp]:
  "pn_first disk_names \<noteq> pn_second disk_names" "pn_first net_names \<noteq> pn_second net_names"
  by (simp_all add: disk_names_def net_names_def)

text \<open>
  The disks of a section are accepted exactly when every labelled mount counter is a 64-bit
  integer and every mount has both its used and its total counter; then there is one entry per
  mount, and its two numbers are the section's counters for that mount. Both hold whatever
  order the runtime iterates the maps in.
\<close>

lemma read_disks_complete:
  assumes "valid_orders mo"
  shows "(is_ok (read_disks mo s) \<longleftrightarrow> pairs_complete disk_names (sec_KVs s)) \<and>
     (\<forall>ds. read_disks mo s = Inr ds \<longrightarrow>
        distinct (map dm_Mount ds) \<and>
        set (map dm_Mount ds) = (\<lambda>(b, i, v). i) ` set (pair_samples disk_names (sec_KVs s)) \<and>
        (\<forall>d \<in> set ds. \<exists>u t.
           (''disk_used_bytes'', dm_Mount d, u) \<in> set (pair_samples disk_names (sec_KVs s)) \<and>
           parse_int64 u = Inr (dm_UsedBytes d) \<and>
           (''disk_total_bytes'', dm_Mount d, t) \<in> set (pair_samples disk_names (sec_KVs s)) \<and>
           parse_int64 t = Inr (dm_TotalBytes d)))"
proof (intro conjI allI impI)
  have "is_ok (read_disks mo s) \<longleftrightarrow> is_ok (read_pairs disk_names mo 0 s)"
    by (auto simp: read_disks_def split: sum.split)
  then show "is_ok (read_disks mo s) \<longleftrightarrow> pairs_complete disk_names (sec_KVs s)"
    using read_pairs_ok_iff [OF pair_names_distinct(1) assms] by simp
next
  fix ds
  assume "read_disks mo s = Inr ds"
  then obtain ps where ps: "read_pairs disk_names mo 0 s = Inr ps"
    and ds: "ds = map (\<lambda>(mount, used, total).
      \<lparr>dm_Mount = mount, dm_UsedBytes = used, dm_TotalBytes = total\<rparr>) ps"
    by (auto simp: read_disks_def split: sum.splits)
  note spec = read_pairs_spec [OF pair_names_distinct(1) assms ps]
  have mounts: "map dm_Mount ds = map fst ps" by (simp add: ds case_prod_unfold)
  show "distinct (map dm_Mount ds)"
    "set (map dm_Mount ds) = (\<lambda>(b, i, v). i) ` set (pair_samples disk_names (sec_KVs s))"
    unfolding mounts using spec by auto
  show "\<forall>d \<in> set ds. \<exists>u t.
      (''disk_used_bytes'', dm_Mount d, u) \<in> set (pair_samples disk_names (sec_KVs s)) \<and>
      parse_int64 u = Inr (dm_UsedBytes d) \<and>
      (''disk_total_bytes'', dm_Mount d, t) \<in> set (pair_samples disk_names (sec_KVs s)) \<and>
      parse_int64 t = Inr (dm_TotalBytes d)"
    using spec(3) by (fastforce simp: ds disk_names_def)
qed

lemma mount_sample:
  "pair_sample disk_names (labeled_key ''disk_used_bytes'' ''mount'' ''/'', u) =
     Some (''disk_used_bytes'', ''/'', u)"
  "pair_sample disk_names (labeled_key ''disk_total_bytes'' ''mount'' ''/'', u) =
     Some (''disk_total_bytes'', ''/'', u)"
  by (simp_all add: pair_sample_def split_labeled_eq plain_label_def plain_text_def space_edge_def)
    (simp_all add: disk_names_def)

lemma read_disks_complete_witness:
  "valid_orders source_orders \<and>
   \<not> is_ok (read_disks source_orders \<lparr>sec_Name = ''SERVER'', sec_KVs =
     [(labeled_key ''disk_used_bytes'' ''mount'' ''/'', ''5'')]\<rparr>) \<and>
   is_ok (read_disks source_orders \<lparr>sec_Name = ''SERVER'', sec_KVs =
     [(labeled_key ''disk_used_bytes'' ''mount'' ''/'', ''5''),
      (labeled_key ''disk_total_bytes'' ''mount'' ''/'', ''9'')]\<rparr>)"
proof -
  have v: "valid_orders source_orders" by (simp add: valid_orders_def source_orders_def)
  have "is_ok (parse_int64 ''5'')" "is_ok (parse_int64 ''9'')"
    by (simp_all add: parse_int64_def parse_uint_def digit_val_def)
  then have "\<not> pairs_complete disk_names [(labeled_key ''disk_used_bytes'' ''mount'' ''/'', ''5'')]"
    "pairs_complete disk_names
      [(labeled_key ''disk_used_bytes'' ''mount'' ''/'', ''5''),
       (labeled_key ''disk_total_bytes'' ''mount'' ''/'', ''9'')]"
    by (simp_all add: pairs_complete_def mount_sample) (simp add: disk_names_def)+
  with read_disks_complete [OF v] v show ?thesis by simp
qed


section \<open>The server converter\<close>

lemma set_fields_ok_iff:
  "is_ok (set_fields pre req fs m) \<longleftrightarrow> (\<forall>(k, upd) \<in> set fs. is_ok (req k))"
  by (induction fs arbitrary: m) (auto split: sum.splits)

lemma set_fields_ok:
  "\<forall>(k, upd) \<in> set fs. is_ok (req k) \<Longrightarrow>
     set_fields pre req fs m = Inr (fold (\<lambda>(k, upd) m. upd (projr (req k)) m) fs m)"
  by (induction fs arbitrary: m) (auto split: sum.splits)

lemma read_disks_ok: "valid_orders mo \<Longrightarrow> is_ok (read_disks mo s) \<longleftrightarrow> pairs_complete disk_names (sec_KVs s)"
  and read_net_ok: "valid_orders mo \<Longrightarrow> is_ok (read_net mo s) \<longleftrightarrow> pairs_complete net_names (sec_KVs s)"
proof -
  have "is_ok (read_disks mo s) \<longleftrightarrow> is_ok (read_pairs disk_names mo 0 s)"
    "is_ok (read_net mo s) \<longleftrightarrow> is_ok (read_pairs net_names mo 1 s)"
    by (auto simp: read_disks_def read_net_def split: sum.split)
  then show "valid_orders mo \<Longrightarrow> is_ok (read_disks mo s) \<longleftrightarrow> pairs_complete disk_names (sec_KVs s)"
    "valid_orders mo \<Longrightarrow> is_ok (read_net mo s) \<longleftrightarrow> pairs_complete net_names (sec_KVs s)"
    by (simp_all add: read_pairs_ok_iff)
qed

text \<open>Every required key and its field, and what a complete output holds.\<close>

definition int_getters :: "(string \<times> ('f server_metrics \<Rightarrow> int)) list" where
  "int_getters =
    [(''cpu_user'', sm_CPUUser), (''cpu_nice'', sm_CPUNice), (''cpu_system'', sm_CPUSystem),
     (''cpu_idle'', sm_CPUIdle), (''cpu_iowait'', sm_CPUIOWait), (''cpu_irq'', sm_CPUIRQ),
     (''cpu_softirq'', sm_CPUSoftIRQ), (''cpu_steal'', sm_CPUSteal),
     (''mem_total_kb'', sm_MemTotalKB), (''mem_available_kb'', sm_MemAvailableKB),
     (''mem_free_kb'', sm_MemFreeKB), (''mem_buffers_kb'', sm_MemBuffersKB),
     (''mem_cached_kb'', sm_MemCachedKB), (''swap_total_kb'', sm_SwapTotalKB),
     (''swap_free_kb'', sm_SwapFreeKB)]"

definition float_getters :: "(string \<times> ('f server_metrics \<Rightarrow> 'f)) list" where
  "float_getters =
    [(''load_1m'', sm_Load1), (''load_5m'', sm_Load5), (''load_15m'', sm_Load15),
     (''uptime_seconds'', sm_UptimeSeconds)]"

definition server_complete :: "'f float_ops \<Rightarrow> kv_section \<Rightarrow> kv_section \<Rightarrow> bool" where
  "server_complete fo meta server \<longleftrightarrow>
     is_ok (require_string meta ''version'') \<and> is_ok (require_string meta ''hostname'') \<and>
     is_ok (require_int64 meta ''timestamp'') \<and>
     (\<forall>(k, g) \<in> set (int_getters :: (string \<times> (unit server_metrics \<Rightarrow> int)) list).
        is_ok (require_int64 server k)) \<and>
     0 < projr (require_int64 server ''mem_total_kb'') \<and>
     (\<forall>(k, g) \<in> set (float_getters :: (string \<times> (unit server_metrics \<Rightarrow> unit)) list).
        is_ok (require_float64 fo server k)) \<and>
     pairs_complete disk_names (sec_KVs server) \<and> pairs_complete net_names (sec_KVs server)"

definition server_fields :: "'f float_ops \<Rightarrow> kv_section \<Rightarrow> kv_section \<Rightarrow> 'f server_metrics \<Rightarrow> bool" where
  "server_fields fo meta server m \<longleftrightarrow>
     require_string meta ''version'' = Inr (sm_CollectorVersion m) \<and>
     require_string meta ''hostname'' = Inr (sm_Hostname m) \<and>
     (\<exists>ts. require_int64 meta ''timestamp'' = Inr ts \<and> sm_Timestamp m = time_unix ts) \<and>
     (\<forall>(k, g) \<in> set int_getters. require_int64 server k = Inr (g m)) \<and>
     0 < sm_MemTotalKB m \<and>
     (\<forall>(k, g) \<in> set float_getters. require_float64 fo server k = Inr (g m))"

lemma server_from_sections_eq:
  assumes "output_section out ''META'' = Some meta" "output_section out ''SERVER'' = Some server"
    and "valid_orders mo"
  shows "if server_complete fo meta server
    then \<exists>m. server_from_sections fo mo out = Inr m \<and> server_fields fo meta server m \<and>
      read_disks mo server = Inr (sm_Disks m) \<and> read_net mo server = Inr (sm_Net m)
    else \<not> is_ok (server_from_sections fo mo out)"
proof -
  let ?base = "\<lambda>v h t. (zero_server fo)\<lparr>sm_CollectorVersion := v, sm_Hostname := h,
            sm_Timestamp := time_unix t\<rparr>"
  let ?m1 = "\<lambda>v h t. fold (\<lambda>(k, upd) m. upd (projr (require_int64 server k)) m) int_fields (?base v h t)"
  have keys: "(\<forall>(k, g) \<in> set (int_getters :: (string \<times> (unit server_metrics \<Rightarrow> int)) list).
        is_ok (require_int64 server k)) \<longleftrightarrow>
      (\<forall>(k, upd) \<in> set (int_fields :: (int, 'a server_metrics) field_setters). is_ok (require_int64 server k))"
    "(\<forall>(k, g) \<in> set (float_getters :: (string \<times> (unit server_metrics \<Rightarrow> unit)) list).
        is_ok (require_float64 fo server k)) \<longleftrightarrow>
      (\<forall>(k, upd) \<in> set (float_fields :: ('a, 'a server_metrics) field_setters). is_ok (require_float64 fo server k))"
    by (simp_all add: int_getters_def int_fields_def float_getters_def float_fields_def)
  have mem: "sm_MemTotalKB (?m1 v h t) = projr (require_int64 server ''mem_total_kb'')" for v h t
    by (simp add: int_fields_def)
  have ok: "is_ok (server_from_sections fo mo out) \<longleftrightarrow> server_complete fo meta server"
    using assms keys
    by (auto simp: server_from_sections_def section_or_error_def is_ok_bind is_ok_wrap
      set_fields_ok_iff set_fields_ok mem server_complete_def read_disks_ok read_net_ok not_le)
  show ?thesis
  proof (cases "server_complete fo meta server")
    case False
    with ok show ?thesis by simp
  next
    case True
    note c = this [unfolded server_complete_def keys]
    obtain v h t where vht: "require_string meta ''version'' = Inr v"
      "require_string meta ''hostname'' = Inr h" "require_int64 meta ''timestamp'' = Inr t"
      using c by (auto elim!: is_okE)
    obtain ds ns where dn: "read_disks mo server = Inr ds" "read_net mo server = Inr ns"
      using c read_disks_ok [OF assms(3)] read_net_ok [OF assms(3)] by (metis is_okE)
    let ?m = "fold (\<lambda>(k, upd) m. upd (projr (require_float64 fo server k)) m) float_fields (?m1 v h t)
      \<lparr>sm_Disks := ds, sm_Net := ns\<rparr>"
    have "server_from_sections fo mo out = Inr ?m"
      using c mem assms(1,2)
      by (simp add: server_from_sections_def section_or_error_def vht dn set_fields_ok not_le)
    moreover have "server_fields fo meta server ?m"
      using True unfolding server_complete_def
      by (simp add: server_fields_def vht int_getters_def float_getters_def int_fields_def
        float_fields_def is_ok_projr)
    ultimately show ?thesis using True dn by auto
  qed
qed

text \<open>
  C27. \<open>ServerFromSections\<close> accepts an output with META and SERVER sections exactly when
  version and hostname are non-empty, the timestamp and the fifteen counters are 64-bit
  integers, the total memory is positive, the four gauges are floats and all disk and interface
  counters are complete; the metrics it returns then hold, field by field, the value of that
  field's own key, and the disks and interfaces read from the same section. Any other
  output is an error.
\<close>

theorem server_from_sections_exact:
  assumes "output_section out ''META'' = Some meta" "output_section out ''SERVER'' = Some server"
    and "valid_orders mo"
  shows "if server_complete fo meta server
    then \<exists>m. server_from_sections fo mo out = Inr m \<and> server_fields fo meta server m \<and>
      read_disks mo server = Inr (sm_Disks m) \<and> read_net mo server = Inr (sm_Net m)
    else \<not> is_ok (server_from_sections fo mo out)"
  by (rule server_from_sections_eq [OF assms])

definition meta_example :: kv_section where
  "meta_example = \<lparr>sec_Name = ''META'', sec_KVs =
     [(''version'', ''2''), (''hostname'', ''web1''), (''timestamp'', ''1777'')]\<rparr>"

definition server_example :: kv_section where
  "server_example = \<lparr>sec_Name = ''SERVER'', sec_KVs =
     map (\<lambda>(k, g). (k, ''7'')) (int_getters :: (string \<times> (unit server_metrics \<Rightarrow> int)) list) @
     map (\<lambda>(k, g). (k, ''1'')) (float_getters :: (string \<times> (unit server_metrics \<Rightarrow> unit)) list)\<rparr>"

lemma parse_seven: "parse_int64 ''7'' = Inr 7" "parse_int64 ''1'' = Inr 1"
    "parse_int64 ''1777'' = Inr 1777"
  by (simp_all add: parse_int64_def parse_uint_def digit_val_def Let_def)

lemma server_example_complete: "server_complete int_floats meta_example server_example"
proof -
  have "pair_samples pn (sec_KVs server_example) = []" for pn
    by (simp add: server_example_def int_getters_def float_getters_def pair_sample_def
      split_labeled_key_def)
  then show ?thesis
    by (simp add: server_complete_def pairs_complete_def)
      (simp add: meta_example_def server_example_def int_getters_def float_getters_def
        require_string_def require_int64_def require_float64_def parse_seven int_floats_def)
qed

theorem server_from_sections_exact_witness:
  "is_ok (server_from_sections int_floats source_orders [meta_example, server_example])"
proof -
  have "output_section [meta_example, server_example] ''META'' = Some meta_example"
    "output_section [meta_example, server_example] ''SERVER'' = Some server_example"
    by (simp_all add: output_section_def meta_example_def server_example_def)
  from server_from_sections_exact [OF this, of source_orders int_floats]
  show ?thesis
    using server_example_complete by (auto simp: valid_orders_def source_orders_def)
qed


section \<open>Bench and site names\<close>

definition bench_section :: "string \<Rightarrow> string" where
  "bench_section bench = bench_section_prefix @ bench"

definition site_section :: "string \<Rightarrow> string \<Rightarrow> string" where
  "site_section bench site = site_section_prefix @ bench @ '':'' @ site"

lemma site_names_iff:
  "(bench, site) \<in> set (site_names_for out) \<longleftrightarrow>
     CHR '':'' \<notin> set bench \<and> (\<exists>s \<in> set out. sec_Name s = site_section bench site)"
proof (induction out)
  case Nil
  then show ?case by simp
next
  case (Cons s out)
  show ?case
  proof (cases "has_prefix site_section_prefix (sec_Name s)")
    case False
    then have "sec_Name s \<noteq> site_section bench site" by (auto simp: site_section_def)
    with False Cons show ?thesis by simp
  next
    case True
    then obtain r where r: "sec_Name s = site_section_prefix @ r" by (auto simp: has_prefix_iff)
    show ?thesis
    proof (cases "index_byte (CHR '':'') r")
      case None
      then have "sec_Name s \<noteq> site_section bench site"
        by (auto simp: r site_section_def index_byte_None)
      with True r None Cons show ?thesis by simp
    next
      case (Some i)
      from index_byte_SomeD [OF Some]
      have split: "r = take i r @ CHR '':'' # drop (Suc i) r" "CHR '':'' \<notin> set (take i r)"
        by (auto simp: id_take_nth_drop)
      have "sec_Name s = site_section bench site \<and> CHR '':'' \<notin> set bench \<longleftrightarrow>
          bench = take i r \<and> site = drop (Suc i) r"
      proof
        assume a: "sec_Name s = site_section bench site \<and> CHR '':'' \<notin> set bench"
        then have rr: "r = bench @ CHR '':'' # site" by (simp add: r site_section_def)
        with a have "index_byte (CHR '':'') r = Some (length bench)" by (simp add: index_byte_append)
        with Some rr show "bench = take i r \<and> site = drop (Suc i) r" by simp
      next
        assume "bench = take i r \<and> site = drop (Suc i) r"
        with split show "sec_Name s = site_section bench site \<and> CHR '':'' \<notin> set bench"
          by (simp add: r site_section_def)
      qed
      with True r Some Cons show ?thesis by auto
    qed
  qed
qed

lemma bench_names_iff:
  "bench \<in> set (bench_names out) \<longleftrightarrow> (\<exists>s \<in> set out. sec_Name s = bench_section bench)"
  by (force simp: bench_names_def bench_section_def has_prefix_iff)

text \<open>
  After a successful tokenization, every section is the one its name looks up, and
  the names the output lists are those of its sections: a bench or a bench and
  site listed by \<open>BenchNames\<close> and \<open>SiteNamesFor\<close> is found by the converter it is passed to,
  so neither converter can fail with a missing section.
\<close>

lemma listed_names_found:
  assumes "tokenize input = Inr out"
  shows "distinct (map sec_Name out) \<and>
    (\<forall>bench \<in> set (bench_names out). is_ok (section_or_error out (bench_section bench))) \<and>
    (\<forall>(bench, site) \<in> set (site_names_for out). is_ok (section_or_error out (site_section bench site)))"
proof -
  have p: "parsed_ok out" by (rule tokenize_parsed [OF assms])
  have found: "\<exists>s \<in> set out. sec_Name s = n \<Longrightarrow> is_ok (section_or_error out n)" for n
    using output_section_unique [OF p] by (auto simp: section_or_error_def)
  show ?thesis
    using p found by (auto simp: parsed_ok_def bench_names_iff site_names_iff)
qed

lemma listed_names_found_witness:
  "(''b1'', ''s1.example'') \<in> set (site_names_for sample_output) \<and>
   is_ok (section_or_error sample_output (site_section ''b1'' ''s1.example''))"
proof -
  have "(''b1'', ''s1.example'') \<in> set (site_names_for sample_output)"
    unfolding site_names_iff by (simp add: sample_output_def site_section_def site_section_prefix_def)
  moreover have "tokenize (render_output sample_output) = Inr sample_output"
    by (rule tokenize_rendered [OF sample_output_ok])
  ultimately show ?thesis
    using listed_names_found by blast
qed

end
