(* ===== verification/Ssh.thy ===== *)
theory Ssh
  imports Go_Prelude "HOL-Library.Multiset"
begin

text \<open>
  internal/ssh: the executor interface, the connection pool that implements it over
  golang.org/x/crypto/ssh, and the in-memory executor of the tests. The library calls the pool
  makes (reading and parsing a key, dialling, opening a session, running a command) are the
  fields of \<open>ssh_env\<close>, each indexed by the number of library calls made so far, so that two calls
  may answer differently. A connection is the number it got when it was dialled; the pool keeps
  the log of the connections it closed and the count of its open sessions, so that leaks can be
  stated. The executor interface is the locale \<open>executor\<close>, with \<open>Ping\<close> proved in it and
  interpretations for the pool and for the test executor.
\<close>

section \<open>Targets\<close>

record target =
  tg_Host :: string
  tg_Port :: int
  tg_User :: string
  tg_KeyPath :: string

definition addr :: "target \<Rightarrow> string" where
  "addr t = tg_Host t @ '':'' @ format_int (if tg_Port t = 0 then 22 else tg_Port t)"

definition pool_key :: "target \<Rightarrow> string" where
  "pool_key t = addr t @ ''|'' @ tg_User t @ ''|'' @ tg_KeyPath t"

section \<open>Connection pool\<close>

record pool_config =
  pc_DialTimeout :: duration
  pc_CommandTimeout :: duration

record pool =
  pl_cfg :: pool_config
  pl_conn :: "(string \<times> nat) list"
  pl_next :: nat
  pl_closed :: "nat list"
  pl_calls :: nat
  pl_sessions :: int

text \<open>How a command ends: it returns, the caller's context ends first, or the timeout does.\<close>

datatype run_outcome =
    Returned string "go_error option"
  | Cancelled string go_error
  | Timed_out string

record ssh_env =
  read_file :: "nat \<Rightarrow> string \<Rightarrow> string result"
  parse_private_key :: "string \<Rightarrow> string result"
  ssh_dial :: "nat \<Rightarrow> string \<Rightarrow> string \<Rightarrow> string \<Rightarrow> duration \<Rightarrow> unit result"
  new_session :: "nat \<Rightarrow> nat \<Rightarrow> unit result"
  session_run :: "nat \<Rightarrow> nat \<Rightarrow> string \<Rightarrow> string option \<Rightarrow> duration \<Rightarrow> run_outcome"
  stdout_pipe :: "nat \<Rightarrow> nat \<Rightarrow> unit result"
  session_start :: "nat \<Rightarrow> nat \<Rightarrow> string \<Rightarrow> unit result"

definition new_pool :: "pool_config \<Rightarrow> pool" where
  "new_pool cfg =
     (let c1 = (if pc_DialTimeout cfg = 0 then cfg\<lparr>pc_DialTimeout := 10 * second\<rparr> else cfg);
          c2 = (if pc_CommandTimeout c1 = 0 then c1\<lparr>pc_CommandTimeout := 30 * second\<rparr> else c1)
      in \<lparr>pl_cfg = c2, pl_conn = [], pl_next = 0, pl_closed = [], pl_calls = 0, pl_sessions = 0\<rparr>)"

definition pool_close :: "pool \<Rightarrow> pool" where
  "pool_close p = p\<lparr>pl_conn := [], pl_closed := map snd (pl_conn p) @ pl_closed p\<rparr>"

definition count_call :: "pool \<Rightarrow> pool" where
  "count_call p = p\<lparr>pl_calls := Suc (pl_calls p)\<rparr>"

definition load_key :: "ssh_env \<Rightarrow> nat \<Rightarrow> string \<Rightarrow> string result" where
  "load_key env n path =
     (case read_file env n path of
        Inl e \<Rightarrow> Inl (wrap_error (''read key '' @ go_quote path @ '': '') e)
      | Inr raw \<Rightarrow>
          (case parse_private_key env raw of
             Inl e \<Rightarrow> Inl (wrap_error (''parse key '' @ go_quote path @ '': '') e)
           | Inr signer \<Rightarrow> Inr signer))"

text \<open>The wrapped library error is printed with \<open>%v\<close>: only the sentinel is in the chain.\<close>

definition classify_dial_error :: "string \<Rightarrow> go_error \<Rightarrow> go_error" where
  "classify_dial_error ad err =
     (let s = err_msg err in
      if contains s ''unable to authenticate'' \<or> contains s ''no supported methods remain'' \<or>
         contains s ''permission denied''
      then \<lparr>err_chain = [ErrAuth],
             err_msg = ''ssh dial '' @ ad @ '': ssh: authentication failed: '' @ s\<rparr>
      else \<lparr>err_chain = [ErrDial], err_msg = ''ssh dial '' @ ad @ '': ssh: dial failed: '' @ s\<rparr>)"

text \<open>The part of \<open>getOrDial\<close> between its two critical sections: read the key and dial.\<close>

definition dial_target :: "ssh_env \<Rightarrow> target \<Rightarrow> pool \<Rightarrow> nat result \<times> pool" where
  "dial_target env tgt p =
     (case load_key env (pl_calls p) (tg_KeyPath tgt) of
        Inl e \<Rightarrow> (Inl e, count_call p)
      | Inr auth \<Rightarrow>
          (case ssh_dial env (pl_calls p) (addr tgt) (tg_User tgt) auth (pc_DialTimeout (pl_cfg p)) of
             Inl e \<Rightarrow> (Inl (classify_dial_error (addr tgt) e), count_call p)
           | Inr _ \<Rightarrow> (Inr (pl_next p), (count_call p)\<lparr>pl_next := Suc (pl_next p)\<rparr>)))"

text \<open>The second critical section: a connection stored meanwhile wins and the new one is
  closed.\<close>

definition store_client :: "string \<Rightarrow> nat \<Rightarrow> pool \<Rightarrow> nat \<times> pool" where
  "store_client k c p =
     (case map_of (pl_conn p) k of
        Some existing \<Rightarrow> (existing, p\<lparr>pl_closed := c # pl_closed p\<rparr>)
      | None \<Rightarrow> (c, p\<lparr>pl_conn := map_put (pl_conn p) k c\<rparr>))"

definition get_or_dial :: "ssh_env \<Rightarrow> target \<Rightarrow> pool \<Rightarrow> nat result \<times> pool" where
  "get_or_dial env tgt p =
     (case map_of (pl_conn p) (pool_key tgt) of
        Some c \<Rightarrow> (Inr c, p)
      | None \<Rightarrow>
          (case dial_target env tgt p of
             (Inl e, p1) \<Rightarrow> (Inl e, p1)
           | (Inr c, p1) \<Rightarrow> (let (c', p2) = store_client (pool_key tgt) c p1 in (Inr c', p2))))"

definition drop_key :: "string \<Rightarrow> pool \<Rightarrow> pool" where
  "drop_key k p =
     (case map_of (pl_conn p) k of
        Some c \<Rightarrow> p\<lparr>pl_conn := filter (\<lambda>kc. fst kc \<noteq> k) (pl_conn p), pl_closed := c # pl_closed p\<rparr>
      | None \<Rightarrow> p)"

definition drop_client :: "target \<Rightarrow> pool \<Rightarrow> pool" where
  "drop_client tgt p = drop_key (pool_key tgt) p"

definition try_session :: "ssh_env \<Rightarrow> nat \<Rightarrow> pool \<Rightarrow> unit result \<times> pool" where
  "try_session env c p =
     (case new_session env (pl_calls p) c of
        Inl e \<Rightarrow> (Inl e, count_call p)
      | Inr _ \<Rightarrow> (Inr (), (count_call p)\<lparr>pl_sessions := pl_sessions p + 1\<rparr>))"

definition close_session :: "pool \<Rightarrow> pool" where
  "close_session p = p\<lparr>pl_sessions := pl_sessions p - 1\<rparr>"

text \<open>The head that \<open>RunWithInput\<close> and \<open>Stream\<close> share: a session, after one retry on a fresh
  connection when the cached one is stale.\<close>

definition open_session :: "ssh_env \<Rightarrow> target \<Rightarrow> pool \<Rightarrow> nat result \<times> pool" where
  "open_session env tgt p =
     (case get_or_dial env tgt p of
        (Inl e, p1) \<Rightarrow> (Inl e, p1)
      | (Inr c, p1) \<Rightarrow>
          (case try_session env c p1 of
             (Inr _, p2) \<Rightarrow> (Inr c, p2)
           | (Inl _, p2) \<Rightarrow>
               (case get_or_dial env tgt (drop_client tgt p2) of
                  (Inl e, p3) \<Rightarrow> (Inl e, p3)
                | (Inr c', p3) \<Rightarrow>
                    (case try_session env c' p3 of
                       (Inr _, p4) \<Rightarrow> (Inr c', p4)
                     | (Inl e, p4) \<Rightarrow>
                         (Inl (wrap_error (''ssh new session '' @ addr tgt @ '': '') e), p4)))))"

definition run_with_input ::
  "ssh_env \<Rightarrow> pool \<Rightarrow> target \<Rightarrow> string \<Rightarrow> string \<Rightarrow> (string \<times> go_error option) \<times> pool" where
  "run_with_input env p tgt cmd stdin =
     (case open_session env tgt p of
        (Inl e, p1) \<Rightarrow> (([], Some e), p1)
      | (Inr c, p1) \<Rightarrow>
          let inp = (if stdin \<noteq> [] then Some stdin else None);
              timeout = pc_CommandTimeout (pl_cfg p1);
              pre = ''ssh run '' @ go_quote cmd @ '' on '' @ addr tgt @ '': '';
              res = (case session_run env (pl_calls p1) c cmd inp timeout of
                  Returned out None \<Rightarrow> (out, None)
                | Returned out (Some e) \<Rightarrow>
                    (out, Some (e\<lparr>err_msg := pre @ err_msg e @ '': '' @ out\<rparr>))
                | Cancelled out e \<Rightarrow> (out, Some (wrap_error pre e))
                | Timed_out out \<Rightarrow>
                    (out, Some \<lparr>err_chain = [ErrTimeout], err_msg =
                       pre @ ''ssh: command timeout after '' @ duration_string timeout\<rparr>))
          in (res, close_session (count_call p1)))"

definition pool_run ::
  "ssh_env \<Rightarrow> pool \<Rightarrow> target \<Rightarrow> string \<Rightarrow> (string \<times> go_error option) \<times> pool" where
  "pool_run env p tgt cmd = run_with_input env p tgt cmd []"

subsection \<open>Streams\<close>

record pool_stream =
  ps_client :: nat
  ps_addr :: string
  ps_closed :: bool
  ps_sigterms :: nat
  ps_closeErr :: "go_error option"

definition pool_stream_open ::
  "ssh_env \<Rightarrow> pool \<Rightarrow> target \<Rightarrow> string \<Rightarrow> pool_stream result \<times> pool" where
  "pool_stream_open env p tgt cmd =
     (case open_session env tgt p of
        (Inl e, p1) \<Rightarrow> (Inl e, p1)
      | (Inr c, p1) \<Rightarrow>
          (case stdout_pipe env (pl_calls p1) c of
             Inl e \<Rightarrow> (Inl (wrap_error (''ssh stdout pipe '' @ addr tgt @ '': '') e),
                         close_session (count_call p1))
           | Inr _ \<Rightarrow>
               (case session_start env (pl_calls p1) c cmd of
                  Inl e \<Rightarrow>
                    (Inl (wrap_error (''ssh start '' @ go_quote cmd @ '' on '' @ addr tgt @ '': '') e),
                     close_session (count_call p1))
                | Inr _ \<Rightarrow>
                    (Inr \<lparr>ps_client = c, ps_addr = addr tgt, ps_closed = False, ps_sigterms = 0,
                           ps_closeErr = None\<rparr>, count_call p1))))"

text \<open>\<open>Close\<close> under its \<open>sync.Once\<close>; the argument is the result of closing the session. A
  cancelled context closes the handle in the same way (\<open>watchCtx\<close>).\<close>

definition stream_close ::
  "go_error option \<Rightarrow> pool_stream \<times> pool \<Rightarrow> go_error option \<times> pool_stream \<times> pool" where
  "stream_close close_err sp =
     (let (s, p) = sp in
      if ps_closed s then (ps_closeErr s, s, p)
      else (close_err,
            s\<lparr>ps_sigterms := Suc (ps_sigterms s), ps_closeErr := close_err, ps_closed := True\<rparr>,
            close_session p))"

definition watch_ctx ::
  "bool \<Rightarrow> go_error option \<Rightarrow> pool_stream \<times> pool \<Rightarrow> pool_stream \<times> pool" where
  "watch_ctx ctx_done close_err sp =
     (if ctx_done \<and> \<not> ps_closed (fst sp) then snd (stream_close close_err sp) else sp)"

section \<open>The executor interface\<close>

text \<open>\<open>Executor\<close>: what \<open>Run\<close> promises over \<open>RunWithInput\<close>, and \<open>Ping\<close> on top of it. The state
  \<open>'s\<close> is whatever the implementation keeps.\<close>

locale executor =
  fixes run :: "'s \<Rightarrow> target \<Rightarrow> string \<Rightarrow> (string \<times> go_error option) \<times> 's"
    and run_input :: "'s \<Rightarrow> target \<Rightarrow> string \<Rightarrow> string \<Rightarrow> (string \<times> go_error option) \<times> 's"
  assumes run_is_no_input: "run s tgt cmd = run_input s tgt cmd []"

definition ping ::
  "('s \<Rightarrow> target \<Rightarrow> string \<Rightarrow> (string \<times> go_error option) \<times> 's) \<Rightarrow> time \<Rightarrow> time \<Rightarrow> 's \<Rightarrow> target \<Rightarrow>
     duration result \<times> 's" where
  "ping run start now s tgt =
     (case run s tgt ''echo ok'' of
        ((_, Some e), s1) \<Rightarrow> (Inl (wrap_error (''ssh ping '' @ addr tgt @ '': '') e), s1)
      | ((_, None), s1) \<Rightarrow> (Inr (time_sub now start), s1))"

context executor
begin

lemma ping_ok_iff:
  "is_ok (fst (ping run start now s tgt)) \<longleftrightarrow> snd (fst (run_input s tgt ''echo ok'' [])) = None"
  by (simp add: ping_def run_is_no_input split: prod.split option.split)

lemma ping_error_kind:
  "fst (ping run start now s tgt) = Inl e \<Longrightarrow>
     \<exists>e'. snd (fst (run_input s tgt ''echo ok'' [])) = Some e' \<and> errors_is e = errors_is e'"
  by (auto simp: ping_def run_is_no_input fun_eq_iff split: prod.splits option.splits)

end

interpretation pool: executor "pool_run env" "run_with_input env"
  by unfold_locales (simp add: pool_run_def)

section \<open>Pool keys\<close>

text \<open>Two targets share a cached connection only when they name the same endpoint.\<close>

definition effective_port :: "target \<Rightarrow> int" where
  "effective_port t = (if tg_Port t = 0 then 22 else tg_Port t)"

lemma takeWhile_sep: "c \<notin> set xs \<Longrightarrow> takeWhile (\<lambda>x. x \<noteq> c) (xs @ c # ys) = xs"
  by (induction xs) auto

lemma prefix_sep_inj:
  assumes "c \<notin> set a" "c \<notin> set a'"
  shows "a @ c # b = a' @ c # b' \<longleftrightarrow> a = a' \<and> b = b'"
  using takeWhile_sep [OF assms(1), of b] takeWhile_sep [OF assms(2), of b'] by auto

lemma append_sep_inj:
  assumes "c \<notin> set b" "c \<notin> set b'"
  shows "a @ c # b = a' @ c # b' \<longleftrightarrow> a = a' \<and> b = b'"
proof -
  have "a @ c # b = a' @ c # b' \<longleftrightarrow> rev b @ c # rev a = rev b' @ c # rev a'"
    by (metis append.assoc append_Cons append_Nil rev.simps(2) rev_append rev_rev_ident)
  with prefix_sep_inj [of c "rev b" "rev b'" "rev a" "rev a'"] assms show ?thesis by auto
qed

lemma addr_inj:
  assumes "is_int64 (tg_Port t)" "is_int64 (tg_Port u)"
  shows "addr t = addr u \<longleftrightarrow> tg_Host t = tg_Host u \<and> effective_port t = effective_port u"
proof -
  have "CHR '':'' \<notin> set (format_int i)" for i by (simp add: not_in_format_int)
  moreover have "is_int64 (effective_port t)" "is_int64 (effective_port u)"
    using assms by (auto simp: effective_port_def is_int64_def)
  ultimately show ?thesis
    by (simp add: addr_def append_sep_inj format_int_inj flip: effective_port_def)
qed

text \<open>
  Pool keys identify endpoints: when no host and no user contains the separator \<open>|\<close>, two
  targets have the same key exactly when host, effective port (0 meaning 22), user and key path
  agree, so a command is never sent over a connection made for another server or with
  another identity.
\<close>

lemma pool_key_identifies:
  assumes "is_int64 (tg_Port t)" "is_int64 (tg_Port u)"
    and "CHR ''|'' \<notin> set (tg_Host t @ tg_User t)" "CHR ''|'' \<notin> set (tg_Host u @ tg_User u)"
  shows "pool_key t = pool_key u \<longleftrightarrow>
     tg_Host t = tg_Host u \<and> effective_port t = effective_port u \<and>
     tg_User t = tg_User u \<and> tg_KeyPath t = tg_KeyPath u"
proof -
  have "CHR ''|'' \<notin> set (format_int i)" for i by (simp add: not_in_format_int)
  then have "CHR ''|'' \<notin> set (addr t)" "CHR ''|'' \<notin> set (addr u)"
    using assms(3,4) by (simp_all add: addr_def)
  with assms show ?thesis
    by (simp add: pool_key_def prefix_sep_inj addr_inj)
qed

lemma pool_key_identifies_witness:
  "pool_key \<lparr>tg_Host = ''h'', tg_Port = 0, tg_User = ''u'', tg_KeyPath = ''k''\<rparr> =
     pool_key \<lparr>tg_Host = ''h'', tg_Port = 22, tg_User = ''u'', tg_KeyPath = ''k''\<rparr> \<and>
   pool_key \<lparr>tg_Host = ''h'', tg_Port = 0, tg_User = ''u'', tg_KeyPath = ''k''\<rparr> \<noteq>
     pool_key \<lparr>tg_Host = ''h'', tg_Port = 2, tg_User = ''u'', tg_KeyPath = ''k''\<rparr>"
  using pool_key_identifies
    [of "\<lparr>tg_Host = ''h'', tg_Port = 0, tg_User = ''u'', tg_KeyPath = ''k''\<rparr>"
        "\<lparr>tg_Host = ''h'', tg_Port = 22, tg_User = ''u'', tg_KeyPath = ''k''\<rparr>"]
    pool_key_identifies
    [of "\<lparr>tg_Host = ''h'', tg_Port = 0, tg_User = ''u'', tg_KeyPath = ''k''\<rparr>"
        "\<lparr>tg_Host = ''h'', tg_Port = 2, tg_User = ''u'', tg_KeyPath = ''k''\<rparr>"]
  by (simp add: is_int64_def effective_port_def)


section \<open>Connections are cached and not leaked\<close>

lemma get_or_dial_cached:
  "map_of (pl_conn p) (pool_key tgt) = Some c \<Longrightarrow> get_or_dial env tgt p = (Inr c, p)"
  by (simp add: get_or_dial_def)

lemma dial_target_conn:
  "dial_target env tgt p = (r, p') \<Longrightarrow> pl_conn p' = pl_conn p \<and> pl_closed p' = pl_closed p \<and>
     pl_sessions p' = pl_sessions p \<and> pl_cfg p' = pl_cfg p"
  by (auto simp: dial_target_def count_call_def split: sum.splits)

lemma get_or_dial_cases:
  "get_or_dial env tgt p = (r, p') \<Longrightarrow> pl_sessions p' = pl_sessions p \<and> pl_cfg p' = pl_cfg p \<and>
     (\<forall>c. r = Inr c \<longrightarrow> map_of (pl_conn p') (pool_key tgt) = Some c)"
  by (auto simp: get_or_dial_def store_client_def Let_def
      split: option.splits prod.splits sum.splits dest: dial_target_conn)

lemma drop_client_sessions [simp]:
  "pl_sessions (drop_client tgt p) = pl_sessions p" "pl_cfg (drop_client tgt p) = pl_cfg p"
  by (simp_all add: drop_client_def drop_key_def split: option.split)

lemma try_session_cases:
  "try_session env c p = (r, p') \<Longrightarrow>
     pl_conn p' = pl_conn p \<and> pl_cfg p' = pl_cfg p \<and>
     pl_sessions p' = pl_sessions p + (if is_ok r then 1 else 0)"
  by (auto simp: try_session_def count_call_def is_ok_def split: sum.splits)

lemma open_session_cases:
  assumes "open_session env tgt p = (r, p')"
  shows "pl_sessions p' = pl_sessions p + (if is_ok r then 1 else 0)" (is ?s)
    and "pl_cfg p' = pl_cfg p" (is ?c)
    and "r = Inr c \<Longrightarrow> map_of (pl_conn p') (pool_key tgt) = Some c"
proof -
  show ?s ?c "r = Inr c \<Longrightarrow> map_of (pl_conn p') (pool_key tgt) = Some c"
    using assms
    by (auto simp: open_session_def split: prod.splits sum.splits
        dest!: get_or_dial_cases try_session_cases)
qed

text \<open>
  A command closes the session it opened, whatever its outcome, and after a command that
  reached the host the connection used is the one cached for its target: the next command
  to that target neither reads the key nor dials.
\<close>

lemma run_reuses_connection:
  assumes "run_with_input env p tgt cmd stdin = ((out, err), p')"
  shows "pl_sessions p' = pl_sessions p \<and> pl_cfg p' = pl_cfg p \<and>
    (err = None \<longrightarrow> (\<exists>c. \<forall>env'. get_or_dial env' tgt p' = (Inr c, p')))"
proof (cases "open_session env tgt p")
  case (Pair r p1)
  note o = open_session_cases [OF Pair]
  show ?thesis
  proof (cases r)
    case (Inl e)
    with assms Pair o show ?thesis by (auto simp: run_with_input_def)
  next
    case (Inr c)
    have p': "p' = close_session (count_call p1)"
      using assms Pair Inr by (simp add: run_with_input_def Let_def)
    with o Inr have "map_of (pl_conn p') (pool_key tgt) = Some c"
      by (simp add: close_session_def count_call_def)
    with o Inr p' show ?thesis
      by (auto simp: close_session_def count_call_def get_or_dial_cached)
  qed
qed

definition good_env :: ssh_env where
  "good_env = \<lparr>read_file = (\<lambda>n p. Inr p), parse_private_key = Inr,
     ssh_dial = (\<lambda>n a u k d. Inr ()), new_session = (\<lambda>n c. Inr ()),
     session_run = (\<lambda>n c cmd inp d. Returned ''ok'' None),
     stdout_pipe = (\<lambda>n c. Inr ()), session_start = (\<lambda>n c cmd. Inr ())\<rparr>"

definition pool_example :: pool where
  "pool_example = new_pool \<lparr>pc_DialTimeout = 0, pc_CommandTimeout = 0\<rparr>"

definition target_example :: target where
  "target_example = \<lparr>tg_Host = ''h'', tg_Port = 0, tg_User = ''u'', tg_KeyPath = ''k''\<rparr>"

lemma run_example:
  "\<exists>p'. run_with_input good_env pool_example target_example ''uptime'' [] = ((''ok'', None), p')"
  by (simp add: run_with_input_def open_session_def get_or_dial_def pool_example_def new_pool_def
      dial_target_def load_key_def good_env_def store_client_def count_call_def try_session_def Let_def)

lemma run_reuses_connection_witness:
  "\<exists>p' c. run_with_input good_env pool_example target_example ''uptime'' [] = ((''ok'', None), p') \<and>
     get_or_dial good_env target_example p' = (Inr c, p')"
  using run_example run_reuses_connection by (metis (no_types))


subsection \<open>Concurrent callers\<close>

text \<open>Several goroutines use one pool. Each connection dialled outside the lock is in
  flight, with its key, until its goroutine enters the second critical section.\<close>

type_synonym pool_state = "pool \<times> (string \<times> nat) list"

inductive pool_step :: "ssh_env \<Rightarrow> pool_state \<Rightarrow> pool_state \<Rightarrow> bool" for env where
  dial_fails: "dial_target env tgt p = (Inl e, p') \<Longrightarrow> pool_step env (p, fl) (p', fl)"
| dial_opens: "dial_target env tgt p = (Inr c, p') \<Longrightarrow>
     pool_step env (p, fl) (p', (pool_key tgt, c) # fl)"
| store: "(k, c) \<in> set fl \<Longrightarrow> store_client k c p = (c', p') \<Longrightarrow>
     pool_step env (p, fl) (p', remove1 (k, c) fl)"
| drop: "pool_step env (p, fl) (drop_client tgt p, fl)"
| shutdown: "pool_step env (p, fl) (pool_close p, fl)"

inductive_cases pool_stepE: "pool_step env st st'"

text \<open>Every connection number below the next one is accounted for exactly once.\<close>

definition all_conns :: "pool_state \<Rightarrow> nat list" where
  "all_conns st = map snd (pl_conn (fst st)) @ map snd (snd st) @ pl_closed (fst st)"

definition pool_inv :: "pool_state \<Rightarrow> bool" where
  "pool_inv st \<longleftrightarrow> is_map (pl_conn (fst st)) \<and> mset (all_conns st) = mset [0..<pl_next (fst st)]"

lemma pool_inv_init: "pool_inv (new_pool cfg, [])"
  by (simp add: pool_inv_def all_conns_def new_pool_def Let_def)

lemma store_client_inv:
  assumes "pool_inv (p, fl)" "(k, c) \<in> set fl" "store_client k c p = (c', p')"
  shows "pool_inv (p', remove1 (k, c) fl)"
proof -
  have "mset fl = add_mset (k, c) (mset (remove1 (k, c) fl))" using assms(2) by simp
  from arg_cong [OF this, of "image_mset snd"]
  have fl: "image_mset snd (mset fl) = add_mset c (image_mset snd (mset (remove1 (k, c) fl)))" by simp
  show ?thesis
  proof (cases "map_of (pl_conn p) k")
    case None
    then have "map_put (pl_conn p) k c = pl_conn p @ [(k, c)]"
      by (simp add: map_put_new map_of_eq_None_iff)
    with None assms(3) have p': "p' = p\<lparr>pl_conn := pl_conn p @ [(k, c)]\<rparr>"
      by (auto simp: store_client_def)
    have "k \<notin> fst ` set (pl_conn p)" using None by (simp add: map_of_eq_None_iff)
    with assms(1) fl show ?thesis
      by (auto simp: p' pool_inv_def all_conns_def is_map_def simp del: mset_remove1)
  next
    case (Some e)
    with assms(1,3) fl show ?thesis
      by (auto simp: store_client_def pool_inv_def all_conns_def simp del: mset_remove1)
  qed
qed

lemma drop_key_mset:
  assumes "is_map m" "map_of m k = Some c"
  shows "mset m = add_mset (k, c) (mset (filter (\<lambda>kc. fst kc \<noteq> k) m))"
  using assms
proof (induction m)
  case Nil
  then show ?case by simp
next
  case (Cons kv m)
  show ?case
  proof (cases "fst kv = k")
    case True
    with Cons.prems have "k \<notin> fst ` set m" by (auto simp: is_map_def)
    then have "filter (\<lambda>kc. fst kc \<noteq> k) m = m" by (induction m) auto
    with True Cons.prems show ?thesis by (cases kv) auto
  next
    case False
    with Cons show ?thesis by (cases kv) (auto simp: is_map_def)
  qed
qed

lemma drop_client_inv:
  assumes "pool_inv (p, fl)"
  shows "pool_inv (drop_client tgt p, fl)"
proof (cases "map_of (pl_conn p) (pool_key tgt)")
  case None
  then show ?thesis using assms by (simp add: drop_client_def drop_key_def)
next
  case (Some c)
  have "is_map (pl_conn p)" using assms by (simp add: pool_inv_def)
  from arg_cong [OF drop_key_mset [OF this Some], of "image_mset snd"]
  have "image_mset snd (mset (pl_conn p)) =
      add_mset c (image_mset snd (mset (filter (\<lambda>kc. fst kc \<noteq> pool_key tgt) (pl_conn p))))"
    by simp
  moreover have "is_map (filter (\<lambda>kc. fst kc \<noteq> pool_key tgt) (pl_conn p))"
    using assms by (auto simp: pool_inv_def is_map_def distinct_map_filter)
  ultimately show ?thesis
    using assms Some by (simp add: drop_client_def drop_key_def pool_inv_def all_conns_def
        del: mset_filter)
qed

lemma pool_step_inv: "pool_step env st st' \<Longrightarrow> pool_inv st \<Longrightarrow> pool_inv st'"
proof (induction rule: pool_step.induct)
  case (dial_fails tgt p e p' fl)
  then show ?case
    by (auto simp: dial_target_def pool_inv_def all_conns_def count_call_def split: sum.splits)
next
  case (dial_opens tgt p c p' fl)
  then show ?case
    by (auto simp: dial_target_def pool_inv_def all_conns_def count_call_def simp del: mset_upt
        split: sum.splits)
next
  case (store k c fl p c' p')
  then show ?case by (intro store_client_inv)
next
  case (drop p fl tgt)
  then show ?case by (rule drop_client_inv)
next
  case (shutdown p fl)
  then show ?case by (simp add: pool_close_def pool_inv_def all_conns_def union_ac)
qed

text \<open>
  C24. However the calls of several goroutines on one pool interleave, no connection is leaked
  and none is closed twice: each one ever opened is in exactly one of the pool (at most one per
  endpoint), the dials still in flight, and the log of closed connections; and once the
  pool is closed with no dial in flight, every one of them has been closed exactly once.
\<close>

theorem pool_no_leak:
  assumes "(pool_step env)\<^sup>*\<^sup>* (new_pool cfg, []) (p, fl)"
  shows "distinct (map fst (pl_conn p)) \<and> distinct (all_conns (p, fl)) \<and>
    set (all_conns (p, fl)) = {0..<pl_next p} \<and>
    (fl = [] \<longrightarrow> mset (pl_closed (pool_close p)) = mset [0..<pl_next p])"
proof -
  have inv: "pool_inv (p, fl)"
    using assms by (induction rule: rtranclp_induct) (auto intro: pool_inv_init pool_step_inv)
  then have m: "mset (all_conns (p, fl)) = mset [0..<pl_next p]" by (simp add: pool_inv_def)
  have "distinct (all_conns (p, fl))"
    using m by (metis distinct_upt mset_eq_imp_distinct_iff)
  moreover have "set (all_conns (p, fl)) = {0..<pl_next p}"
    using m by (metis set_mset_mset set_upt)
  moreover have "fl = [] \<longrightarrow> mset (pl_closed (pool_close p)) = mset [0..<pl_next p]"
    using m by (auto simp: all_conns_def pool_close_def)
  ultimately show ?thesis using inv by (simp add: pool_inv_def is_map_def)
qed

theorem pool_no_leak_witness:
  "(let p = snd (dial_target good_env target_example pool_example)
    in distinct (all_conns (p, [(pool_key target_example, 0)])) \<and> pl_next p = 1)"
proof -
  have d: "dial_target good_env target_example pool_example =
      (Inr 0, (count_call pool_example)\<lparr>pl_next := 1\<rparr>)"
    by (simp add: dial_target_def load_key_def good_env_def pool_example_def new_pool_def)
  have "pool_step good_env (pool_example, [])
      ((count_call pool_example)\<lparr>pl_next := 1\<rparr>, [(pool_key target_example, 0)])"
    by (rule dial_opens [OF d])
  then have "(pool_step good_env)\<^sup>*\<^sup>* (new_pool \<lparr>pc_DialTimeout = 0, pc_CommandTimeout = 0\<rparr>, [])
      ((count_call pool_example)\<lparr>pl_next := 1\<rparr>, [(pool_key target_example, 0)])"
    by (simp add: pool_example_def)
  from pool_no_leak [OF this] show ?thesis by (simp add: d)
qed

end
