(* ===== verification/Ssh_Fake.thy ===== *)
theory Ssh_Fake
  imports Ssh
begin

text \<open>
  internal/ssh/fake.go: the in-memory executor the tests of the other packages run on. Its maps are
  association lists, its readers live in a heap (\<open>fe_readers\<close>, addressed by position) because
  a configured reader is shared by every handle opened on its host, and so do its handles. What
  an \<open>io.Reader\<close> does is a parameter (\<open>reader_ops\<close>). It is the second implementation of the
  \<open>executor\<close> interface.
\<close>

section \<open>State\<close>

record 'r reader_ops =
  string_reader :: "string \<Rightarrow> 'r"
  reader_read :: "nat \<Rightarrow> 'r \<Rightarrow> (string \<times> bool) \<times> 'r"
  reader_close :: "('r \<Rightarrow> go_error option \<times> 'r) option"

record fake_resp =
  fr_out :: string
  fr_err :: "go_error option"

record fake_call =
  fc_cmd :: string
  fc_stdin :: string

record fake_stream_resp =
  fs_reader :: "nat option"
  fs_err :: "go_error option"

record fake_handle =
  fh_r :: "nat option"
  fh_closed :: bool
  fh_closeErr :: "go_error option"

record 'r fake_executor =
  fe_resp :: "fake_resp go_map"
  fe_streamResp :: "fake_stream_resp go_map"
  fe_calls :: "nat go_map"
  fe_streamCalls :: "nat go_map"
  fe_lastIn :: "fake_call go_map"
  fe_lastStream :: "string go_map"
  fe_openStreams :: "fake_handle list"
  fe_readers :: "'r list"

definition new_fake_executor :: "'r fake_executor" where
  "new_fake_executor = \<lparr>fe_resp = [], fe_streamResp = [], fe_calls = [], fe_streamCalls = [],
     fe_lastIn = [], fe_lastStream = [], fe_openStreams = [], fe_readers = []\<rparr>"

section \<open>Operations\<close>

definition set_response :: "string \<Rightarrow> string \<Rightarrow> go_error option \<Rightarrow> 'r fake_executor \<Rightarrow> 'r fake_executor" where
  "set_response host out err f = f\<lparr>fe_resp := map_put (fe_resp f) host \<lparr>fr_out = out, fr_err = err\<rparr>\<rparr>"

definition set_stream_reader :: "string \<Rightarrow> 'r \<Rightarrow> 'r fake_executor \<Rightarrow> 'r fake_executor" where
  "set_stream_reader host r f =
     f\<lparr>fe_readers := fe_readers f @ [r],
       fe_streamResp := map_put (fe_streamResp f) host
         \<lparr>fs_reader = Some (length (fe_readers f)), fs_err = None\<rparr>\<rparr>"

definition set_stream_response ::
  "'r reader_ops \<Rightarrow> string \<Rightarrow> string \<Rightarrow> go_error option \<Rightarrow> 'r fake_executor \<Rightarrow> 'r fake_executor" where
  "set_stream_response ops host body err f =
     (case err of
        Some e \<Rightarrow> f\<lparr>fe_streamResp := map_put (fe_streamResp f) host \<lparr>fs_reader = None, fs_err = Some e\<rparr>\<rparr>
      | None \<Rightarrow> set_stream_reader host (string_reader ops body) f)"

text \<open>A missing key of a counter map reads as 0, of a string map as the empty string.\<close>

definition count_of :: "nat go_map \<Rightarrow> string \<Rightarrow> nat" where
  "count_of m host = (case map_of m host of None \<Rightarrow> 0 | Some n \<Rightarrow> n)"

definition call_count :: "'r fake_executor \<Rightarrow> string \<Rightarrow> nat" where
  "call_count f host = count_of (fe_calls f) host"

definition stream_call_count :: "'r fake_executor \<Rightarrow> string \<Rightarrow> nat" where
  "stream_call_count f host = count_of (fe_streamCalls f) host"

definition last_call :: "'r fake_executor \<Rightarrow> string \<Rightarrow> fake_call" where
  "last_call f host =
     (case map_of (fe_lastIn f) host of None \<Rightarrow> \<lparr>fc_cmd = [], fc_stdin = []\<rparr> | Some c \<Rightarrow> c)"

definition last_stdin :: "'r fake_executor \<Rightarrow> string \<Rightarrow> string" where
  "last_stdin f host = fc_stdin (last_call f host)"

definition last_cmd :: "'r fake_executor \<Rightarrow> string \<Rightarrow> string" where
  "last_cmd f host = fc_cmd (last_call f host)"

definition last_stream_cmd :: "'r fake_executor \<Rightarrow> string \<Rightarrow> string" where
  "last_stream_cmd f host = map_get (fe_lastStream f) host"

definition open_stream_count :: "'r fake_executor \<Rightarrow> nat" where
  "open_stream_count f = length (filter (\<lambda>h. \<not> fh_closed h) (fe_openStreams f))"

definition fake_run_with_input ::
  "'r fake_executor \<Rightarrow> target \<Rightarrow> string \<Rightarrow> string \<Rightarrow> (string \<times> go_error option) \<times> 'r fake_executor" where
  "fake_run_with_input f tgt cmd stdin =
     (let h = tg_Host tgt;
          f' = f\<lparr>fe_calls := map_put (fe_calls f) h (Suc (count_of (fe_calls f) h)),
                 fe_lastIn := map_put (fe_lastIn f) h \<lparr>fc_cmd = cmd, fc_stdin = stdin\<rparr>\<rparr>
      in case map_of (fe_resp f) h of
           None \<Rightarrow> (([], Some (new_error (''fake: no response configured for '' @ go_quote h))), f')
         | Some r \<Rightarrow> ((fr_out r, fr_err r), f'))"

definition fake_run ::
  "'r fake_executor \<Rightarrow> target \<Rightarrow> string \<Rightarrow> (string \<times> go_error option) \<times> 'r fake_executor" where
  "fake_run f tgt cmd = fake_run_with_input f tgt cmd []"

text \<open>The result is the position of the new handle.\<close>

definition fake_stream ::
  "'r fake_executor \<Rightarrow> target \<Rightarrow> string \<Rightarrow> nat result \<times> 'r fake_executor" where
  "fake_stream f tgt cmd =
     (let h = tg_Host tgt;
          f' = f\<lparr>fe_streamCalls := map_put (fe_streamCalls f) h (Suc (count_of (fe_streamCalls f) h)),
                 fe_lastStream := map_put (fe_lastStream f) h cmd\<rparr>
      in case map_of (fe_streamResp f) h of
           None \<Rightarrow> (Inl (new_error (''fake: no stream response configured for '' @ go_quote h)), f')
         | Some r \<Rightarrow>
             (case fs_err r of
                Some e \<Rightarrow> (Inl e, f')
              | None \<Rightarrow>
                  (Inr (length (fe_openStreams f)),
                   f'\<lparr>fe_openStreams := fe_openStreams f @
                        [\<lparr>fh_r = fs_reader r, fh_closed = False, fh_closeErr = None\<rparr>]\<rparr>)))"

text \<open>\<open>Read\<close>: the bytes and whether it returned \<open>io.EOF\<close>.\<close>

definition fake_read ::
  "'r reader_ops \<Rightarrow> nat \<Rightarrow> nat \<Rightarrow> 'r fake_executor \<Rightarrow> (string \<times> bool) \<times> 'r fake_executor" where
  "fake_read ops n i f =
     (let h = fe_openStreams f ! i in
      case fh_r h of
        None \<Rightarrow> (([], True), f)
      | Some a \<Rightarrow>
          if fh_closed h then (([], True), f)
          else (case reader_read ops n (fe_readers f ! a) of
                  (res, r') \<Rightarrow> (res, f\<lparr>fe_readers := (fe_readers f)[a := r']\<rparr>)))"

definition fake_close ::
  "'r reader_ops \<Rightarrow> nat \<Rightarrow> 'r fake_executor \<Rightarrow> go_error option \<times> 'r fake_executor" where
  "fake_close ops i f =
     (let h = fe_openStreams f ! i in
      if fh_closed h then (fh_closeErr h, f)
      else (case (fh_r h, reader_close ops) of
              (Some a, Some close) \<Rightarrow>
                (case close (fe_readers f ! a) of
                   (e, r') \<Rightarrow>
                     (e, f\<lparr>fe_openStreams := (fe_openStreams f)[i := h\<lparr>fh_closed := True, fh_closeErr := e\<rparr>],
                           fe_readers := (fe_readers f)[a := r']\<rparr>))
            | _ \<Rightarrow>
                (fh_closeErr h, f\<lparr>fe_openStreams := (fe_openStreams f)[i := h\<lparr>fh_closed := True\<rparr>]\<rparr>)))"

interpretation fake: executor fake_run fake_run_with_input
  by unfold_locales (simp add: fake_run_def)

section \<open>Accounting\<close>

lemma fake_run_answers:
  "map_of (fe_resp f) (tg_Host tgt) = Some r \<Longrightarrow>
     fst (fake_run_with_input f tgt cmd stdin) = (fr_out r, fr_err r)"
  by (simp add: fake_run_with_input_def Let_def)

lemma fake_close_closes:
  assumes "i < length (fe_openStreams f)" "fake_close ops i f = (e, f')"
  shows "open_stream_count f' = open_stream_count f - (if fh_closed (fe_openStreams f ! i) then 0 else 1)"
    and "fh_closed (fe_openStreams f' ! i)" and "length (fe_openStreams f') = length (fe_openStreams f)"
    and "fh_closeErr (fe_openStreams f' ! i) = e"
proof -
  define h where "h = fe_openStreams f ! i"
  have len: "length (filter P (xs[i := x])) =
      length (filter P xs) - (if P (xs ! i) then 1 else 0) + (if P x then 1 else 0)"
    if "i < length xs" for P :: "fake_handle \<Rightarrow> bool" and xs x
    using that
  proof (induction xs arbitrary: i)
    case Nil
    then show ?case by simp
  next
    case (Cons y ys)
    show ?case
    proof (cases i)
      case (Suc j)
      have "P (ys ! j) \<Longrightarrow> 0 < length (filter P ys)"
        using Cons.prems Suc by (auto simp: filter_empty_conv intro!: nth_mem)
      with Cons Suc show ?thesis by auto
    qed simp
  qed
  show "open_stream_count f' = open_stream_count f - (if fh_closed (fe_openStreams f ! i) then 0 else 1)"
    "fh_closed (fe_openStreams f' ! i)" "length (fe_openStreams f') = length (fe_openStreams f)"
    "fh_closeErr (fe_openStreams f' ! i) = e"
    using assms unfolding fake_close_def Let_def open_stream_count_def
    by (auto simp: len split: if_splits option.splits prod.splits)
qed

text \<open>
  Closing a stream handle of the test executor is idempotent: the first \<open>Close\<close> lowers the count
  of open streams by one, every later one changes nothing and returns the first one's
  error, and a \<open>Read\<close> after it is an immediate end of file that leaves the shared reader alone.
\<close>

lemma fake_close_idempotent:
  assumes "i < length (fe_openStreams f)" "\<not> fh_closed (fe_openStreams f ! i)"
    and "fake_close ops i f = (e, f')"
  shows "open_stream_count f = Suc (open_stream_count f') \<and>
    fake_close ops i f' = (e, f') \<and> fake_read ops n i f' = (([], True), f')"
proof -
  note c = fake_close_closes [OF assms(1,3)]
  have "fe_openStreams f ! i \<in> set (filter (\<lambda>h. \<not> fh_closed h) (fe_openStreams f))"
    using assms by simp
  then have "0 < open_stream_count f"
    unfolding open_stream_count_def by (metis length_pos_if_in_set)
  with c assms(2) show ?thesis
    by (auto simp: fake_close_def fake_read_def Let_def split: option.split)
qed

definition text_reader :: "string reader_ops" where
  "text_reader = \<lparr>string_reader = (\<lambda>s. s),
     reader_read = (\<lambda>n s. ((take n s, s = []), drop n s)), reader_close = None\<rparr>"

lemma fake_close_idempotent_witness:
  "\<exists>f'. fake_close text_reader 0 (snd (fake_stream
        (set_stream_response text_reader ''h'' ''line'' None new_fake_executor) target_example ''tail''))
      = (None, f') \<and> open_stream_count f' = 0"
proof -
  let ?f = "snd (fake_stream
        (set_stream_response text_reader ''h'' ''line'' None new_fake_executor) target_example ''tail'')"
  have f: "fe_openStreams ?f = [\<lparr>fh_r = Some 0, fh_closed = False, fh_closeErr = None\<rparr>]"
    by (simp add: fake_stream_def set_stream_response_def set_stream_reader_def
        new_fake_executor_def target_example_def Let_def)
  then obtain f' where f': "fake_close text_reader 0 ?f = (None, f')"
    by (simp add: fake_close_def text_reader_def Let_def)
  from fake_close_idempotent [OF _ _ f'] f have "open_stream_count ?f = Suc (open_stream_count f')"
    by simp
  moreover have "open_stream_count ?f = 1" by (simp add: open_stream_count_def f)
  ultimately show ?thesis using f' by simp
qed

end
