(* ===== verification/Ent_Tables.thy ===== *)
theory Ent_Tables
  imports Go_Prelude
begin

text \<open>
  The database schema (ent/schema, ent/migrate/schema.go) and what the generated builders do with
  it: the mutation a builder collects, its defaults, its checks, and the insert, update and
  delete of the four tables with their unique indexes and foreign keys (declared
  \<open>NoAction\<close> on delete). Tables are lists of rows in primary-key order with the counter of their
  AUTOINCREMENT column. SQLite and the ent runtime enter through \<open>sql_env\<close> (the texts
  of their messages and how the driver binds a nil byte slice) and \<open>db_faults\<close> (the errors
  the driver answers an operation with; none when the list is used up).
\<close>

section \<open>Rows and tables\<close>

type_synonym labels = "string go_map"

record ent_server =
  es_ID :: int
  es_Name :: string
  es_Hostname :: string
  es_SSHUser :: string
  es_SSHPort :: int
  es_SSHKeyPath :: string
  es_BenchPaths :: "string list option"
  es_Labels :: "labels option"
  es_Status :: string
  es_LastPingedAt :: "time option"
  es_LastError :: string
  es_CreatedAt :: time
  es_UpdatedAt :: time

record ent_cursor =
  ec_ID :: int
  ec_LogPath :: string
  ec_ByteOffset :: int
  ec_LastSeenAt :: time
  ec_Server :: int

record ent_snapshot =
  en_ID :: int
  en_CapturedAt :: time
  en_Payload :: string
  en_LastError :: string
  en_Server :: int

record 'f ent_alert =
  ea_ID :: int
  ea_RuleName :: string
  ea_Fingerprint :: string
  ea_Labels :: "labels option"
  ea_Status :: string
  ea_Value :: 'f
  ea_FirstFiredAt :: time
  ea_LastNotifiedAt :: time
  ea_UpdatedAt :: time

record 'f db =
  db_servers :: "ent_server list"
  db_cursors :: "ent_cursor list"
  db_snapshots :: "ent_snapshot list"
  db_alerts :: "'f ent_alert list"
  db_next :: "int \<times> int \<times> int \<times> int"
  db_faults :: "go_error option list"

definition empty_db :: "'f db" where
  "empty_db = \<lparr>db_servers = [], db_cursors = [], db_snapshots = [], db_alerts = [],
     db_next = (1, 1, 1, 1), db_faults = []\<rparr>"

record sql_env =
  sql_unique_msg :: "string \<Rightarrow> string"
  sql_fk_msg :: string
  sql_null_msg :: "string \<Rightarrow> string"
  sql_nil_blob :: "string option"
  validator_msg :: "string \<Rightarrow> string"

text \<open>One operation against the driver: it fails before it changes anything, or runs.\<close>

definition driver :: "('f db \<Rightarrow> 'a result \<times> 'f db) \<Rightarrow> 'f db \<Rightarrow> 'a result \<times> 'f db" where
  "driver op db =
     (case db_faults db of
        [] \<Rightarrow> op db
      | Some e # fs \<Rightarrow> (Inl e, db\<lparr>db_faults := fs\<rparr>)
      | None # fs \<Rightarrow> op (db\<lparr>db_faults := fs\<rparr>))"

section \<open>Errors of the builders\<close>

definition validation_error :: "string \<Rightarrow> go_error" where
  "validation_error msg = \<lparr>err_chain = [ValidationErr], err_msg = msg\<rparr>"

definition constraint_error :: "string \<Rightarrow> go_error" where
  "constraint_error msg = \<lparr>err_chain = [ConstraintErr], err_msg = ''ent: constraint failed: '' @ msg\<rparr>"

definition ent_not_found :: "string \<Rightarrow> go_error" where
  "ent_not_found label = \<lparr>err_chain = [EntNotFound], err_msg = ''ent: '' @ label @ '' not found''\<rparr>"

definition ent_not_singular :: "string \<Rightarrow> go_error" where
  "ent_not_singular label = new_error (''ent: '' @ label @ '' not singular'')"

definition required :: "string \<Rightarrow> 'a option \<Rightarrow> go_error option" where
  "required fld v =
     (case v of
        None \<Rightarrow> Some (validation_error (''ent: missing required field '' @ [CHR 0x22] @ fld @ [CHR 0x22]))
      | Some _ \<Rightarrow> None)"

definition validated :: "string \<Rightarrow> ('a \<Rightarrow> string option) \<Rightarrow> 'a option \<Rightarrow> go_error option" where
  "validated fld validator v =
     (case v of
        None \<Rightarrow> None
      | Some x \<Rightarrow>
          map_option (\<lambda>m. validation_error
            (''ent: validator failed for field '' @ [CHR 0x22] @ fld @ [CHR 0x22] @ '': '' @ m)) (validator x))"

fun first_error :: "go_error option list \<Rightarrow> go_error option" where
  "first_error [] = None"
| "first_error (None # es) = first_error es"
| "first_error (Some e # es) = Some e"

lemma first_error_None: "first_error es = None \<longleftrightarrow> (\<forall>e \<in> set es. e = None)"
  by (induction es rule: first_error.induct) auto

lemma required_None: "required fld v = None \<longleftrightarrow> v \<noteq> None"
  by (auto simp: required_def split: option.split)

lemma validated_None:
  "validated fld validator v = None \<longleftrightarrow> (\<forall>x. v = Some x \<longrightarrow> validator x = None)"
  by (simp add: validated_def split: option.split)

definition not_empty :: "sql_env \<Rightarrow> string \<Rightarrow> string option" where
  "not_empty env s = (if s = [] then Some (validator_msg env ''NotEmpty'') else None)"

definition at_least :: "sql_env \<Rightarrow> int \<Rightarrow> int \<Rightarrow> string option" where
  "at_least env lo v = (if v < lo then Some (validator_msg env ''Min'') else None)"

definition enum_value :: "string \<Rightarrow> string list \<Rightarrow> string \<Rightarrow> string option" where
  "enum_value entity vals s =
     (if List.member vals s then None
      else Some (entity @ '': invalid enum value for status field: '' @ go_quote s))"

definition server_statuses :: "string list" where
  "server_statuses = [''unknown'', ''reachable'', ''unreachable'']"

definition alert_statuses :: "string list" where
  "alert_statuses = [''firing'', ''resolved'']"

text \<open>\<open>Only\<close>: exactly one row.\<close>

definition only_row :: "string \<Rightarrow> 'r list \<Rightarrow> 'r result" where
  "only_row label rows =
     (case rows of
        [] \<Rightarrow> Inl (ent_not_found label)
      | [r] \<Rightarrow> Inr r
      | _ \<Rightarrow> Inl (ent_not_singular label))"

section \<open>Servers\<close>

text \<open>The fields a create or an update builder has been given.\<close>

record server_mutation =
  mu_Name :: "string option"
  mu_Hostname :: "string option"
  mu_SSHUser :: "string option"
  mu_SSHPort :: "int option"
  mu_SSHKeyPath :: "string option"
  mu_BenchPaths :: "string list option"
  mu_Labels :: "labels option"
  mu_Status :: "string option"
  mu_LastPingedAt :: "time option"
  mu_LastError :: "string option"
  mu_CreatedAt :: "time option"
  mu_UpdatedAt :: "time option"

definition empty_mutation :: server_mutation where
  "empty_mutation = \<lparr>mu_Name = None, mu_Hostname = None, mu_SSHUser = None, mu_SSHPort = None,
     mu_SSHKeyPath = None, mu_BenchPaths = None, mu_Labels = None, mu_Status = None,
     mu_LastPingedAt = None, mu_LastError = None, mu_CreatedAt = None, mu_UpdatedAt = None\<rparr>"

definition or_default :: "'a \<Rightarrow> 'a option \<Rightarrow> 'a option" where
  "or_default d v = (case v of None \<Rightarrow> Some d | Some x \<Rightarrow> Some x)"

definition server_create_defaults :: "time \<Rightarrow> server_mutation \<Rightarrow> server_mutation" where
  "server_create_defaults now m =
     m\<lparr>mu_SSHUser := or_default ''monitor'' (mu_SSHUser m),
       mu_SSHPort := or_default 22 (mu_SSHPort m),
       mu_Status := or_default ''unknown'' (mu_Status m),
       mu_CreatedAt := or_default now (mu_CreatedAt m),
       mu_UpdatedAt := or_default now (mu_UpdatedAt m)\<rparr>"

definition server_create_check :: "sql_env \<Rightarrow> server_mutation \<Rightarrow> go_error option" where
  "server_create_check env m = first_error
     [required ''Server.name'' (mu_Name m),
      validated ''Server.name'' (not_empty env) (mu_Name m),
      required ''Server.hostname'' (mu_Hostname m),
      validated ''Server.hostname'' (not_empty env) (mu_Hostname m),
      required ''Server.ssh_user'' (mu_SSHUser m),
      required ''Server.ssh_port'' (mu_SSHPort m),
      validated ''Server.ssh_port'' (at_least env 1) (mu_SSHPort m),
      required ''Server.ssh_key_path'' (mu_SSHKeyPath m),
      validated ''Server.ssh_key_path'' (not_empty env) (mu_SSHKeyPath m),
      required ''Server.status'' (mu_Status m),
      validated ''Server.status'' (enum_value ''server'' server_statuses) (mu_Status m),
      required ''Server.created_at'' (mu_CreatedAt m),
      required ''Server.updated_at'' (mu_UpdatedAt m)]"

definition server_update_check :: "sql_env \<Rightarrow> server_mutation \<Rightarrow> go_error option" where
  "server_update_check env m = first_error
     [validated ''Server.name'' (not_empty env) (mu_Name m),
      validated ''Server.hostname'' (not_empty env) (mu_Hostname m),
      validated ''Server.ssh_port'' (at_least env 1) (mu_SSHPort m),
      validated ''Server.ssh_key_path'' (not_empty env) (mu_SSHKeyPath m),
      validated ''Server.status'' (enum_value ''server'' server_statuses) (mu_Status m)]"

definition next_server :: "'f db \<Rightarrow> int" where "next_server db = fst (db_next db)"
definition next_cursor :: "'f db \<Rightarrow> int" where "next_cursor db = fst (snd (db_next db))"
definition next_snapshot :: "'f db \<Rightarrow> int" where "next_snapshot db = fst (snd (snd (db_next db)))"
definition next_alert :: "'f db \<Rightarrow> int" where "next_alert db = snd (snd (snd (db_next db)))"

definition server_create_save ::
  "sql_env \<Rightarrow> time \<Rightarrow> server_mutation \<Rightarrow> 'f db \<Rightarrow> ent_server result \<times> 'f db" where
  "server_create_save env now mut db =
     (let m = server_create_defaults now mut in
      case server_create_check env m of
        Some e \<Rightarrow> (Inl e, db)
      | None \<Rightarrow>
          if list_ex (\<lambda>r. es_Hostname r = the (mu_Hostname m)) (db_servers db)
          then (Inl (constraint_error (sql_unique_msg env ''servers.hostname'')), db)
          else
            (let row = \<lparr>es_ID = next_server db, es_Name = the (mu_Name m),
                   es_Hostname = the (mu_Hostname m), es_SSHUser = the (mu_SSHUser m),
                   es_SSHPort = the (mu_SSHPort m), es_SSHKeyPath = the (mu_SSHKeyPath m),
                   es_BenchPaths = mu_BenchPaths m, es_Labels = mu_Labels m,
                   es_Status = the (mu_Status m), es_LastPingedAt = mu_LastPingedAt m,
                   es_LastError = (case mu_LastError m of None \<Rightarrow> [] | Some s \<Rightarrow> s),
                   es_CreatedAt = the (mu_CreatedAt m), es_UpdatedAt = the (mu_UpdatedAt m)\<rparr>;
                 (a, b, c, d) = db_next db
             in (Inr row, db\<lparr>db_servers := db_servers db @ [row], db_next := (a + 1, b, c, d)\<rparr>)))"

definition set_opt :: "'a option \<Rightarrow> ('a \<Rightarrow> 'r \<Rightarrow> 'r) \<Rightarrow> 'r \<Rightarrow> 'r" where
  "set_opt v upd r = (case v of None \<Rightarrow> r | Some x \<Rightarrow> upd x r)"

text \<open>The columns of one UPDATE; \<open>updated_at\<close> has an update default, \<open>created_at\<close> is immutable.\<close>

definition apply_mutation :: "time \<Rightarrow> server_mutation \<Rightarrow> ent_server \<Rightarrow> ent_server" where
  "apply_mutation now m r =
     (set_opt (mu_Name m) (\<lambda>v r. r\<lparr>es_Name := v\<rparr>)
      (set_opt (mu_Hostname m) (\<lambda>v r. r\<lparr>es_Hostname := v\<rparr>)
      (set_opt (mu_SSHUser m) (\<lambda>v r. r\<lparr>es_SSHUser := v\<rparr>)
      (set_opt (mu_SSHPort m) (\<lambda>v r. r\<lparr>es_SSHPort := v\<rparr>)
      (set_opt (mu_SSHKeyPath m) (\<lambda>v r. r\<lparr>es_SSHKeyPath := v\<rparr>)
      (set_opt (mu_BenchPaths m) (\<lambda>v r. r\<lparr>es_BenchPaths := Some v\<rparr>)
      (set_opt (mu_Labels m) (\<lambda>v r. r\<lparr>es_Labels := Some v\<rparr>)
      (set_opt (mu_Status m) (\<lambda>v r. r\<lparr>es_Status := v\<rparr>)
      (set_opt (mu_LastPingedAt m) (\<lambda>v r. r\<lparr>es_LastPingedAt := Some v\<rparr>)
      (set_opt (mu_LastError m) (\<lambda>v r. r\<lparr>es_LastError := v\<rparr>) r))))))))))
     \<lparr>es_UpdatedAt := now\<rparr>"

definition replace_row :: "('r \<Rightarrow> int) \<Rightarrow> 'r \<Rightarrow> 'r list \<Rightarrow> 'r list" where
  "replace_row key r rows = map (\<lambda>x. if key x = key r then r else x) rows"

definition server_update_save ::
  "sql_env \<Rightarrow> time \<Rightarrow> int \<Rightarrow> server_mutation \<Rightarrow> 'f db \<Rightarrow> ent_server result \<times> 'f db" where
  "server_update_save env now i m db =
     (case server_update_check env m of
        Some e \<Rightarrow> (Inl e, db)
      | None \<Rightarrow>
          (case find (\<lambda>r. es_ID r = i) (db_servers db) of
             None \<Rightarrow> (Inl (ent_not_found ''server''), db)
           | Some r \<Rightarrow>
               let r' = apply_mutation now m r in
               if list_ex (\<lambda>x. es_ID x \<noteq> i \<and> es_Hostname x = es_Hostname r') (db_servers db)
               then (Inl (constraint_error (sql_unique_msg env ''servers.hostname'')), db)
               else (Inr r', db\<lparr>db_servers := replace_row es_ID r' (db_servers db)\<rparr>)))"

text \<open>Deleting a server that a cursor or a snapshot refers to violates a foreign key.\<close>

definition server_delete :: "sql_env \<Rightarrow> int \<Rightarrow> 'f db \<Rightarrow> unit result \<times> 'f db" where
  "server_delete env i db =
     (if \<not> list_ex (\<lambda>r. es_ID r = i) (db_servers db) then (Inl (ent_not_found ''server''), db)
      else if list_ex (\<lambda>c. ec_Server c = i) (db_cursors db) \<or>
              list_ex (\<lambda>s. en_Server s = i) (db_snapshots db)
      then (Inl (constraint_error (sql_fk_msg env)), db)
      else (Inr (), db\<lparr>db_servers := filter (\<lambda>r. es_ID r \<noteq> i) (db_servers db)\<rparr>))"

section \<open>Log cursors\<close>

definition cursor_check :: "sql_env \<Rightarrow> string option \<Rightarrow> int option \<Rightarrow> go_error option" where
  "cursor_check env path off = first_error
     [validated ''LogCursor.log_path'' (not_empty env) path,
      validated ''LogCursor.byte_offset'' (at_least env 0) off]"

definition cursor_create_save ::
  "sql_env \<Rightarrow> time \<Rightarrow> string \<Rightarrow> int \<Rightarrow> int \<Rightarrow> 'f db \<Rightarrow> unit result \<times> 'f db" where
  "cursor_create_save env now path off server db =
     (case cursor_check env (Some path) (Some off) of
        Some e \<Rightarrow> (Inl e, db)
      | None \<Rightarrow>
          if list_ex (\<lambda>c. ec_LogPath c = path \<and> ec_Server c = server) (db_cursors db) then
            (Inl (constraint_error
               (sql_unique_msg env ''log_cursors.log_path, log_cursors.server_log_cursors'')), db)
          else if \<not> list_ex (\<lambda>r. es_ID r = server) (db_servers db) then
            (Inl (constraint_error (sql_fk_msg env)), db)
          else
            (let (a, b, c, d) = db_next db
             in (Inr (), db\<lparr>db_cursors := db_cursors db @
                     [\<lparr>ec_ID = b, ec_LogPath = path, ec_ByteOffset = off, ec_LastSeenAt = now,
                       ec_Server = server\<rparr>],
                   db_next := (a, b + 1, c, d)\<rparr>)))"

definition cursor_update_save ::
  "sql_env \<Rightarrow> time \<Rightarrow> int \<Rightarrow> int \<Rightarrow> 'f db \<Rightarrow> unit result \<times> 'f db" where
  "cursor_update_save env now i off db =
     (case cursor_check env None (Some off) of
        Some e \<Rightarrow> (Inl e, db)
      | None \<Rightarrow>
          (case find (\<lambda>c. ec_ID c = i) (db_cursors db) of
             None \<Rightarrow> (Inl (ent_not_found ''log_cursor''), db)
           | Some c \<Rightarrow>
               (Inr (), db\<lparr>db_cursors := replace_row ec_ID
                  (c\<lparr>ec_ByteOffset := off, ec_LastSeenAt := now\<rparr>) (db_cursors db)\<rparr>)))"

section \<open>System snapshots\<close>

text \<open>A nil payload is bound as the driver binds a nil byte slice; the column is not nullable.\<close>

definition snapshot_create_save ::
  "sql_env \<Rightarrow> time \<Rightarrow> string option \<Rightarrow> string \<Rightarrow> int \<Rightarrow> 'f db \<Rightarrow> unit result \<times> 'f db" where
  "snapshot_create_save env now payload last_error server db =
     (case (case payload of None \<Rightarrow> sql_nil_blob env | Some p \<Rightarrow> Some p) of
        None \<Rightarrow> (Inl (constraint_error (sql_null_msg env ''system_snapshots.payload'')), db)
      | Some p \<Rightarrow>
          if list_ex (\<lambda>s. en_Server s = server) (db_snapshots db) then
            (Inl (constraint_error (sql_unique_msg env ''system_snapshots.server_system_snapshot'')), db)
          else if \<not> list_ex (\<lambda>r. es_ID r = server) (db_servers db) then
            (Inl (constraint_error (sql_fk_msg env)), db)
          else
            (let (a, b, c, d) = db_next db
             in (Inr (), db\<lparr>db_snapshots := db_snapshots db @
                     [\<lparr>en_ID = c, en_CapturedAt = now, en_Payload = p, en_LastError = last_error,
                       en_Server = server\<rparr>],
                   db_next := (a, b, c + 1, d)\<rparr>)))"

definition snapshot_update_save ::
  "time \<Rightarrow> int \<Rightarrow> string option \<Rightarrow> string \<Rightarrow> 'f db \<Rightarrow> unit result \<times> 'f db" where
  "snapshot_update_save now i payload last_error db =
     (case find (\<lambda>s. en_ID s = i) (db_snapshots db) of
        None \<Rightarrow> (Inl (ent_not_found ''system_snapshot''), db)
      | Some s \<Rightarrow>
          (let s1 = s\<lparr>en_LastError := last_error, en_CapturedAt := now\<rparr>;
               s2 = set_opt payload (\<lambda>p s. s\<lparr>en_Payload := p\<rparr>) s1
           in (Inr (), db\<lparr>db_snapshots := replace_row en_ID s2 (db_snapshots db)\<rparr>)))"

section \<open>Alert states\<close>

definition alert_create_check :: "sql_env \<Rightarrow> string \<Rightarrow> string \<Rightarrow> string \<Rightarrow> go_error option" where
  "alert_create_check env rule fp status = first_error
     [validated ''AlertState.rule_name'' (not_empty env) (Some rule),
      validated ''AlertState.fingerprint'' (not_empty env) (Some fp),
      validated ''AlertState.status'' (enum_value ''alertstate'' alert_statuses) (Some status)]"

definition alert_create_save ::
  "sql_env \<Rightarrow> time \<Rightarrow> string \<Rightarrow> string \<Rightarrow> 'f \<Rightarrow> string \<Rightarrow> labels option \<Rightarrow> time option \<Rightarrow> 'f db \<Rightarrow>
     'f ent_alert result \<times> 'f db" where
  "alert_create_save env now rule fp val status labels notified db =
     (case alert_create_check env rule fp status of
        Some e \<Rightarrow> (Inl e, db)
      | None \<Rightarrow>
          if list_ex (\<lambda>a. ea_RuleName a = rule \<and> ea_Fingerprint a = fp) (db_alerts db) then
            (Inl (constraint_error
               (sql_unique_msg env ''alert_states.rule_name, alert_states.fingerprint'')), db)
          else
            (let (a, b, c, d) = db_next db;
                 row = \<lparr>ea_ID = d, ea_RuleName = rule, ea_Fingerprint = fp, ea_Labels = labels,
                   ea_Status = status, ea_Value = val, ea_FirstFiredAt = now,
                   ea_LastNotifiedAt = (case notified of None \<Rightarrow> now | Some t \<Rightarrow> t),
                   ea_UpdatedAt = now\<rparr>
             in (Inr row, db\<lparr>db_alerts := db_alerts db @ [row], db_next := (a, b, c, d + 1)\<rparr>)))"

definition alert_update_save ::
  "time \<Rightarrow> int \<Rightarrow> 'f \<Rightarrow> string option \<Rightarrow> labels option \<Rightarrow> time option \<Rightarrow> 'f db \<Rightarrow>
     'f ent_alert result \<times> 'f db" where
  "alert_update_save now i val status labels notified db =
     (case validated ''AlertState.status'' (enum_value ''alertstate'' alert_statuses) status of
        Some e \<Rightarrow> (Inl e, db)
      | None \<Rightarrow>
          (case find (\<lambda>a. ea_ID a = i) (db_alerts db) of
             None \<Rightarrow> (Inl (ent_not_found ''alert_state''), db)
           | Some a \<Rightarrow>
               let a' = set_opt status (\<lambda>v a. a\<lparr>ea_Status := v\<rparr>)
                     (set_opt labels (\<lambda>v a. a\<lparr>ea_Labels := Some v\<rparr>)
                     (set_opt notified (\<lambda>v a. a\<lparr>ea_LastNotifiedAt := v\<rparr>)
                        (a\<lparr>ea_Value := val, ea_UpdatedAt := now\<rparr>)))
               in (Inr a', db\<lparr>db_alerts := replace_row ea_ID a' (db_alerts db)\<rparr>)))"

definition alert_delete :: "int \<Rightarrow> 'f db \<Rightarrow> unit result \<times> 'f db" where
  "alert_delete i db =
     (if \<not> list_ex (\<lambda>a. ea_ID a = i) (db_alerts db) then (Inl (ent_not_found ''alert_state''), db)
      else (Inr (), db\<lparr>db_alerts := filter (\<lambda>a. ea_ID a \<noteq> i) (db_alerts db)\<rparr>))"

end
