(* ===== verification/Ent_Invariant.thy ===== *)
theory Ent_Invariant
  imports Ent_Tables
begin

text \<open>
  The invariant of the four tables: primary keys are distinct and below the AUTOINCREMENT
  counter, the unique indexes hold, every cursor and snapshot belongs to a server, every field
  passes its validator. Every insert, update and delete of \<open>Ent_Tables\<close> preserves it; that is
  what the foreign keys and the builders' checks are for.
\<close>

section \<open>Replacing a row\<close>

lemma map_key_replace_row [simp]: "map key (replace_row key r rows) = map key rows"
  by (simp add: replace_row_def)

lemma replace_row_simps [simp]:
  "replace_row key r [] = []"
  "replace_row key r (x # rows) = (if key x = key r then r else x) # replace_row key r rows"
  by (simp_all add: replace_row_def)

lemma set_replace_row: "x \<in> set (replace_row key r rows) \<Longrightarrow> x = r \<or> x \<in> set rows \<and> key x \<noteq> key r"
  by (auto simp: replace_row_def split: if_splits)

lemma replace_row_mem: "key x = key r \<Longrightarrow> x \<in> set rows \<Longrightarrow> r \<in> set (replace_row key r rows)"
  by (force simp: replace_row_def)

lemma map_replace_row_same:
  "\<forall>x \<in> set rows. key x = key r \<longrightarrow> f x = f r \<Longrightarrow> map f (replace_row key r rows) = map f rows"
  by (simp add: replace_row_def)

lemma distinct_replace_row:
  assumes "distinct (map key rows)" "distinct (map f rows)"
    "\<forall>x \<in> set rows. key x \<noteq> key r \<longrightarrow> f x \<noteq> f r"
  shows "distinct (map f (replace_row key r rows))"
  using assms
proof (induction rows)
  case Nil
  then show ?case by (simp add: replace_row_def)
next
  case (Cons x rows)
  show ?case
  proof (cases "key x = key r")
    case True
    with Cons.prems(1) have "key r \<notin> key ` set rows" by auto
    then have "replace_row key r rows = rows"
      unfolding replace_row_def by (intro map_idI) (metis image_eqI)
    moreover have "f r \<notin> f ` set rows"
    proof
      assume "f r \<in> f ` set rows"
      then obtain y where "y \<in> set rows" "f y = f r" by auto
      with Cons.prems(3) have "key y = key r" by auto
      with \<open>y \<in> set rows\<close> \<open>key r \<notin> key ` set rows\<close> show False by (metis image_eqI)
    qed
    ultimately show ?thesis using True Cons.prems(2) by simp
  next
    case False
    then have "f x \<noteq> f r" using Cons.prems(3) by simp
    then have "f x \<notin> f ` set (replace_row key r rows)"
      using Cons.prems(2) by (auto dest: set_replace_row)
    with False Cons show ?thesis by simp
  qed
qed

lemma distinct_map_filter_row: "distinct (map f rows) \<Longrightarrow> distinct (map f (filter P rows))"
  by (rule distinct_map_filter)

section \<open>The invariant\<close>

definition server_row_ok :: "ent_server \<Rightarrow> bool" where
  "server_row_ok r \<longleftrightarrow> es_Name r \<noteq> [] \<and> es_Hostname r \<noteq> [] \<and> 1 \<le> es_SSHPort r \<and>
     es_SSHKeyPath r \<noteq> [] \<and> es_Status r \<in> set server_statuses"

definition servers_ok :: "ent_server list \<Rightarrow> int \<Rightarrow> bool" where
  "servers_ok rows n \<longleftrightarrow> distinct (map es_ID rows) \<and> distinct (map es_Hostname rows) \<and>
     (\<forall>r \<in> set rows. es_ID r < n \<and> server_row_ok r)"

definition cursors_ok :: "ent_server list \<Rightarrow> ent_cursor list \<Rightarrow> int \<Rightarrow> bool" where
  "cursors_ok servers rows n \<longleftrightarrow> distinct (map ec_ID rows) \<and>
     distinct (map (\<lambda>c. (ec_Server c, ec_LogPath c)) rows) \<and>
     (\<forall>c \<in> set rows. ec_ID c < n \<and> ec_LogPath c \<noteq> [] \<and> 0 \<le> ec_ByteOffset c \<and>
        ec_Server c \<in> es_ID ` set servers)"

definition snapshots_ok :: "ent_server list \<Rightarrow> ent_snapshot list \<Rightarrow> int \<Rightarrow> bool" where
  "snapshots_ok servers rows n \<longleftrightarrow> distinct (map en_ID rows) \<and> distinct (map en_Server rows) \<and>
     (\<forall>s \<in> set rows. en_ID s < n \<and> en_Server s \<in> es_ID ` set servers)"

definition alerts_ok :: "'f ent_alert list \<Rightarrow> int \<Rightarrow> bool" where
  "alerts_ok rows n \<longleftrightarrow> distinct (map ea_ID rows) \<and>
     distinct (map (\<lambda>a. (ea_RuleName a, ea_Fingerprint a)) rows) \<and>
     (\<forall>a \<in> set rows. ea_ID a < n \<and> ea_RuleName a \<noteq> [] \<and> ea_Fingerprint a \<noteq> [] \<and>
        ea_Status a \<in> set alert_statuses)"

definition db_ok :: "'f db \<Rightarrow> bool" where
  "db_ok db \<longleftrightarrow> servers_ok (db_servers db) (next_server db) \<and>
     cursors_ok (db_servers db) (db_cursors db) (next_cursor db) \<and>
     snapshots_ok (db_servers db) (db_snapshots db) (next_snapshot db) \<and>
     alerts_ok (db_alerts db) (next_alert db)"

lemma db_okI:
  assumes "servers_ok (db_servers db) (next_server db)"
    "cursors_ok (db_servers db) (db_cursors db) (next_cursor db)"
    "snapshots_ok (db_servers db) (db_snapshots db) (next_snapshot db)"
    "alerts_ok (db_alerts db) (next_alert db)"
  shows "db_ok db"
  using assms by (simp add: db_ok_def)

lemma db_okD:
  assumes "db_ok db"
  shows "servers_ok (db_servers db) (next_server db)"
    and "cursors_ok (db_servers db) (db_cursors db) (next_cursor db)"
    and "snapshots_ok (db_servers db) (db_snapshots db) (next_snapshot db)"
    and "alerts_ok (db_alerts db) (next_alert db)"
  using assms by (simp_all add: db_ok_def)

lemma db_ok_empty: "db_ok empty_db"
  by (simp add: db_ok_def empty_db_def servers_ok_def cursors_ok_def snapshots_ok_def alerts_ok_def)

lemma db_ok_faults [simp]: "db_ok (db\<lparr>db_faults := fs\<rparr>) \<longleftrightarrow> db_ok db"
  by (simp add: db_ok_def next_server_def next_cursor_def next_snapshot_def next_alert_def)

lemmas next_defs = next_server_def next_cursor_def next_snapshot_def next_alert_def

lemma driver_ok:
  assumes "db_ok db" "\<And>db'. db_ok db' \<Longrightarrow> db_ok (snd (op db'))"
  shows "db_ok (snd (driver op db))"
  using assms by (auto simp: driver_def split: list.split option.split)

text \<open>More servers are always fine for the tables that refer to them.\<close>

lemma refs_mono:
  "cursors_ok S rows n \<Longrightarrow> es_ID ` set S \<subseteq> es_ID ` set S' \<Longrightarrow> cursors_ok S' rows n"
  "snapshots_ok S snaps m \<Longrightarrow> es_ID ` set S \<subseteq> es_ID ` set S' \<Longrightarrow> snapshots_ok S' snaps m"
  by (auto simp: cursors_ok_def snapshots_ok_def)

section \<open>Every builder preserves it\<close>

lemma enum_value_None: "enum_value entity vals s = None \<longleftrightarrow> s \<in> set vals"
  by (simp add: enum_value_def)

lemma not_empty_None: "not_empty env s = None \<longleftrightarrow> s \<noteq> []"
  by (simp add: not_empty_def)

lemma at_least_None: "at_least env lo v = None \<longleftrightarrow> lo \<le> v"
  by (auto simp: at_least_def)

lemmas validator_facts = required_None validated_None enum_value_None not_empty_None at_least_None

lemma server_create_ok:
  assumes "db_ok db"
  shows "db_ok (snd (server_create_save env now mut db))"
proof (cases "is_ok (fst (server_create_save env now mut db))")
  case False
  then have "snd (server_create_save env now mut db) = db"
    by (auto simp: server_create_save_def Let_def split: option.splits prod.splits if_splits)
  with assms show ?thesis by simp
next
  case True
  define m where "m = server_create_defaults now mut"
  from True have chk: "server_create_check env m = None"
    and uniq: "\<forall>r \<in> set (db_servers db). es_Hostname r \<noteq> the (mu_Hostname m)"
    by (auto simp: server_create_save_def Let_def m_def list_ex_iff
        split: option.splits prod.splits if_splits)
  have nonempty: "\<exists>x. mu_Name m = Some x \<and> x \<noteq> []" "\<exists>x. mu_Hostname m = Some x \<and> x \<noteq> []"
    "\<exists>x. mu_SSHPort m = Some x \<and> 1 \<le> x" "\<exists>x. mu_SSHKeyPath m = Some x \<and> x \<noteq> []"
    "\<exists>x. mu_Status m = Some x \<and> x \<in> set server_statuses"
    using chk by (auto simp: server_create_check_def first_error_None validator_facts)
  obtain row where row: "snd (server_create_save env now mut db) =
      db\<lparr>db_servers := db_servers db @ [row],
         db_next := (next_server db + 1, next_cursor db, next_snapshot db, next_alert db)\<rparr>"
    "es_ID row = next_server db" "es_Hostname row = the (mu_Hostname m)" "server_row_ok row"
  proof
    let ?row = "\<lparr>es_ID = next_server db, es_Name = the (mu_Name m),
        es_Hostname = the (mu_Hostname m), es_SSHUser = the (mu_SSHUser m),
        es_SSHPort = the (mu_SSHPort m), es_SSHKeyPath = the (mu_SSHKeyPath m),
        es_BenchPaths = mu_BenchPaths m, es_Labels = mu_Labels m,
        es_Status = the (mu_Status m), es_LastPingedAt = mu_LastPingedAt m,
        es_LastError = (case mu_LastError m of None \<Rightarrow> [] | Some s \<Rightarrow> s),
        es_CreatedAt = the (mu_CreatedAt m), es_UpdatedAt = the (mu_UpdatedAt m)\<rparr>"
    show "snd (server_create_save env now mut db) =
      db\<lparr>db_servers := db_servers db @ [?row],
         db_next := (next_server db + 1, next_cursor db, next_snapshot db, next_alert db)\<rparr>"
      using chk uniq
      by (auto simp: server_create_save_def Let_def list_ex_iff next_defs simp flip: m_def
          split: prod.splits)
    show "server_row_ok ?row" using nonempty by (auto simp: server_row_ok_def)
  qed simp_all
  note d = db_okD [OF assms]
  have "servers_ok (db_servers db @ [row]) (next_server db + 1)"
    using d(1) row(2-4) uniq by (force simp: servers_ok_def)
  moreover have "cursors_ok (db_servers db @ [row]) (db_cursors db) (next_cursor db)"
    "snapshots_ok (db_servers db @ [row]) (db_snapshots db) (next_snapshot db)"
    using d(2,3) by (auto elim!: refs_mono)
  ultimately show ?thesis
    using d(4) by (simp add: row(1) db_ok_def next_defs)
qed

lemma set_opt_const: "(\<And>x r. f (upd x r) = f r) \<Longrightarrow> f (set_opt v upd r) = f r"
  by (simp add: set_opt_def split: option.split)

lemma set_opt_pres: "P r \<Longrightarrow> (\<And>x. v = Some x \<Longrightarrow> P r \<Longrightarrow> P (upd x r)) \<Longrightarrow> P (set_opt v upd r)"
  by (simp add: set_opt_def split: option.split)

lemma apply_mutation_ID [simp]: "es_ID (apply_mutation now m r) = es_ID r"
  by (simp add: apply_mutation_def set_opt_const [where f = es_ID])

lemma apply_mutation_row_ok:
  assumes "server_row_ok r" "server_update_check env m = None"
  shows "server_row_ok (apply_mutation now m r)"
proof -
  have v: "\<And>x. mu_Name m = Some x \<Longrightarrow> x \<noteq> []" "\<And>x. mu_Hostname m = Some x \<Longrightarrow> x \<noteq> []"
    "\<And>x. mu_SSHPort m = Some x \<Longrightarrow> 1 \<le> x" "\<And>x. mu_SSHKeyPath m = Some x \<Longrightarrow> x \<noteq> []"
    "\<And>x. mu_Status m = Some x \<Longrightarrow> x \<in> set server_statuses"
    using assms(2) by (simp_all add: server_update_check_def first_error_None validator_facts)
  have "server_row_ok (r\<lparr>es_UpdatedAt := now\<rparr>) = server_row_ok r" for r
    by (simp add: server_row_ok_def)
  then show ?thesis
    unfolding apply_mutation_def
    by (simp only:) (intro set_opt_pres [where P = server_row_ok] assms(1);
        simp add: server_row_ok_def v)
qed

lemma server_update_ok:
  assumes "db_ok db"
  shows "db_ok (snd (server_update_save env now i m db))"
proof (cases "is_ok (fst (server_update_save env now i m db))")
  case False
  then have "snd (server_update_save env now i m db) = db"
    by (auto simp: server_update_save_def Let_def split: option.splits if_splits)
  with assms show ?thesis by simp
next
  case True
  then obtain r where chk: "server_update_check env m = None"
    and r: "find (\<lambda>r. es_ID r = i) (db_servers db) = Some r"
    and uniq: "\<forall>x \<in> set (db_servers db). es_ID x \<noteq> i \<longrightarrow> es_Hostname x \<noteq> es_Hostname (apply_mutation now m r)"
    by (auto simp: server_update_save_def Let_def list_ex_iff split: option.splits if_splits)
  let ?r = "apply_mutation now m r"
  let ?S = "replace_row es_ID ?r (db_servers db)"
  from r have mem: "r \<in> set (db_servers db)" "es_ID r = i" by (auto simp: find_Some_iff)
  have res: "snd (server_update_save env now i m db) = db\<lparr>db_servers := ?S\<rparr>"
    using chk r uniq by (auto simp: server_update_save_def Let_def list_ex_iff)
  note d = db_okD [OF assms]
  have ok: "server_row_ok ?r"
    using apply_mutation_row_ok [OF _ chk] d(1) mem by (auto simp: servers_ok_def)
  have "servers_ok ?S (next_server db)"
    unfolding servers_ok_def
  proof (intro conjI ballI)
    show "distinct (map es_ID ?S)" using d(1) by (simp add: servers_ok_def)
    show "distinct (map es_Hostname ?S)"
      by (rule distinct_replace_row) (use d(1) uniq mem in \<open>auto simp: servers_ok_def\<close>)
    fix x assume "x \<in> set ?S"
    then have "x = ?r \<or> x \<in> set (db_servers db)" by (auto dest: set_replace_row)
    with d(1) mem ok show "es_ID x < next_server db" "server_row_ok x"
      by (auto simp: servers_ok_def)
  qed
  moreover have "es_ID ` set ?S = es_ID ` set (db_servers db)"
    using map_key_replace_row [of es_ID ?r "db_servers db"] by (metis list.set_map)
  then have "cursors_ok ?S (db_cursors db) (next_cursor db)"
    "snapshots_ok ?S (db_snapshots db) (next_snapshot db)"
    using d(2,3) by (auto elim!: refs_mono)
  ultimately show ?thesis using d(4) by (simp add: res db_ok_def next_defs)
qed

lemma server_delete_ok:
  assumes "db_ok db"
  shows "db_ok (snd (server_delete env i db))"
proof -
  note d = db_okD [OF assms]
  let ?S = "filter (\<lambda>r. es_ID r \<noteq> i) (db_servers db)"
  have "servers_ok ?S (next_server db)"
    using d(1) by (auto simp: servers_ok_def distinct_map_filter_row)
  moreover have "\<forall>c \<in> set (db_cursors db). ec_Server c \<noteq> i \<Longrightarrow> cursors_ok ?S (db_cursors db) (next_cursor db)"
    "\<forall>s \<in> set (db_snapshots db). en_Server s \<noteq> i \<Longrightarrow> snapshots_ok ?S (db_snapshots db) (next_snapshot db)"
    using d(2,3) by (force simp: cursors_ok_def snapshots_ok_def)+
  ultimately show ?thesis
    using assms d(4) by (auto simp: server_delete_def list_ex_iff db_ok_def next_defs)
qed

lemma cursor_create_ok:
  assumes "db_ok db"
  shows "db_ok (snd (cursor_create_save env now path off server db))"
proof (cases "cursor_check env (Some path) (Some off)")
  case (Some e)
  with assms show ?thesis by (simp add: cursor_create_save_def)
next
  case None
  then have "path \<noteq> []" "0 \<le> off"
    by (simp_all add: cursor_check_def first_error_None validator_facts)
  with None db_okD [OF assms] show ?thesis
    by (auto simp: cursor_create_save_def list_ex_iff db_ok_def next_defs Let_def split: prod.splits)
      (force simp: cursors_ok_def)
qed

lemma cursor_update_ok:
  assumes "db_ok db"
  shows "db_ok (snd (cursor_update_save env now i off db))"
proof (cases "is_ok (fst (cursor_update_save env now i off db))")
  case False
  then have "snd (cursor_update_save env now i off db) = db"
    by (auto simp: cursor_update_save_def split: option.splits)
  with assms show ?thesis by simp
next
  case True
  then obtain c where chk: "cursor_check env None (Some off) = None"
    and c: "find (\<lambda>c. ec_ID c = i) (db_cursors db) = Some c"
    by (auto simp: cursor_update_save_def split: option.splits)
  let ?c = "c\<lparr>ec_ByteOffset := off, ec_LastSeenAt := now\<rparr>"
  let ?C = "replace_row ec_ID ?c (db_cursors db)"
  from c have mem: "c \<in> set (db_cursors db)" "ec_ID c = i" by (auto simp: find_Some_iff)
  note d = db_okD [OF assms]
  have off: "0 \<le> off" using chk by (simp add: cursor_check_def first_error_None validator_facts)
  have same: "\<forall>x \<in> set (db_cursors db). ec_ID x = ec_ID ?c \<longrightarrow> x = c"
    using d(2) mem by (auto simp: cursors_ok_def distinct_map inj_on_def)
  have "cursors_ok (db_servers db) ?C (next_cursor db)"
    unfolding cursors_ok_def
  proof (intro conjI ballI)
    show "distinct (map ec_ID ?C)" using d(2) by (simp add: cursors_ok_def)
    have "map (\<lambda>c. (ec_Server c, ec_LogPath c)) ?C = map (\<lambda>c. (ec_Server c, ec_LogPath c)) (db_cursors db)"
      by (rule map_replace_row_same) (use same in auto)
    then show "distinct (map (\<lambda>c. (ec_Server c, ec_LogPath c)) ?C)"
      using d(2) by (simp add: cursors_ok_def)
    fix x assume "x \<in> set ?C"
    then have "x = ?c \<or> x \<in> set (db_cursors db)" by (auto dest: set_replace_row)
    with d(2) mem off show "ec_ID x < next_cursor db" "ec_LogPath x \<noteq> []" "0 \<le> ec_ByteOffset x"
      "ec_Server x \<in> es_ID ` set (db_servers db)"
      by (auto simp: cursors_ok_def)
  qed
  with d chk c show ?thesis by (simp add: cursor_update_save_def db_ok_def next_defs)
qed

lemma snapshot_create_ok:
  assumes "db_ok db"
  shows "db_ok (snd (snapshot_create_save env now payload err server db))"
proof -
  note d = db_okD [OF assms]
  show ?thesis
    using d
    by (auto simp: snapshot_create_save_def list_ex_iff db_ok_def next_defs Let_def
        split: option.splits prod.splits)
      (force simp: snapshots_ok_def)+
qed

lemma snapshot_update_ok:
  assumes "db_ok db"
  shows "db_ok (snd (snapshot_update_save now i payload err db))"
proof (cases "find (\<lambda>s. en_ID s = i) (db_snapshots db)")
  case None
  with assms show ?thesis by (simp add: snapshot_update_save_def)
next
  case (Some s)
  let ?s = "set_opt payload (\<lambda>p s. s\<lparr>en_Payload := p\<rparr>) (s\<lparr>en_LastError := err, en_CapturedAt := now\<rparr>)"
  let ?N = "replace_row en_ID ?s (db_snapshots db)"
  have eq: "en_ID ?s = en_ID s" "en_Server ?s = en_Server s"
    by (simp_all add: set_opt_def split: option.split)
  from Some have mem: "s \<in> set (db_snapshots db)" "en_ID s = i" by (auto simp: find_Some_iff)
  note d = db_okD [OF assms]
  have same: "\<forall>x \<in> set (db_snapshots db). en_ID x = en_ID ?s \<longrightarrow> x = s"
    using d(3) mem eq by (auto simp: snapshots_ok_def distinct_map inj_on_def)
  have "snapshots_ok (db_servers db) ?N (next_snapshot db)"
    unfolding snapshots_ok_def
  proof (intro conjI ballI)
    show "distinct (map en_ID ?N)" using d(3) by (simp add: snapshots_ok_def)
    have "map en_Server ?N = map en_Server (db_snapshots db)"
      by (rule map_replace_row_same) (use same eq in auto)
    then show "distinct (map en_Server ?N)" using d(3) by (simp add: snapshots_ok_def)
    fix x assume "x \<in> set ?N"
    then have "x = ?s \<or> x \<in> set (db_snapshots db)" by (auto dest: set_replace_row)
    with d(3) mem eq show "en_ID x < next_snapshot db" "en_Server x \<in> es_ID ` set (db_servers db)"
      by (auto simp: snapshots_ok_def)
  qed
  with d Some show ?thesis by (simp add: snapshot_update_save_def db_ok_def next_defs Let_def)
qed

lemma alert_create_ok:
  assumes "db_ok db"
  shows "db_ok (snd (alert_create_save env now rule fp v status labels notified db))"
proof (cases "alert_create_check env rule fp status")
  case (Some e)
  with assms show ?thesis by (simp add: alert_create_save_def)
next
  case None
  then have "rule \<noteq> []" "fp \<noteq> []" "status \<in> set alert_statuses"
    by (simp_all add: alert_create_check_def first_error_None validator_facts)
  with None db_okD [OF assms] show ?thesis
    by (auto simp: alert_create_save_def list_ex_iff db_ok_def next_defs Let_def split: prod.splits)
      (force simp: alerts_ok_def)+
qed

lemma alert_update_ok:
  assumes "db_ok db"
  shows "db_ok (snd (alert_update_save now i v status labels notified db))"
proof (cases "validated ''AlertState.status'' (enum_value ''alertstate'' alert_statuses) status = None \<and>
    find (\<lambda>a. ea_ID a = i) (db_alerts db) \<noteq> None")
  case False
  then have "snd (alert_update_save now i v status labels notified db) = db"
    by (auto simp only: alert_update_save_def de_Morgan_conj split: option.split) simp_all
  with assms show ?thesis by simp
next
  case True
  then obtain a where chk: "\<forall>s. status = Some s \<longrightarrow> s \<in> set alert_statuses"
    and a: "find (\<lambda>a. ea_ID a = i) (db_alerts db) = Some a"
    by (auto simp: validator_facts)
  let ?a = "set_opt status (\<lambda>v a. a\<lparr>ea_Status := v\<rparr>)
      (set_opt labels (\<lambda>v a. a\<lparr>ea_Labels := Some v\<rparr>)
      (set_opt notified (\<lambda>v a. a\<lparr>ea_LastNotifiedAt := v\<rparr>) (a\<lparr>ea_Value := v, ea_UpdatedAt := now\<rparr>)))"
  let ?A = "replace_row ea_ID ?a (db_alerts db)"
  have eq: "ea_ID ?a = ea_ID a" "ea_RuleName ?a = ea_RuleName a" "ea_Fingerprint ?a = ea_Fingerprint a"
    "ea_Status ?a = (case status of None \<Rightarrow> ea_Status a | Some s \<Rightarrow> s)"
    by (simp_all add: set_opt_def split: option.split)
  from a have mem: "a \<in> set (db_alerts db)" "ea_ID a = i" by (auto simp: find_Some_iff)
  note d = db_okD [OF assms]
  have same: "\<forall>x \<in> set (db_alerts db). ea_ID x = ea_ID ?a \<longrightarrow> x = a"
    using d(4) mem eq by (auto simp: alerts_ok_def distinct_map inj_on_def)
  have "alerts_ok ?A (next_alert db)"
    unfolding alerts_ok_def
  proof (intro conjI ballI)
    show "distinct (map ea_ID ?A)" using d(4) by (simp add: alerts_ok_def)
    have "map (\<lambda>a. (ea_RuleName a, ea_Fingerprint a)) ?A =
        map (\<lambda>a. (ea_RuleName a, ea_Fingerprint a)) (db_alerts db)"
      by (rule map_replace_row_same) (use same eq in auto)
    then show "distinct (map (\<lambda>a. (ea_RuleName a, ea_Fingerprint a)) ?A)"
      using d(4) by (simp add: alerts_ok_def)
    fix x assume "x \<in> set ?A"
    then have "x = ?a \<or> x \<in> set (db_alerts db)" by (auto dest: set_replace_row)
    with d(4) mem eq chk show "ea_ID x < next_alert db" "ea_RuleName x \<noteq> []" "ea_Fingerprint x \<noteq> []"
      "ea_Status x \<in> set alert_statuses"
      by (auto simp: alerts_ok_def split: option.splits)
  qed
  moreover have "validated ''AlertState.status'' (enum_value ''alertstate'' alert_statuses) status = None"
    using chk by (simp add: validator_facts)
  ultimately show ?thesis using d a by (simp add: alert_update_save_def db_ok_def next_defs Let_def)
qed

lemma alert_delete_ok: "db_ok db \<Longrightarrow> db_ok (snd (alert_delete i db))"
  by (auto simp: alert_delete_def db_ok_def next_defs alerts_ok_def distinct_map_filter_row)

end
