(* ===== verification/Storage.thy ===== *)
theory Storage
  imports Ent_Invariant
begin

text \<open>
  internal/storage: the \<open>Store\<close> operations over the tables of \<open>Ent_Tables\<close>. Each operation takes the
  time it reads from the clock and returns its result with the new database. The lemmas show that the
  table invariant survives every sequence of operations, on healthy and on failing drivers; that
  a cursor reads back what was last written for its key and no other key changes (the locale
  \<open>cursor_store\<close>, which the log pipeline and the stream sink build on); and what create,
  update, delete and the upserts do on each branch.
\<close>

section \<open>Values\<close>

record server =
  sv_ID :: int
  sv_Name :: string
  sv_Hostname :: string
  sv_SSHUser :: string
  sv_SSHPort :: int
  sv_SSHKeyPath :: string
  sv_BenchPaths :: "string list"
  sv_Labels :: labels
  sv_Status :: string
  sv_LastPingedAt :: "time option"
  sv_LastError :: string
  sv_CreatedAt :: time
  sv_UpdatedAt :: time

record new_server =
  ns_Name :: string
  ns_Hostname :: string
  ns_SSHUser :: string
  ns_SSHPort :: int
  ns_SSHKeyPath :: string
  ns_BenchPaths :: "string list option"
  ns_Labels :: "labels option"

record update_server =
  up_Name :: "string option"
  up_Hostname :: "string option"
  up_SSHUser :: "string option"
  up_SSHPort :: "int option"
  up_SSHKeyPath :: "string option"
  up_BenchPaths :: "string list option"
  up_Labels :: "labels option"

record log_cursor =
  lc_ServerID :: int
  lc_LogPath :: string
  lc_ByteOffset :: int
  lc_LastSeenAt :: time

record system_snapshot =
  ss_ServerID :: int
  ss_CapturedAt :: time
  ss_Payload :: "string option"
  ss_LastError :: string

record 'f alert_state =
  as_ID :: int
  as_RuleName :: string
  as_Fingerprint :: string
  as_Labels :: "labels option"
  as_Status :: string
  as_Value :: 'f
  as_FirstFiredAt :: time
  as_LastNotifiedAt :: time
  as_UpdatedAt :: time

definition err_not_found :: go_error where
  "err_not_found = \<lparr>err_chain = [ErrNotFound], err_msg = ''storage: not found''\<rparr>"

definition err_duplicate_hostname :: go_error where
  "err_duplicate_hostname =
     \<lparr>err_chain = [ErrDuplicateHostname], err_msg = ''storage: hostname already exists''\<rparr>"

definition ent_to_server :: "ent_server \<Rightarrow> server" where
  "ent_to_server e =
     \<lparr>sv_ID = es_ID e, sv_Name = es_Name e, sv_Hostname = es_Hostname e,
      sv_SSHUser = es_SSHUser e, sv_SSHPort = es_SSHPort e, sv_SSHKeyPath = es_SSHKeyPath e,
      sv_BenchPaths = (case es_BenchPaths e of None \<Rightarrow> [] | Some ps \<Rightarrow> ps),
      sv_Labels = (case es_Labels e of None \<Rightarrow> [] | Some l \<Rightarrow> l),
      sv_Status = es_Status e, sv_LastPingedAt = es_LastPingedAt e, sv_LastError = es_LastError e,
      sv_CreatedAt = es_CreatedAt e, sv_UpdatedAt = es_UpdatedAt e\<rparr>"

definition ent_to_alert_state :: "'f ent_alert \<Rightarrow> 'f alert_state" where
  "ent_to_alert_state e =
     \<lparr>as_ID = ea_ID e, as_RuleName = ea_RuleName e, as_Fingerprint = ea_Fingerprint e,
      as_Labels = Some (case ea_Labels e of None \<Rightarrow> [] | Some l \<Rightarrow> l),
      as_Status = ea_Status e, as_Value = ea_Value e, as_FirstFiredAt = ea_FirstFiredAt e,
      as_LastNotifiedAt = ea_LastNotifiedAt e, as_UpdatedAt = ea_UpdatedAt e\<rparr>"

definition first_non_empty :: "string \<Rightarrow> string \<Rightarrow> string" where
  "first_non_empty a b = (if a \<noteq> [] then a else b)"

section \<open>Servers\<close>

definition is_unique_hostname_violation :: "go_error \<Rightarrow> bool" where
  "is_unique_hostname_violation e \<longleftrightarrow>
     errors_is e ConstraintErr \<and> contains (err_msg e) ''hostname''"

definition create_server :: "sql_env \<Rightarrow> time \<Rightarrow> new_server \<Rightarrow> 'f db \<Rightarrow> server result \<times> 'f db" where
  "create_server env now inp = driver (\<lambda>db.
     (let mut = empty_mutation\<lparr>mu_Name := Some (ns_Name inp), mu_Hostname := Some (ns_Hostname inp),
            mu_SSHUser := Some (ns_SSHUser inp), mu_SSHPort := Some (ns_SSHPort inp),
            mu_SSHKeyPath := Some (ns_SSHKeyPath inp), mu_Labels := ns_Labels inp,
            mu_BenchPaths := ns_BenchPaths inp\<rparr>
      in case server_create_save env now mut db of
           (Inl e, db') \<Rightarrow>
             (Inl (if is_unique_hostname_violation e then err_duplicate_hostname else e), db')
         | (Inr row, db') \<Rightarrow> (Inr (ent_to_server row), db')))"

definition get_server :: "int \<Rightarrow> 'f db \<Rightarrow> server result \<times> 'f db" where
  "get_server i = driver (\<lambda>db.
     (case find (\<lambda>r. es_ID r = i) (db_servers db) of
        None \<Rightarrow> (Inl err_not_found, db)
      | Some r \<Rightarrow> (Inr (ent_to_server r), db)))"

definition list_servers :: "'f db \<Rightarrow> server list result \<times> 'f db" where
  "list_servers = driver (\<lambda>db. (Inr (map ent_to_server (db_servers db)), db))"

definition update_server :: "sql_env \<Rightarrow> time \<Rightarrow> int \<Rightarrow> update_server \<Rightarrow> 'f db \<Rightarrow> server result \<times> 'f db" where
  "update_server env now i inp = driver (\<lambda>db.
     (let mut = empty_mutation\<lparr>mu_Name := up_Name inp, mu_Hostname := up_Hostname inp,
            mu_SSHUser := up_SSHUser inp, mu_SSHPort := up_SSHPort inp,
            mu_SSHKeyPath := up_SSHKeyPath inp, mu_Labels := up_Labels inp,
            mu_BenchPaths := up_BenchPaths inp\<rparr>
      in case server_update_save env now i mut db of
           (Inl e, db') \<Rightarrow>
             (Inl (if errors_is e EntNotFound then err_not_found
                   else if is_unique_hostname_violation e then err_duplicate_hostname else e), db')
         | (Inr row, db') \<Rightarrow> (Inr (ent_to_server row), db')))"

definition delete_server :: "sql_env \<Rightarrow> int \<Rightarrow> 'f db \<Rightarrow> unit result \<times> 'f db" where
  "delete_server env i = driver (\<lambda>db.
     (case server_delete env i db of
        (Inl e, db') \<Rightarrow> (Inl (if errors_is e EntNotFound then err_not_found else e), db')
      | (Inr u, db') \<Rightarrow> (Inr u, db')))"

definition set_server_status ::
  "sql_env \<Rightarrow> time \<Rightarrow> int \<Rightarrow> string \<Rightarrow> string \<Rightarrow> 'f db \<Rightarrow> unit result \<times> 'f db" where
  "set_server_status env now i status last_err = driver (\<lambda>db.
     (case server_update_save env now i
          (empty_mutation\<lparr>mu_Status := Some status, mu_LastPingedAt := Some now,
             mu_LastError := Some last_err\<rparr>) db of
        (Inl e, db') \<Rightarrow> (Inl (if errors_is e EntNotFound then err_not_found else e), db')
      | (Inr _, db') \<Rightarrow> (Inr (), db')))"

section \<open>Log cursors\<close>

definition cursor_rows :: "'f db \<Rightarrow> int \<Rightarrow> string \<Rightarrow> ent_cursor list" where
  "cursor_rows db server path =
     filter (\<lambda>c. ec_LogPath c = path \<and> ec_Server c = server) (db_cursors db)"

definition get_log_cursor :: "int \<Rightarrow> string \<Rightarrow> 'f db \<Rightarrow> log_cursor result \<times> 'f db" where
  "get_log_cursor server path = driver (\<lambda>db.
     (case only_row ''log_cursor'' (cursor_rows db server path) of
        Inl e \<Rightarrow> (Inl (if errors_is e EntNotFound then err_not_found else e), db)
      | Inr c \<Rightarrow>
          (Inr \<lparr>lc_ServerID = server, lc_LogPath = ec_LogPath c, lc_ByteOffset = ec_ByteOffset c,
                 lc_LastSeenAt = ec_LastSeenAt c\<rparr>, db)))"

definition upsert_log_cursor :: "sql_env \<Rightarrow> time \<Rightarrow> log_cursor \<Rightarrow> 'f db \<Rightarrow> unit result \<times> 'f db" where
  "upsert_log_cursor env now c = driver (\<lambda>db.
     (case only_row ''log_cursor'' (cursor_rows db (lc_ServerID c) (lc_LogPath c)) of
        Inr r \<Rightarrow> cursor_update_save env now (ec_ID r) (lc_ByteOffset c) db
      | Inl e \<Rightarrow>
          if errors_is e EntNotFound
          then cursor_create_save env now (lc_LogPath c) (lc_ByteOffset c) (lc_ServerID c) db
          else (Inl e, db)))"

section \<open>System snapshots\<close>

definition snapshot_rows :: "'f db \<Rightarrow> int \<Rightarrow> ent_snapshot list" where
  "snapshot_rows db server = filter (\<lambda>s. en_Server s = server) (db_snapshots db)"

definition get_system_snapshot :: "int \<Rightarrow> 'f db \<Rightarrow> system_snapshot result \<times> 'f db" where
  "get_system_snapshot server = driver (\<lambda>db.
     (case only_row ''system_snapshot'' (snapshot_rows db server) of
        Inl e \<Rightarrow> (Inl (if errors_is e EntNotFound then err_not_found else e), db)
      | Inr s \<Rightarrow>
          (Inr \<lparr>ss_ServerID = server, ss_CapturedAt = en_CapturedAt s,
                 ss_Payload = Some (en_Payload s), ss_LastError = en_LastError s\<rparr>, db)))"

definition upsert_system_snapshot ::
  "sql_env \<Rightarrow> time \<Rightarrow> system_snapshot \<Rightarrow> 'f db \<Rightarrow> unit result \<times> 'f db" where
  "upsert_system_snapshot env now inp = driver (\<lambda>db.
     (case only_row ''system_snapshot'' (snapshot_rows db (ss_ServerID inp)) of
        Inr s \<Rightarrow>
          (let len = (case ss_Payload inp of None \<Rightarrow> 0 | Some p \<Rightarrow> length p)
           in snapshot_update_save now (en_ID s)
                (if 0 < len then ss_Payload inp else None) (ss_LastError inp) db)
      | Inl e \<Rightarrow>
          if errors_is e EntNotFound
          then snapshot_create_save env now (ss_Payload inp) (ss_LastError inp) (ss_ServerID inp) db
          else (Inl e, db)))"

section \<open>Alert states\<close>

definition list_alert_states_by_rule :: "string \<Rightarrow> 'f db \<Rightarrow> 'f alert_state list result \<times> 'f db" where
  "list_alert_states_by_rule rule = driver (\<lambda>db.
     (Inr (map ent_to_alert_state (filter (\<lambda>a. ea_RuleName a = rule) (db_alerts db))), db))"

definition list_alert_states :: "'f db \<Rightarrow> 'f alert_state list result \<times> 'f db" where
  "list_alert_states = driver (\<lambda>db. (Inr (map ent_to_alert_state (db_alerts db)), db))"

definition alert_rows :: "'f db \<Rightarrow> string \<Rightarrow> string \<Rightarrow> 'f ent_alert list" where
  "alert_rows db rule fp =
     filter (\<lambda>a. ea_RuleName a = rule \<and> ea_Fingerprint a = fp) (db_alerts db)"

definition upsert_alert_state ::
  "sql_env \<Rightarrow> time \<Rightarrow> 'f alert_state \<Rightarrow> 'f db \<Rightarrow> 'f alert_state result \<times> 'f db" where
  "upsert_alert_state env now inp = driver (\<lambda>db.
     (let notified = (if as_LastNotifiedAt inp = zero_time then None else Some (as_LastNotifiedAt inp));
          res = (case only_row ''alert_state'' (alert_rows db (as_RuleName inp) (as_Fingerprint inp)) of
              Inr a \<Rightarrow>
                alert_update_save now (ea_ID a) (as_Value inp)
                  (if as_Status inp \<noteq> [] then Some (as_Status inp) else None) (as_Labels inp) notified db
            | Inl e \<Rightarrow>
                if errors_is e EntNotFound
                then alert_create_save env now (as_RuleName inp) (as_Fingerprint inp) (as_Value inp)
                       (first_non_empty (as_Status inp) ''firing'') (as_Labels inp) notified db
                else (Inl e, db))
      in case res of
           (Inl e, db') \<Rightarrow> (Inl e, db')
         | (Inr row, db') \<Rightarrow> (Inr (ent_to_alert_state row), db')))"

definition delete_alert_state :: "int \<Rightarrow> 'f db \<Rightarrow> unit result \<times> 'f db" where
  "delete_alert_state i = driver (\<lambda>db.
     (case alert_delete i db of
        (Inl e, db') \<Rightarrow> (Inl (if errors_is e EntNotFound then err_not_found else e), db')
      | (Inr u, db') \<Rightarrow> (Inr u, db')))"


section \<open>The invariant survives every operation\<close>

datatype 'f store_op =
    CreateServer new_server
  | GetServer int
  | ListServers
  | UpdateServer int update_server
  | DeleteServer int
  | SetServerStatus int string string
  | GetLogCursor int string
  | UpsertLogCursor log_cursor
  | ListAlertStatesByRule string
  | ListAlertStates
  | UpsertAlertState "'f alert_state"
  | DeleteAlertState int
  | GetSystemSnapshot int
  | UpsertSystemSnapshot system_snapshot

fun store_step :: "sql_env \<Rightarrow> time \<times> 'f store_op \<Rightarrow> 'f db \<Rightarrow> 'f db" where
  "store_step env (now, CreateServer inp) db = snd (create_server env now inp db)"
| "store_step env (now, GetServer i) db = snd (get_server i db)"
| "store_step env (now, ListServers) db = snd (list_servers db)"
| "store_step env (now, UpdateServer i inp) db = snd (update_server env now i inp db)"
| "store_step env (now, DeleteServer i) db = snd (delete_server env i db)"
| "store_step env (now, SetServerStatus i st e) db = snd (set_server_status env now i st e db)"
| "store_step env (now, GetLogCursor i p) db = snd (get_log_cursor i p db)"
| "store_step env (now, UpsertLogCursor c) db = snd (upsert_log_cursor env now c db)"
| "store_step env (now, ListAlertStatesByRule r) db = snd (list_alert_states_by_rule r db)"
| "store_step env (now, ListAlertStates) db = snd (list_alert_states db)"
| "store_step env (now, UpsertAlertState a) db = snd (upsert_alert_state env now a db)"
| "store_step env (now, DeleteAlertState i) db = snd (delete_alert_state i db)"
| "store_step env (now, GetSystemSnapshot i) db = snd (get_system_snapshot i db)"
| "store_step env (now, UpsertSystemSnapshot s) db = snd (upsert_system_snapshot env now s db)"

lemmas save_ok = server_create_ok server_update_ok server_delete_ok cursor_create_ok cursor_update_ok
  snapshot_create_ok snapshot_update_ok alert_create_ok alert_update_ok alert_delete_ok

lemma snd_case_result: "snd (case p of (Inl e, d) \<Rightarrow> (f e, d) | (Inr x, d) \<Rightarrow> (g x, d)) = snd p"
  by (auto split: prod.split sum.split)

lemmas store_op_defs = create_server_def get_server_def list_servers_def update_server_def
  delete_server_def set_server_status_def get_log_cursor_def upsert_log_cursor_def
  list_alert_states_by_rule_def list_alert_states_def upsert_alert_state_def
  delete_alert_state_def get_system_snapshot_def upsert_system_snapshot_def

lemma store_step_ok: "db_ok db \<Longrightarrow> db_ok (store_step env t db)"
  by (induction env t db rule: store_step.induct)
    (simp_all only: store_step.simps store_op_defs,
     (rule driver_ok, assumption,
      auto simp: Let_def snd_case_result save_ok split: sum.split option.split)+)

text \<open>
  C23. Whatever sequence of store operations runs from an empty database, with whatever arguments,
  clock readings and driver failures, the tables stay consistent: primary keys, hostnames,
  (server, path) pairs, snapshot owners and (rule, fingerprint) pairs are unique, every cursor
  and snapshot belongs to a server, every field passes its validator.
\<close>

theorem store_sequences_ok:
  "db_ok (fold (store_step env) ops (empty_db\<lparr>db_faults := fs\<rparr>))"
proof -
  have "db_ok db \<Longrightarrow> db_ok (fold (store_step env) ops db)" for db :: "'a db"
    by (induction ops arbitrary: db) (simp_all add: store_step_ok)
  then show ?thesis by (simp add: db_ok_empty)
qed

section \<open>Looking a row up by a unique key\<close>

lemma driver_healthy [simp]: "db_faults db = [] \<Longrightarrow> driver op db = op db"
  by (simp add: driver_def)

lemma filter_unique:
  "distinct (map f xs) \<Longrightarrow>
     filter (\<lambda>x. f x = k) xs = (case find (\<lambda>x. f x = k) xs of None \<Rightarrow> [] | Some x \<Rightarrow> [x])"
proof (induction xs)
  case Nil
  then show ?case by simp
next
  case (Cons x xs)
  show ?case
  proof (cases "f x = k")
    case True
    with Cons.prems have "\<forall>y \<in> set xs. f y \<noteq> k" by (auto simp: image_iff)
    then have "filter (\<lambda>x. f x = k) xs = []" by simp
    with True show ?thesis by simp
  next
    case False
    with Cons show ?thesis by simp
  qed
qed

lemma only_row_find:
  "distinct (map f xs) \<Longrightarrow> only_row label (filter (\<lambda>x. f x = k) xs) =
     (case find (\<lambda>x. f x = k) xs of None \<Rightarrow> Inl (ent_not_found label) | Some x \<Rightarrow> Inr x)"
  by (simp add: filter_unique only_row_def split: option.split)

lemma find_append:
  "find P (xs @ ys) = (case find P xs of None \<Rightarrow> find P ys | Some x \<Rightarrow> Some x)"
  by (induction xs) auto

lemma find_replace_row:
  assumes "\<forall>x \<in> set rows. key x = key r \<longrightarrow> f x = f r"
  shows "find (\<lambda>x. f x = k) (replace_row key r rows) =
     map_option (\<lambda>x. if key x = key r then r else x) (find (\<lambda>x. f x = k) rows)"
  using assms by (induction rows) auto

lemma find_by_id: "distinct (map key xs) \<Longrightarrow> x \<in> set xs \<Longrightarrow> find (\<lambda>y. key y = key x) xs = Some x"
proof (induction xs)
  case (Cons y ys)
  then show ?case by (cases "key y = key x") (auto simp: image_iff)
qed simp

lemma find_SomeD: "find P xs = Some x \<Longrightarrow> x \<in> set xs \<and> P x"
  by (auto simp: find_Some_iff)

lemma find_unique:
  "\<lbrakk>x \<in> set xs; P x; \<And>y. \<lbrakk>y \<in> set xs; P y\<rbrakk> \<Longrightarrow> y = x\<rbrakk> \<Longrightarrow> find P xs = Some x"
  by (cases "find P xs") (blast dest: find_None_iff [THEN iffD1], metis find_SomeD)

lemma find_NoneD: "find P xs = None \<Longrightarrow> x \<in> set xs \<Longrightarrow> \<not> P x"
  by (auto simp: find_None_iff)

lemma ent_not_found_is [simp]: "errors_is (ent_not_found l) EntNotFound"
  by (simp add: errors_is_def ent_not_found_def)

lemma not_ent_not_found [simp]:
  "\<not> errors_is (constraint_error m) EntNotFound" "\<not> errors_is (validation_error m) EntNotFound"
  by (simp_all add: errors_is_def constraint_error_def validation_error_def)


section \<open>Cursors\<close>

text \<open>A store of byte offsets per server and log path: what the log pipeline and the stream
  sink rely on. \<open>put\<close> either fails and changes nothing, or makes \<open>get\<close> return the offset for
  that key and leaves every other key alone.\<close>

locale cursor_store =
  fixes get :: "int \<Rightarrow> string \<Rightarrow> 's \<Rightarrow> log_cursor result \<times> 's"
    and put :: "time \<Rightarrow> log_cursor \<Rightarrow> 's \<Rightarrow> unit result \<times> 's"
    and inv :: "'s \<Rightarrow> bool"
  assumes get_pure: "inv s \<Longrightarrow> snd (get i p s) = s"
    and put_inv: "inv s \<Longrightarrow> inv (snd (put now c s))"
    and put_fail: "inv s \<Longrightarrow> fst (put now c s) = Inl e \<Longrightarrow> snd (put now c s) = s"
    and get_put: "inv s \<Longrightarrow> is_ok (fst (put now c s)) \<Longrightarrow>
       \<exists>cur. fst (get (lc_ServerID c) (lc_LogPath c) (snd (put now c s))) = Inr cur \<and>
         lc_ByteOffset cur = lc_ByteOffset c"
    and get_other: "inv s \<Longrightarrow> (i, p) \<noteq> (lc_ServerID c, lc_LogPath c) \<Longrightarrow>
       fst (get i p (snd (put now c s))) = fst (get i p s)"

text \<open>The offset a reader starts from: an absent cursor counts as 0.\<close>

definition stored_offset ::
  "(int \<Rightarrow> string \<Rightarrow> 's \<Rightarrow> log_cursor result \<times> 's) \<Rightarrow> int \<Rightarrow> string \<Rightarrow> 's \<Rightarrow> int" where
  "stored_offset get i p s = (case fst (get i p s) of Inl _ \<Rightarrow> 0 | Inr c \<Rightarrow> lc_ByteOffset c)"

context cursor_store
begin

lemma offset_put:
  "inv s \<Longrightarrow> is_ok (fst (put now c s)) \<Longrightarrow>
     stored_offset get i p (snd (put now c s)) =
       (if (i, p) = (lc_ServerID c, lc_LogPath c) then lc_ByteOffset c else stored_offset get i p s)"
  using get_put [of s now c] get_other [of s i p c now] by (auto simp: stored_offset_def)

lemma offset_put_fail:
  "inv s \<Longrightarrow> \<not> is_ok (fst (put now c s)) \<Longrightarrow> stored_offset get i p (snd (put now c s)) = stored_offset get i p s"
  using put_fail [of s now c] by (cases "fst (put now c s)") auto

text \<open>A caller that only ever raises a key's offset never lowers what is stored.\<close>

lemma offset_put_mono:
  assumes "inv s" "stored_offset get (lc_ServerID c) (lc_LogPath c) s \<le> lc_ByteOffset c"
  shows "stored_offset get i p s \<le> stored_offset get i p (snd (put now c s))"
  using assms offset_put [of s now c i p] offset_put_fail [of s now c i p]
  by (cases "is_ok (fst (put now c s))") auto

end

definition cursor_key :: "ent_cursor \<Rightarrow> int \<times> string" where
  "cursor_key c = (ec_Server c, ec_LogPath c)"

lemma distinct_cursor_keys: "db_ok db \<Longrightarrow> distinct (map cursor_key (db_cursors db))"
  unfolding cursor_key_def by (simp add: db_ok_def cursors_ok_def)

definition healthy :: "'f db \<Rightarrow> bool" where
  "healthy db \<longleftrightarrow> db_ok db \<and> db_faults db = []"

lemma get_log_cursor_find:
  assumes "healthy db"
  shows "get_log_cursor i p db =
     ((case find (\<lambda>c. cursor_key c = (i, p)) (db_cursors db) of
         None \<Rightarrow> Inl err_not_found
       | Some c \<Rightarrow> Inr \<lparr>lc_ServerID = i, lc_LogPath = p, lc_ByteOffset = ec_ByteOffset c,
                         lc_LastSeenAt = ec_LastSeenAt c\<rparr>), db)"
proof -
  have rows: "cursor_rows db i p = filter (\<lambda>c. cursor_key c = (i, p)) (db_cursors db)"
    by (auto simp: cursor_rows_def cursor_key_def intro!: filter_cong)
  have "distinct (map cursor_key (db_cursors db))"
    using assms by (simp add: healthy_def distinct_cursor_keys)
  then have only: "only_row ''log_cursor'' (cursor_rows db i p) =
      (case find (\<lambda>c. cursor_key c = (i, p)) (db_cursors db) of
         None \<Rightarrow> Inl (ent_not_found ''log_cursor'') | Some x \<Rightarrow> Inr x)"
    unfolding rows by (rule only_row_find)
  show ?thesis
  proof (cases "find (\<lambda>c. cursor_key c = (i, p)) (db_cursors db)")
    case None
    then show ?thesis using assms by (simp add: get_log_cursor_def healthy_def only)
  next
    case (Some c)
    then have "ec_LogPath c = p" by (auto simp: cursor_key_def dest!: find_SomeD)
    with Some show ?thesis using assms by (simp add: get_log_cursor_def healthy_def only)
  qed
qed

lemma find_cursor_id:
  assumes "db_ok db" "find (\<lambda>c. cursor_key c = (i, p)) (db_cursors db) = Some r"
  shows "find (\<lambda>c. ec_ID c = ec_ID r) (db_cursors db) = Some r"
  using assms by (auto simp: db_ok_def cursors_ok_def intro!: find_by_id dest!: find_SomeD)

text \<open>An upsert that succeeds, as the list of cursor rows it leaves.\<close>

lemma upsert_log_cursor_rows:
  assumes "healthy db"
  shows "(\<exists>e. upsert_log_cursor env now c db = (Inl e, db)) \<or>
     (\<exists>db'. upsert_log_cursor env now c db = (Inr (), db') \<and> db_faults db' = [] \<and>
        db_servers db' = db_servers db \<and>
        (\<forall>k. find (\<lambda>x. cursor_key x = k) (db_cursors db') =
           (if k = (lc_ServerID c, lc_LogPath c)
            then Some (case find (\<lambda>x. cursor_key x = k) (db_cursors db) of
                None \<Rightarrow> \<lparr>ec_ID = next_cursor db, ec_LogPath = lc_LogPath c,
                   ec_ByteOffset = lc_ByteOffset c, ec_LastSeenAt = now, ec_Server = lc_ServerID c\<rparr>
              | Some x \<Rightarrow> x\<lparr>ec_ByteOffset := lc_ByteOffset c, ec_LastSeenAt := now\<rparr>)
            else find (\<lambda>x. cursor_key x = k) (db_cursors db))))"
proof -
  let ?k = "(lc_ServerID c, lc_LogPath c)"
  have ok: "db_ok db" and nf: "db_faults db = []" using assms by (simp_all add: healthy_def)
  have rows: "cursor_rows db (lc_ServerID c) (lc_LogPath c) =
      filter (\<lambda>x. cursor_key x = ?k) (db_cursors db)"
    by (auto simp: cursor_rows_def cursor_key_def intro!: filter_cong)
  have dist: "distinct (map cursor_key (db_cursors db))" "distinct (map ec_ID (db_cursors db))"
    using ok by (simp_all add: distinct_cursor_keys) (simp add: db_ok_def cursors_ok_def)
  show ?thesis
  proof (cases "find (\<lambda>x. cursor_key x = ?k) (db_cursors db)")
    case None
    have "upsert_log_cursor env now c db =
        cursor_create_save env now (lc_LogPath c) (lc_ByteOffset c) (lc_ServerID c) db"
      using nf None by (simp add: upsert_log_cursor_def rows only_row_find [OF dist(1)])
    then show ?thesis
      using None nf
      by (auto simp: cursor_create_save_def find_append cursor_key_def next_cursor_def Let_def
          split: option.splits prod.splits)
  next
    case (Some r)
    have same: "\<forall>x \<in> set (db_cursors db). ec_ID x = ec_ID r \<longrightarrow> x = r"
      using dist(2) find_SomeD [OF Some] by (auto simp: distinct_map inj_on_def)
    have "upsert_log_cursor env now c db = cursor_update_save env now (ec_ID r) (lc_ByteOffset c) db"
      using nf Some by (simp add: upsert_log_cursor_def rows only_row_find [OF dist(1)])
    moreover have "find (\<lambda>x. cursor_key x = k)
        (replace_row ec_ID (r\<lparr>ec_ByteOffset := lc_ByteOffset c, ec_LastSeenAt := now\<rparr>) (db_cursors db)) =
        (if k = ?k then Some (r\<lparr>ec_ByteOffset := lc_ByteOffset c, ec_LastSeenAt := now\<rparr>)
         else find (\<lambda>x. cursor_key x = k) (db_cursors db))" for k
    proof -
      have eq: "find (\<lambda>x. cursor_key x = k)
          (replace_row ec_ID (r\<lparr>ec_ByteOffset := lc_ByteOffset c, ec_LastSeenAt := now\<rparr>) (db_cursors db)) =
        map_option (\<lambda>x. if ec_ID x = ec_ID r then r\<lparr>ec_ByteOffset := lc_ByteOffset c, ec_LastSeenAt := now\<rparr> else x)
          (find (\<lambda>x. cursor_key x = k) (db_cursors db))"
        by (subst find_replace_row) (use same in \<open>auto simp: cursor_key_def\<close>)
      show ?thesis
      proof (cases "find (\<lambda>x. cursor_key x = k) (db_cursors db)")
        case None
        with \<open>find (\<lambda>x. cursor_key x = ?k) (db_cursors db) = Some r\<close> have "k \<noteq> ?k" by auto
        with None eq show ?thesis by simp
      next
        case (Some x)
        note x = find_SomeD [OF this]
        show ?thesis
        proof (cases "ec_ID x = ec_ID r")
          case True
          with same x have "x = r" by simp
          with x find_SomeD [OF \<open>find (\<lambda>x. cursor_key x = ?k) (db_cursors db) = Some r\<close>]
          have "k = ?k" by simp
          with Some eq \<open>x = r\<close> show ?thesis by simp
        next
          case False
          with Some \<open>find (\<lambda>x. cursor_key x = ?k) (db_cursors db) = Some r\<close> have "k \<noteq> ?k" by auto
          with Some eq False show ?thesis by simp
        qed
      qed
    qed
    ultimately show ?thesis
      using Some nf find_cursor_id [OF ok Some]
      by (auto simp: cursor_update_save_def split: option.splits)
  qed
qed

lemma upsert_log_cursor_db_ok: "db_ok db \<Longrightarrow> db_ok (snd (upsert_log_cursor env now c db))"
  using store_step_ok [of db env "(now, UpsertLogCursor c)"] by simp

interpretation ent: cursor_store get_log_cursor "upsert_log_cursor env" healthy
proof
  fix db :: "'f db" and i p now c e
  assume h: "healthy db"
  note get = get_log_cursor_find [OF h]
  note up = upsert_log_cursor_rows [OF h, of env now c]
  have ok': "db_ok (snd (upsert_log_cursor env now c db))"
    using h by (simp add: healthy_def upsert_log_cursor_db_ok)
  show "snd (get_log_cursor i p db) = db" by (simp add: get)
  show h': "healthy (snd (upsert_log_cursor env now c db))"
    using up ok' h by (auto simp: healthy_def)
  show "fst (upsert_log_cursor env now c db) = Inl e \<Longrightarrow> snd (upsert_log_cursor env now c db) = db"
    using up by auto
  note get' = get_log_cursor_find [OF h']
  show "is_ok (fst (upsert_log_cursor env now c db)) \<Longrightarrow>
      \<exists>cur. fst (get_log_cursor (lc_ServerID c) (lc_LogPath c) (snd (upsert_log_cursor env now c db))) = Inr cur \<and>
        lc_ByteOffset cur = lc_ByteOffset c"
    using up by (auto simp: get' split: option.split)
  show "(i, p) \<noteq> (lc_ServerID c, lc_LogPath c) \<Longrightarrow>
      fst (get_log_cursor i p (snd (upsert_log_cursor env now c db))) = fst (get_log_cursor i p db)"
    using up by (auto simp: get get')
qed

text \<open>
  A successful cursor upsert is what the next read of that server and log path returns, and
  no other cursor changes; a failed one changes nothing. (A missing cursor reads as offset 0,
  as the callers treat it.)
\<close>

lemma cursor_reads_back:
  assumes "db_ok db" "db_faults db = []"
  shows "stored_offset get_log_cursor i p (snd (upsert_log_cursor env now c db)) =
     (if is_ok (fst (upsert_log_cursor env now c db)) \<and> i = lc_ServerID c \<and> p = lc_LogPath c
      then lc_ByteOffset c else stored_offset get_log_cursor i p db)"
proof -
  have h: "healthy db" using assms by (simp add: healthy_def)
  show ?thesis
    using ent.offset_put [OF h, of env now c i p] ent.offset_put_fail [OF h, of env now c i p]
    by (cases "is_ok (fst (upsert_log_cursor env now c db))"; cases "(i, p) = (lc_ServerID c, lc_LogPath c)") auto
qed

definition msg_env :: sql_env where
  "msg_env = \<lparr>sql_unique_msg = (\<lambda>c. ''UNIQUE constraint failed: '' @ c),
     sql_fk_msg = ''FOREIGN KEY constraint failed'',
     sql_null_msg = (\<lambda>c. ''NOT NULL constraint failed: '' @ c),
     sql_nil_blob = None, validator_msg = (\<lambda>v. v)\<rparr>"

definition web1 :: new_server where
  "web1 = \<lparr>ns_Name = ''web1'', ns_Hostname = ''h1'', ns_SSHUser = ''u'', ns_SSHPort = 22,
     ns_SSHKeyPath = ''k'', ns_BenchPaths = None, ns_Labels = None\<rparr>"

definition db1 :: "unit db" where
  "db1 = snd (create_server msg_env 5 web1 empty_db)"

lemma db1_eq: "db1 = empty_db\<lparr>db_servers := [\<lparr>es_ID = 1, es_Name = ''web1'', es_Hostname = ''h1'',
     es_SSHUser = ''u'', es_SSHPort = 22, es_SSHKeyPath = ''k'', es_BenchPaths = None,
     es_Labels = None, es_Status = ''unknown'', es_LastPingedAt = None, es_LastError = [],
     es_CreatedAt = 5, es_UpdatedAt = 5\<rparr>], db_next := (2, 1, 1, 1)\<rparr>"
  by (simp add: db1_def create_server_def empty_db_def server_create_save_def web1_def
      server_create_defaults_def or_default_def empty_mutation_def server_create_check_def
      required_def validated_def not_empty_def at_least_def enum_value_def server_statuses_def
      next_server_def Let_def)

lemma db1_healthy: "db_ok db1" "db_faults db1 = []"
proof -
  have "db1 = store_step msg_env (5, CreateServer web1) empty_db" by (simp add: db1_def)
  then show "db_ok db1" using store_step_ok [OF db_ok_empty] by metis
  show "db_faults db1 = []" by (simp add: db1_eq empty_db_def)
qed

definition cursor1 :: log_cursor where
  "cursor1 = \<lparr>lc_ServerID = 1, lc_LogPath = ''/l'', lc_ByteOffset = 42, lc_LastSeenAt = 0\<rparr>"

lemma upsert_cursor1: "fst (upsert_log_cursor msg_env 9 cursor1 db1) = Inr ()"
  by (simp add: upsert_log_cursor_def db1_eq empty_db_def cursor1_def cursor_rows_def only_row_def
      cursor_create_save_def cursor_check_def validated_def not_empty_def at_least_def)

lemma cursor_reads_back_witness:
  "stored_offset get_log_cursor 1 ''/l'' (snd (upsert_log_cursor msg_env 9 cursor1 db1)) = 42"
  using cursor_reads_back [OF db1_healthy, of 1 "''/l''" msg_env 9 cursor1] upsert_cursor1
  by (simp add: cursor1_def)


section \<open>Server status\<close>

definition server_of :: "'f db \<Rightarrow> int \<Rightarrow> ent_server option" where
  "server_of db i = find (\<lambda>r. es_ID r = i) (db_servers db)"

lemma server_ofD: "server_of db i = Some r \<Longrightarrow> r \<in> set (db_servers db) \<and> es_ID r = i"
  by (auto simp: server_of_def dest!: find_SomeD)

lemma get_server_healthy:
  "healthy db \<Longrightarrow> get_server i db =
     ((case server_of db i of None \<Rightarrow> Inl err_not_found | Some r \<Rightarrow> Inr (ent_to_server r)), db)"
  by (simp add: get_server_def healthy_def server_of_def split: option.split)

text \<open>A status write touches status, error, ping and update time of its row and nothing else.\<close>

definition status_row :: "time \<Rightarrow> string \<Rightarrow> string \<Rightarrow> ent_server \<Rightarrow> ent_server" where
  "status_row now status err r =
     r\<lparr>es_Status := status, es_LastPingedAt := Some now, es_LastError := err, es_UpdatedAt := now\<rparr>"

lemma set_status_healthy:
  assumes "healthy db" "server_of db i = Some r" "status \<in> set server_statuses"
  shows "\<exists>db'. set_server_status env now i status err db = (Inr (), db') \<and> healthy db' \<and>
     server_of db' i = Some (status_row now status err r) \<and> db_cursors db' = db_cursors db \<and>
     db_snapshots db' = db_snapshots db \<and> db_alerts db' = db_alerts db"
proof -
  let ?m = "empty_mutation\<lparr>mu_Status := Some status, mu_LastPingedAt := Some now, mu_LastError := Some err\<rparr>"
  let ?r = "status_row now status err r"
  let ?db = "db\<lparr>db_servers := replace_row es_ID ?r (db_servers db)\<rparr>"
  have ok: "db_ok db" and nf: "db_faults db = []" using assms(1) by (simp_all add: healthy_def)
  note r = server_ofD [OF assms(2)]
  have chk: "server_update_check env ?m = None"
    using assms(3) by (simp add: server_update_check_def first_error_None validator_facts empty_mutation_def)
  have row: "apply_mutation now ?m r = ?r"
    by (simp add: apply_mutation_def set_opt_def empty_mutation_def status_row_def)
  have "distinct (map es_Hostname (db_servers db))" "distinct (map es_ID (db_servers db))"
    using ok by (simp_all add: db_ok_def servers_ok_def)
  then have uniq: "\<not> list_ex (\<lambda>x. es_ID x \<noteq> i \<and> es_Hostname x = es_Hostname ?r) (db_servers db)"
    using r by (auto simp: list_ex_iff status_row_def distinct_map inj_on_def)
  have up: "set_server_status env now i status err db = (Inr (), ?db)"
    using assms(2) nf chk uniq
    by (simp add: set_server_status_def server_update_save_def row server_of_def Let_def)
  have "db_ok ?db"
    using store_step_ok [OF ok, of env "(now, SetServerStatus i status err)"] by (simp add: up)
  moreover have "server_of ?db i = Some ?r"
    using assms(2) r
    by (simp add: server_of_def find_replace_row) (simp add: status_row_def)
  ultimately show ?thesis using up nf by (simp add: healthy_def)
qed

lemma upsert_log_cursor_succeeds:
  assumes "healthy db" "lc_ServerID c \<in> es_ID ` set (db_servers db)" "lc_LogPath c \<noteq> []" "0 \<le> lc_ByteOffset c"
  shows "is_ok (fst (upsert_log_cursor env now c db))"
proof -
  have ok: "db_ok db" and nf: "db_faults db = []" using assms(1) by (simp_all add: healthy_def)
  have dist: "distinct (map cursor_key (db_cursors db))" by (rule distinct_cursor_keys [OF ok])
  let ?k = "(lc_ServerID c, lc_LogPath c)"
  have rows: "cursor_rows db (lc_ServerID c) (lc_LogPath c) = filter (\<lambda>x. cursor_key x = ?k) (db_cursors db)"
    by (auto simp: cursor_rows_def cursor_key_def intro!: filter_cong)
  have chk: "cursor_check env (Some (lc_LogPath c)) (Some (lc_ByteOffset c)) = None"
    "cursor_check env None (Some (lc_ByteOffset c)) = None"
    using assms by (simp_all add: cursor_check_def first_error_None validator_facts)
  show ?thesis
  proof (cases "find (\<lambda>x. cursor_key x = ?k) (db_cursors db)")
    case None
    then have "\<not> list_ex (\<lambda>x. ec_LogPath x = lc_LogPath c \<and> ec_Server x = lc_ServerID c) (db_cursors db)"
      by (auto simp: list_ex_iff find_None_iff cursor_key_def)
    moreover have "list_ex (\<lambda>r. es_ID r = lc_ServerID c) (db_servers db)"
      using assms(2) by (auto simp: list_ex_iff)
    ultimately show ?thesis
      using None nf chk
      by (simp add: upsert_log_cursor_def rows only_row_find [OF dist] cursor_create_save_def
          Let_def split: prod.split)
  next
    case (Some r)
    with nf chk find_cursor_id [OF ok Some] show ?thesis
      by (simp add: upsert_log_cursor_def rows only_row_find [OF dist] cursor_update_save_def)
  qed
qed

lemma upsert_log_cursor_servers:
  "healthy db \<Longrightarrow> db_servers (snd (upsert_log_cursor env now c db)) = db_servers db"
  using upsert_log_cursor_rows [of db env now c] by auto

section \<open>Deleting a server\<close>

lemma delete_server_effect:
  assumes "db_faults db = []"
  shows "delete_server env i db =
      (if \<not> (\<exists>r \<in> set (db_servers db). es_ID r = i) then (Inl err_not_found, db)
       else if (\<exists>c \<in> set (db_cursors db). ec_Server c = i) \<or> (\<exists>s \<in> set (db_snapshots db). en_Server s = i)
       then (Inl (constraint_error (sql_fk_msg env)), db)
       else (Inr (), db\<lparr>db_servers := filter (\<lambda>r. es_ID r \<noteq> i) (db_servers db)\<rparr>))"
  using assms by (auto simp: delete_server_def server_delete_def list_ex_iff)

text \<open>
  C31. A delete removes the server exactly when no log cursor and no system snapshot refers to it;
  otherwise the foreign keys, declared without a cascade, make it fail and the
  database stays as it was. In particular, once a cycle has stored a cursor for a server,
  deleting that server fails with a constraint error, although the comment on
  \<open>DeleteServer\<close> promises that a cascade removes the cursors.
\<close>

theorem delete_server_blocked:
  assumes "db_ok db" "db_faults db = []"
  shows "delete_server env i db =
      (if \<not> (\<exists>r \<in> set (db_servers db). es_ID r = i) then (Inl err_not_found, db)
       else if (\<exists>c \<in> set (db_cursors db). ec_Server c = i) \<or> (\<exists>s \<in> set (db_snapshots db). en_Server s = i)
       then (Inl (constraint_error (sql_fk_msg env)), db)
       else (Inr (), db\<lparr>db_servers := filter (\<lambda>r. es_ID r \<noteq> i) (db_servers db)\<rparr>)) \<and>
    (\<forall>c now. is_ok (fst (upsert_log_cursor env now c db)) \<longrightarrow>
       fst (delete_server env (lc_ServerID c) (snd (upsert_log_cursor env now c db))) =
         Inl (constraint_error (sql_fk_msg env)))"
proof (intro conjI allI impI)
  show "delete_server env i db =
      (if \<not> (\<exists>r \<in> set (db_servers db). es_ID r = i) then (Inl err_not_found, db)
       else if (\<exists>c \<in> set (db_cursors db). ec_Server c = i) \<or> (\<exists>s \<in> set (db_snapshots db). en_Server s = i)
       then (Inl (constraint_error (sql_fk_msg env)), db)
       else (Inr (), db\<lparr>db_servers := filter (\<lambda>r. es_ID r \<noteq> i) (db_servers db)\<rparr>))"
    by (rule delete_server_effect [OF assms(2)])
next
  fix c now
  assume ok: "is_ok (fst (upsert_log_cursor env now c db))"
  have h: "healthy db" using assms by (simp add: healthy_def)
  define db' where "db' = snd (upsert_log_cursor env now c db)"
  have ok': "db_ok db'" "db_faults db' = []"
    using ent.put_inv [OF h, of env now c] by (simp_all add: db'_def healthy_def)
  obtain x where "find (\<lambda>x. cursor_key x = (lc_ServerID c, lc_LogPath c)) (db_cursors db') = Some x"
    using upsert_log_cursor_rows [OF h, of env now c] ok by (auto simp: db'_def)
  then have x: "x \<in> set (db_cursors db')" "ec_Server x = lc_ServerID c"
    by (auto simp: cursor_key_def dest!: find_SomeD)
  then obtain r where "r \<in> set (db_servers db')" "es_ID r = lc_ServerID c"
    using ok'(1) by (force simp: db_ok_def cursors_ok_def)
  with x ok'(2) show "fst (delete_server env (lc_ServerID c) (snd (upsert_log_cursor env now c db))) =
         Inl (constraint_error (sql_fk_msg env))"
    unfolding db'_def [symmetric]
    by (auto simp: delete_server_def server_delete_def list_ex_iff)
qed

theorem delete_server_blocked_witness:
  "fst (delete_server msg_env 1 db1) = Inr () \<and>
   fst (delete_server msg_env 1 (snd (upsert_log_cursor msg_env 9 cursor1 db1))) =
     Inl (constraint_error ''FOREIGN KEY constraint failed'')"
proof -
  note d = delete_server_blocked [OF db1_healthy, of msg_env 1]
  have "lc_ServerID cursor1 = 1" "sql_fk_msg msg_env = ''FOREIGN KEY constraint failed''"
    by (simp_all add: cursor1_def msg_env_def)
  with d upsert_cursor1
  have "fst (delete_server msg_env 1 (snd (upsert_log_cursor msg_env 9 cursor1 db1))) =
     Inl (constraint_error ''FOREIGN KEY constraint failed'')"
    by (metis is_ok_simps(1))
  moreover have "fst (delete_server msg_env 1 db1) = Inr ()"
    using d by (simp add: db1_eq empty_db_def)
  ultimately show ?thesis by simp
qed


section \<open>Creating a server\<close>

definition valid_new_server :: "new_server \<Rightarrow> bool" where
  "valid_new_server inp \<longleftrightarrow> ns_Name inp \<noteq> [] \<and> ns_Hostname inp \<noteq> [] \<and> 1 \<le> ns_SSHPort inp \<and>
     ns_SSHKeyPath inp \<noteq> []"

lemma create_check_new:
  "server_create_check env (server_create_defaults now (empty_mutation\<lparr>mu_Name := Some n,
      mu_Hostname := Some h, mu_SSHUser := Some u, mu_SSHPort := Some p, mu_SSHKeyPath := Some k,
      mu_Labels := l, mu_BenchPaths := b\<rparr>)) = None \<longleftrightarrow> n \<noteq> [] \<and> h \<noteq> [] \<and> 1 \<le> p \<and> k \<noteq> []"
  by (simp add: server_create_check_def first_error_None validator_facts server_create_defaults_def
      or_default_def empty_mutation_def server_statuses_def)

lemma required_kind: "Some e = required fld v \<Longrightarrow> err_chain e = [ValidationErr]"
  by (simp add: required_def validation_error_def split: option.splits)

lemma validated_kind: "Some e = validated fld f v \<Longrightarrow> err_chain e = [ValidationErr]"
  by (auto simp: validated_def validation_error_def eq_commute [of "Some e"] split: option.splits)

lemma first_error_mem: "first_error es = Some e \<Longrightarrow> Some e \<in> set es"
  by (induction es rule: first_error.induct) auto

lemma server_create_check_kind: "server_create_check env m = Some e \<Longrightarrow> err_chain e = [ValidationErr]"
  unfolding server_create_check_def
  by (drule first_error_mem) (auto dest: required_kind validated_kind)

lemma create_server_effect:
  assumes "db_ok db" "db_faults db = []" "contains (sql_unique_msg env ''servers.hostname'') ''hostname''"
  shows "case create_server env now inp db of
      (Inl e, db') \<Rightarrow> db' = db \<and>
        (if valid_new_server inp
         then e = err_duplicate_hostname \<and> ns_Hostname inp \<in> es_Hostname ` set (db_servers db)
         else errors_is e ValidationErr)
    | (Inr s, db') \<Rightarrow> valid_new_server inp \<and> ns_Hostname inp \<notin> es_Hostname ` set (db_servers db) \<and>
        s = \<lparr>sv_ID = next_server db, sv_Name = ns_Name inp, sv_Hostname = ns_Hostname inp,
             sv_SSHUser = ns_SSHUser inp, sv_SSHPort = ns_SSHPort inp,
             sv_SSHKeyPath = ns_SSHKeyPath inp,
             sv_BenchPaths = (case ns_BenchPaths inp of None \<Rightarrow> [] | Some ps \<Rightarrow> ps),
             sv_Labels = (case ns_Labels inp of None \<Rightarrow> [] | Some l \<Rightarrow> l),
             sv_Status = ''unknown'', sv_LastPingedAt = None, sv_LastError = [],
             sv_CreatedAt = now, sv_UpdatedAt = now\<rparr> \<and>
        get_server (sv_ID s) db' = (Inr s, db') \<and>
        map ent_to_server (db_servers db') = map ent_to_server (db_servers db) @ [s]"
proof -
  let ?mut = "empty_mutation\<lparr>mu_Name := Some (ns_Name inp), mu_Hostname := Some (ns_Hostname inp),
            mu_SSHUser := Some (ns_SSHUser inp), mu_SSHPort := Some (ns_SSHPort inp),
            mu_SSHKeyPath := Some (ns_SSHKeyPath inp), mu_Labels := ns_Labels inp,
            mu_BenchPaths := ns_BenchPaths inp\<rparr>"
  let ?chk = "server_create_check env (server_create_defaults now ?mut)"
  have valid: "?chk = None \<longleftrightarrow> valid_new_server inp"
    by (simp add: create_check_new valid_new_server_def)
  have fresh: "find (\<lambda>r. es_ID r = next_server db) (db_servers db) = None"
    using assms(1) by (auto simp: find_None_iff db_ok_def servers_ok_def)
  have host: "mu_Hostname (server_create_defaults now ?mut) = Some (ns_Hostname inp)"
    by (simp add: server_create_defaults_def)
  show ?thesis
  proof (cases ?chk)
    case (Some e)
    have "err_chain e = [ValidationErr]" by (rule server_create_check_kind [OF Some])
    with Some valid assms(2) show ?thesis
      by (simp add: create_server_def server_create_save_def Let_def is_unique_hostname_violation_def
          errors_is_def)
  next
    case None
    show ?thesis
    proof (cases "ns_Hostname inp \<in> es_Hostname ` set (db_servers db)")
      case True
      then have "list_ex (\<lambda>r. es_Hostname r = ns_Hostname inp) (db_servers db)"
        by (auto simp: list_ex_iff)
      moreover have "is_unique_hostname_violation (constraint_error (sql_unique_msg env ''servers.hostname''))"
        using contains_append [OF assms(3)]
        by (auto simp: is_unique_hostname_violation_def constraint_error_def errors_is_def
            simp del: append_Cons)
      ultimately show ?thesis
        using None valid assms(2) True host
        by (simp add: create_server_def server_create_save_def Let_def)
    next
      case False
      then have "\<not> list_ex (\<lambda>r. es_Hostname r = ns_Hostname inp) (db_servers db)"
        by (force simp: list_ex_iff)
      then show ?thesis
        using None valid assms(2) False host fresh
        by (auto simp: create_server_def server_create_save_def Let_def get_server_def find_append
            ent_to_server_def server_create_defaults_def or_default_def empty_mutation_def
            next_server_def split: prod.splits)
    qed
  qed
qed

text \<open>
  \<open>CreateServer\<close> on a healthy database, when SQLite's unique-constraint message names the
  column: an input with an empty name, hostname or key path or a non-positive port is rejected
  by validation, a taken hostname is reported as the duplicate-hostname sentinel, both
  without any change; otherwise the server it returns has the fresh id, the given
  fields, status unknown and both timestamps, and reading that id returns the same server.
\<close>

lemma create_server_spec:
  assumes "db_ok db" "db_faults db = []" "contains (sql_unique_msg env ''servers.hostname'') ''hostname''"
  shows "case create_server env now inp db of
      (Inl e, db') \<Rightarrow> db' = db \<and>
        (if valid_new_server inp
         then e = err_duplicate_hostname \<and> ns_Hostname inp \<in> es_Hostname ` set (db_servers db)
         else errors_is e ValidationErr)
    | (Inr s, db') \<Rightarrow> valid_new_server inp \<and> ns_Hostname inp \<notin> es_Hostname ` set (db_servers db) \<and>
        s = \<lparr>sv_ID = next_server db, sv_Name = ns_Name inp, sv_Hostname = ns_Hostname inp,
             sv_SSHUser = ns_SSHUser inp, sv_SSHPort = ns_SSHPort inp,
             sv_SSHKeyPath = ns_SSHKeyPath inp,
             sv_BenchPaths = (case ns_BenchPaths inp of None \<Rightarrow> [] | Some ps \<Rightarrow> ps),
             sv_Labels = (case ns_Labels inp of None \<Rightarrow> [] | Some l \<Rightarrow> l),
             sv_Status = ''unknown'', sv_LastPingedAt = None, sv_LastError = [],
             sv_CreatedAt = now, sv_UpdatedAt = now\<rparr> \<and>
        get_server (sv_ID s) db' = (Inr s, db')"
  using create_server_effect [OF assms, where now = now and inp = inp] by (auto split: prod.splits sum.splits)

lemma create_server_spec_witness:
  "\<exists>db'. create_server msg_env 5 web1 (empty_db :: unit db) =
     (Inr (ent_to_server (hd (db_servers db1))), db') \<and>
   get_server 1 db' = (Inr (ent_to_server (hd (db_servers db1))), db')"
proof -
  have c: "contains (sql_unique_msg msg_env ''servers.hostname'') ''hostname''"
    by (simp add: msg_env_def contains_def has_prefix_def)
  have nf: "db_faults (empty_db :: unit db) = []" by (simp add: empty_db_def)
  have valid: "valid_new_server web1" by (simp add: web1_def valid_new_server_def)
  note spec = create_server_spec [OF db_ok_empty nf c, where now = 5 and inp = web1]
  obtain s db' where r: "create_server msg_env 5 web1 (empty_db :: unit db) = (Inr s, db')"
    using spec valid by (auto simp: empty_db_def split: prod.splits sum.splits)
  have "get_server (sv_ID s) db' = (Inr s, db')"
    using spec unfolding r prod.case sum.case by (elim conjE)
  moreover have id: "sv_ID s = next_server (empty_db :: unit db)"
    using spec unfolding r prod.case sum.case by (elim conjE) simp
  moreover from id have "sv_ID s = 1" by (simp add: next_server_def empty_db_def)
  moreover from spec r have "s = ent_to_server (hd (db_servers db1))"
    by (simp add: db1_eq empty_db_def ent_to_server_def web1_def next_server_def)
  ultimately show ?thesis using r by auto
qed


section \<open>System snapshots\<close>

definition snapshot_of :: "'f db \<Rightarrow> int \<Rightarrow> ent_snapshot option" where
  "snapshot_of db i = find (\<lambda>s. en_Server s = i) (db_snapshots db)"

lemma only_snapshot:
  "db_ok db \<Longrightarrow> only_row label (snapshot_rows db i) =
     (case snapshot_of db i of None \<Rightarrow> Inl (ent_not_found label) | Some s \<Rightarrow> Inr s)"
  unfolding snapshot_rows_def snapshot_of_def
  by (rule only_row_find) (simp add: db_ok_def snapshots_ok_def)

lemma snapshot_update_of:
  assumes "db_ok db" "snapshot_of db i = Some s" "en_ID r = en_ID s" "en_Server r = en_Server s"
  shows "find (\<lambda>s. en_ID s = en_ID r) (db_snapshots db) = Some s"
    and "snapshot_of (db\<lparr>db_snapshots := replace_row en_ID r (db_snapshots db)\<rparr>) i = Some r"
proof -
  have ids: "distinct (map en_ID (db_snapshots db))"
    using assms(1) by (simp add: db_ok_def snapshots_ok_def)
  have s: "s \<in> set (db_snapshots db)" "en_Server s = i"
    using assms(2) by (auto simp: snapshot_of_def dest!: find_SomeD)
  show "find (\<lambda>s. en_ID s = en_ID r) (db_snapshots db) = Some s"
    using find_by_id [OF ids s(1)] assms(3) by simp
  have "\<forall>x \<in> set (db_snapshots db). en_ID x = en_ID r \<longrightarrow> en_Server x = en_Server r"
    using ids s assms(3,4) by (auto simp: distinct_map inj_on_def)
  from find_replace_row [OF this, of i]
  show "snapshot_of (db\<lparr>db_snapshots := replace_row en_ID r (db_snapshots db)\<rparr>) i = Some r"
    using assms(2,3) by (simp add: snapshot_of_def)
qed

lemma snapshot_upsert_effect:
  assumes "db_ok db" "db_faults db = []" "snapshot_of db (ss_ServerID inp) = Some s"
  shows "healthy (snd (upsert_system_snapshot env now inp db)) \<and> fst (upsert_system_snapshot env now inp db) = Inr () \<and>
    get_system_snapshot (ss_ServerID inp) (snd (upsert_system_snapshot env now inp db)) =
      (Inr \<lparr>ss_ServerID = ss_ServerID inp, ss_CapturedAt = now,
           ss_Payload = Some (case ss_Payload inp of
               None \<Rightarrow> en_Payload s | Some p \<Rightarrow> if p = [] then en_Payload s else p),
           ss_LastError = ss_LastError inp\<rparr>, snd (upsert_system_snapshot env now inp db))"
proof -
  let ?pay = "case ss_Payload inp of None \<Rightarrow> en_Payload s | Some p \<Rightarrow> if p = [] then en_Payload s else p"
  let ?r = "s\<lparr>en_LastError := ss_LastError inp, en_CapturedAt := now, en_Payload := ?pay\<rparr>"
  have r: "en_ID ?r = en_ID s" "en_Server ?r = en_Server s" by simp_all
  note u = snapshot_update_of [OF assms(1,3) r]
  let ?db = "db\<lparr>db_snapshots := replace_row en_ID ?r (db_snapshots db)\<rparr>"
  have up: "upsert_system_snapshot env now inp db = (Inr (), ?db)"
    using assms u(1)
    by (auto simp: upsert_system_snapshot_def only_snapshot snapshot_update_save_def set_opt_def
        Let_def split: option.split)
  have "db_ok ?db"
    using store_step_ok [OF assms(1), of env "(now, UpsertSystemSnapshot inp)"] by (simp add: up)
  with u(2) assms(2) up show ?thesis
    by (simp add: get_system_snapshot_def only_snapshot healthy_def)
qed

text \<open>
  When a snapshot exists, an upsert always succeeds and replaces its error text and capture time;
  the payload is replaced by a non-empty one and kept otherwise, so a failed refresh
  never loses the last good inventory. The zero-length non-nil payload that the comment offers for
  clearing it is kept out in the same way: no call can clear a payload.
\<close>

lemma snapshot_upsert_payload:
  assumes "db_ok db" "db_faults db = []" "snapshot_of db (ss_ServerID inp) = Some s"
  shows "fst (upsert_system_snapshot env now inp db) = Inr () \<and>
    fst (get_system_snapshot (ss_ServerID inp) (snd (upsert_system_snapshot env now inp db))) =
      Inr \<lparr>ss_ServerID = ss_ServerID inp, ss_CapturedAt = now,
           ss_Payload = Some (case ss_Payload inp of
               None \<Rightarrow> en_Payload s | Some p \<Rightarrow> if p = [] then en_Payload s else p),
           ss_LastError = ss_LastError inp\<rparr>"
  using snapshot_upsert_effect [OF assms, of env now] by simp

definition snap1 :: "string option \<Rightarrow> string \<Rightarrow> system_snapshot" where
  "snap1 payload err = \<lparr>ss_ServerID = 1, ss_CapturedAt = 0, ss_Payload = payload, ss_LastError = err\<rparr>"

definition db2 :: "unit db" where
  "db2 = snd (upsert_system_snapshot msg_env 7 (snap1 (Some ''os'') []) db1)"

lemma db2_ok: "db_ok db2" "db_faults db2 = []" "snapshot_of db2 1 =
    Some \<lparr>en_ID = 1, en_CapturedAt = 7, en_Payload = ''os'', en_LastError = [], en_Server = 1\<rparr>"
proof -
  have "db2 = store_step msg_env (7, UpsertSystemSnapshot (snap1 (Some ''os'') [])) db1"
    by (simp add: db2_def)
  then show "db_ok db2" using store_step_ok [OF db1_healthy(1)] by metis
  show "db_faults db2 = []" "snapshot_of db2 1 =
    Some \<lparr>en_ID = 1, en_CapturedAt = 7, en_Payload = ''os'', en_LastError = [], en_Server = 1\<rparr>"
    by (simp_all add: db2_def db1_eq empty_db_def upsert_system_snapshot_def snap1_def
        snapshot_rows_def only_row_def snapshot_create_save_def snapshot_of_def)
qed

lemma snapshot_upsert_payload_witness:
  "fst (get_system_snapshot 1 (snd (upsert_system_snapshot msg_env 8 (snap1 (Some []) ''ssh'') db2))) =
     Inr \<lparr>ss_ServerID = 1, ss_CapturedAt = 8, ss_Payload = Some ''os'', ss_LastError = ''ssh''\<rparr>"
  using snapshot_upsert_payload [OF db2_ok(1,2), of "snap1 (Some []) ''ssh''" _ msg_env 8] db2_ok(3)
  by (simp add: snap1_def)


section \<open>Alert states\<close>

definition alert_key :: "'f ent_alert \<Rightarrow> string \<times> string" where
  "alert_key a = (ea_RuleName a, ea_Fingerprint a)"

definition alert_of :: "'f db \<Rightarrow> string \<times> string \<Rightarrow> 'f ent_alert option" where
  "alert_of db k = find (\<lambda>a. alert_key a = k) (db_alerts db)"

lemma only_alert:
  assumes "db_ok db"
  shows "only_row label (alert_rows db r fp) =
     (case alert_of db (r, fp) of None \<Rightarrow> Inl (ent_not_found label) | Some a \<Rightarrow> Inr a)"
proof -
  have "alert_rows db r fp = filter (\<lambda>a. alert_key a = (r, fp)) (db_alerts db)"
    by (simp add: alert_rows_def alert_key_def)
  moreover have "distinct (map alert_key (db_alerts db))"
    unfolding alert_key_def using assms by (simp add: db_ok_def alerts_ok_def)
  ultimately show ?thesis by (simp add: alert_of_def only_row_find)
qed

lemma alert_update_of:
  assumes "db_ok db" "alert_of db k = Some a" "ea_ID r = ea_ID a" "alert_key r = alert_key a"
  shows "find (\<lambda>x. ea_ID x = ea_ID a) (db_alerts db) = Some a"
    and "alert_of (db\<lparr>db_alerts := replace_row ea_ID r (db_alerts db)\<rparr>) k' =
       (if k' = k then Some r else alert_of db k')"
proof -
  have ids: "distinct (map ea_ID (db_alerts db))"
    using assms(1) by (simp add: db_ok_def alerts_ok_def)
  have a: "a \<in> set (db_alerts db)" "alert_key a = k"
    using assms(2) by (auto simp: alert_of_def dest!: find_SomeD)
  show "find (\<lambda>x. ea_ID x = ea_ID a) (db_alerts db) = Some a"
    by (rule find_by_id [OF ids a(1)])
  have same: "\<forall>x \<in> set (db_alerts db). ea_ID x = ea_ID r \<longrightarrow> x = a"
    using ids a assms(3) by (auto simp: distinct_map inj_on_def)
  then have "\<forall>x \<in> set (db_alerts db). ea_ID x = ea_ID r \<longrightarrow> alert_key x = alert_key r"
    using assms(4) by auto
  note fr = find_replace_row [OF this, of k']
  show "alert_of (db\<lparr>db_alerts := replace_row ea_ID r (db_alerts db)\<rparr>) k' =
       (if k' = k then Some r else alert_of db k')"
  proof (cases "k' = k")
    case True
    with fr assms(2,3) show ?thesis by (simp add: alert_of_def)
  next
    case False
    have "ea_ID x \<noteq> ea_ID r" if "alert_of db k' = Some x" for x
      using same find_SomeD [OF that [unfolded alert_of_def]] a(2) False by auto
    with fr False show ?thesis
      by (cases "alert_of db k'") (simp_all add: alert_of_def)
  qed
qed

definition valid_alert :: "'f alert_state \<Rightarrow> bool" where
  "valid_alert inp \<longleftrightarrow> as_RuleName inp \<noteq> [] \<and> as_Fingerprint inp \<noteq> [] \<and>
     as_Status inp \<in> set ([] # alert_statuses)"

text \<open>The row an upsert leaves for its key, given the row that was there.\<close>

definition upserted :: "time \<Rightarrow> int \<Rightarrow> 'f alert_state \<Rightarrow> 'f ent_alert option \<Rightarrow> 'f ent_alert" where
  "upserted now fresh inp old =
     (case old of
        None \<Rightarrow> \<lparr>ea_ID = fresh, ea_RuleName = as_RuleName inp, ea_Fingerprint = as_Fingerprint inp,
          ea_Labels = as_Labels inp, ea_Status = first_non_empty (as_Status inp) ''firing'',
          ea_Value = as_Value inp, ea_FirstFiredAt = now,
          ea_LastNotifiedAt = (if as_LastNotifiedAt inp = zero_time then now else as_LastNotifiedAt inp),
          ea_UpdatedAt = now\<rparr>
      | Some a \<Rightarrow> a\<lparr>ea_Value := as_Value inp, ea_UpdatedAt := now,
          ea_Status := first_non_empty (as_Status inp) (ea_Status a),
          ea_Labels := (case as_Labels inp of None \<Rightarrow> ea_Labels a | Some l \<Rightarrow> Some l),
          ea_LastNotifiedAt :=
            (if as_LastNotifiedAt inp = zero_time then ea_LastNotifiedAt a else as_LastNotifiedAt inp)\<rparr>)"

lemma upsert_alert_rows:
  assumes "healthy db" "valid_alert inp"
  shows "\<exists>db'. upsert_alert_state env now inp db =
      (Inr (ent_to_alert_state (upserted now (next_alert db) inp
         (alert_of db (as_RuleName inp, as_Fingerprint inp)))), db') \<and> healthy db' \<and>
    db_servers db' = db_servers db \<and>
    (\<forall>k. alert_of db' k = (if k = (as_RuleName inp, as_Fingerprint inp)
       then Some (upserted now (next_alert db) inp (alert_of db k)) else alert_of db k))"
proof -
  let ?k = "(as_RuleName inp, as_Fingerprint inp)"
  have ok: "db_ok db" and nf: "db_faults db = []" using assms(1) by (simp_all add: healthy_def)
  have ok': "db_ok (snd (upsert_alert_state env now inp db))"
    using store_step_ok [OF ok, of env "(now, UpsertAlertState inp)"] by simp
  show ?thesis
  proof (cases "alert_of db ?k")
    case None
    have "first_non_empty (as_Status inp) ''firing'' \<in> set alert_statuses"
      using assms(2) by (auto simp: valid_alert_def first_non_empty_def alert_statuses_def)
    then have chk: "alert_create_check env (as_RuleName inp) (as_Fingerprint inp)
        (first_non_empty (as_Status inp) ''firing'') = None"
      using assms(2) by (simp add: alert_create_check_def first_error_None validator_facts valid_alert_def)
    have new: "\<not> list_ex (\<lambda>a. ea_RuleName a = as_RuleName inp \<and> ea_Fingerprint a = as_Fingerprint inp) (db_alerts db)"
      using None by (auto simp: list_ex_iff alert_of_def find_None_iff alert_key_def)
    let ?row = "upserted now (next_alert db) inp None"
    have up: "upsert_alert_state env now inp db = (Inr (ent_to_alert_state ?row),
        db\<lparr>db_alerts := db_alerts db @ [?row],
          db_next := (next_server db, next_cursor db, next_snapshot db, next_alert db + 1)\<rparr>)"
      using nf None new chk
      by (auto simp: upsert_alert_state_def only_alert [OF ok] alert_create_save_def upserted_def
          next_defs Let_def split: prod.split)
    have "alert_key ?row = ?k" by (simp add: upserted_def alert_key_def)
    then have "\<forall>k. alert_of (db\<lparr>db_alerts := db_alerts db @ [?row],
          db_next := (next_server db, next_cursor db, next_snapshot db, next_alert db + 1)\<rparr>) k =
        (if k = ?k then Some ?row else alert_of db k)"
      using None by (auto simp: alert_of_def find_append split: option.split)
    with up ok' nf None show ?thesis by (simp add: healthy_def)
  next
    case (Some a)
    let ?row = "upserted now (next_alert db) inp (Some a)"
    have r: "ea_ID ?row = ea_ID a" "alert_key ?row = alert_key a"
      by (simp_all add: upserted_def alert_key_def)
    note u = alert_update_of [OF ok Some r]
    have chk: "validated ''AlertState.status'' (enum_value ''alertstate'' alert_statuses)
        (if as_Status inp \<noteq> [] then Some (as_Status inp) else None) = None"
      using assms(2) by (auto simp: validator_facts valid_alert_def)
    have row: "set_opt (if as_Status inp \<noteq> [] then Some (as_Status inp) else None) (\<lambda>v a. a\<lparr>ea_Status := v\<rparr>)
        (set_opt (as_Labels inp) (\<lambda>v a. a\<lparr>ea_Labels := Some v\<rparr>)
        (set_opt (if as_LastNotifiedAt inp = zero_time then None else Some (as_LastNotifiedAt inp))
           (\<lambda>v a. a\<lparr>ea_LastNotifiedAt := v\<rparr>) (a\<lparr>ea_Value := as_Value inp, ea_UpdatedAt := now\<rparr>))) = ?row"
      by (cases "as_Labels inp") (simp_all add: set_opt_def upserted_def first_non_empty_def)
    have up: "upsert_alert_state env now inp db = (Inr (ent_to_alert_state ?row),
        db\<lparr>db_alerts := replace_row ea_ID ?row (db_alerts db)\<rparr>)"
      using nf Some u(1)
      by (simp add: upsert_alert_state_def only_alert [OF ok] alert_update_save_def chk row Let_def)
    with u(2) ok' nf Some show ?thesis by (simp add: healthy_def)
  qed
qed

text \<open>
  On a healthy database a valid alert upsert always succeeds. It leaves exactly one row for its
  rule and fingerprint and every other row as it was. A new row starts firing now, by
  default; an existing one keeps its id and the time it first fired, and keeps its status,
  labels and notification time where the input leaves them empty.
\<close>

lemma upsert_alert_state_spec:
  assumes "db_ok db" "db_faults db = []" "valid_alert inp"
  shows "\<exists>db'. upsert_alert_state env now inp db =
      (Inr (ent_to_alert_state (upserted now (next_alert db) inp
         (alert_of db (as_RuleName inp, as_Fingerprint inp)))), db') \<and> db_ok db' \<and>
    length (alert_rows db' (as_RuleName inp) (as_Fingerprint inp)) = 1 \<and>
    (\<forall>k. k \<noteq> (as_RuleName inp, as_Fingerprint inp) \<longrightarrow> alert_of db' k = alert_of db k) \<and>
    (\<forall>a. alert_of db (as_RuleName inp, as_Fingerprint inp) = Some a \<longrightarrow>
       (\<exists>b. alert_of db' (as_RuleName inp, as_Fingerprint inp) = Some b \<and>
          ea_ID b = ea_ID a \<and> ea_FirstFiredAt b = ea_FirstFiredAt a))"
proof -
  let ?k = "(as_RuleName inp, as_Fingerprint inp)"
  have h: "healthy db" using assms by (simp add: healthy_def)
  obtain db' where db': "upsert_alert_state env now inp db =
      (Inr (ent_to_alert_state (upserted now (next_alert db) inp (alert_of db ?k))), db')" "healthy db'"
    "\<forall>k. alert_of db' k = (if k = ?k then Some (upserted now (next_alert db) inp (alert_of db k)) else alert_of db k)"
    using upsert_alert_rows [OF h assms(3), of env now] by blast
  have "is_ok (only_row ''alert_state'' (alert_rows db' (as_RuleName inp) (as_Fingerprint inp)))"
    using db' by (simp add: only_alert healthy_def)
  then have "length (alert_rows db' (as_RuleName inp) (as_Fingerprint inp)) = 1"
    by (auto simp: only_row_def split: list.splits)
  with db' show ?thesis by (auto simp: healthy_def upserted_def)
qed

definition alert1 :: "unit alert_state" where
  "alert1 = \<lparr>as_ID = 0, as_RuleName = ''r'', as_Fingerprint = ''f'', as_Labels = None,
     as_Status = [], as_Value = (), as_FirstFiredAt = 0, as_LastNotifiedAt = 3, as_UpdatedAt = 0\<rparr>"

lemma upsert_alert_state_spec_witness:
  "\<exists>db'. upsert_alert_state msg_env 9 alert1 db1 =
      (Inr (ent_to_alert_state (upserted 9 1 alert1 None)), db') \<and>
     length (alert_rows db' ''r'' ''f'') = 1"
proof -
  have "valid_alert alert1" by (simp add: valid_alert_def alert1_def)
  from upsert_alert_state_spec [OF db1_healthy this, of msg_env 9]
  show ?thesis
    by (auto simp: alert1_def alert_of_def db1_eq empty_db_def next_alert_def)
qed

end
