(* ===== verification/Json.thy ===== *)
theory Json
  imports Go_Prelude
begin

text \<open>
  encoding/json as the program uses it to write request and response bodies: values, their
  compact text with the escapes of \<open>json.Marshal\<close> (HTML escaping on), and a reference reader. The
  text of a value reads back as that value (\<open>json_roundtrip\<close>), so no string a value holds can
  change the structure around it. Exact for strings that are valid UTF-8 without the
  separators U+2028 and U+2029, which Marshal escapes too.
\<close>

datatype json =
    JNull
  | JBool bool
  | JInt int
  | JString string
  | JArray "json list"
  | JObject "(string \<times> json) list"

definition json_escape_byte :: "char \<Rightarrow> string" where
  "json_escape_byte c =
     (let n = (of_char c :: nat); bs = CHR 0x5C in
      if n = 34 \<or> n = 92 then [bs, c]
      else if n = 8 then [bs, CHR ''b''] else if n = 12 then [bs, CHR ''f'']
      else if n = 10 then [bs, CHR ''n''] else if n = 13 then [bs, CHR ''r'']
      else if n = 9 then [bs, CHR ''t'']
      else if n < 32 \<or> n = 60 \<or> n = 62 \<or> n = 38
      then [bs, CHR ''u'', CHR ''0'', CHR ''0'', hex_digit (n div 16), hex_digit (n mod 16)]
      else [c])"

definition json_string :: "string \<Rightarrow> string" where
  "json_string s = CHR 0x22 # replace_bytes json_escape_byte s @ [CHR 0x22]"

fun json_text :: "json \<Rightarrow> string" where
  "json_text JNull = ''null''"
| "json_text (JBool b) = (if b then ''true'' else ''false'')"
| "json_text (JInt i) = format_int i"
| "json_text (JString s) = json_string s"
| "json_text (JArray vs) = ''['' @ join '','' (map json_text vs) @ '']''"
| "json_text (JObject kvs) =
     ''{'' @ join '','' (map (\<lambda>kv. json_string (fst kv) @ '':'' @ json_text (snd kv)) kvs) @ ''}''"

section \<open>Reading it back\<close>

definition hex_val :: "char \<Rightarrow> nat option" where
  "hex_val c =
     (let n = (of_char c :: nat) in
      if 48 \<le> n \<and> n \<le> 57 then Some (n - 48)
      else if 97 \<le> n \<and> n \<le> 102 then Some (n - 87) else None)"

text \<open>The rest of a string literal after its opening quote.\<close>

fun read_chars :: "string \<Rightarrow> (string \<times> string) option" where
  "read_chars [] = None"
| "read_chars (c # s) =
     (if c = CHR 0x22 then Some ([], s)
      else if c = CHR 0x5C then
        (case s of
           [] \<Rightarrow> None
         | e # s' \<Rightarrow>
             if e = CHR ''u'' then
               (case s' of
                  _ # _ # a # b # s'' \<Rightarrow>
                    (case (hex_val a, hex_val b) of
                       (Some x, Some y) \<Rightarrow>
                         map_option (\<lambda>(t, r). (char_of (16 * x + y) # t, r)) (read_chars s'')
                     | _ \<Rightarrow> None)
                | _ \<Rightarrow> None)
             else
               (let d = (if e = CHR ''b'' then char_of (8 :: nat) else if e = CHR ''f'' then char_of (12 :: nat)
                         else if e = CHR ''n'' then char_of (10 :: nat) else if e = CHR ''r'' then char_of (13 :: nat)
                         else if e = CHR ''t'' then char_of (9 :: nat) else e)
                in map_option (\<lambda>(t, r). (d # t, r)) (read_chars s')))
      else map_option (\<lambda>(t, r). (c # t, r)) (read_chars s))"

declare read_chars.simps(2) [simp del]

lemma hex_val_digit: "d < 16 \<Longrightarrow> hex_val (hex_digit d) = Some d"
  by (simp add: hex_val_def hex_digit_def)

lemma read_chars_escape:
  "read_chars (json_escape_byte c @ r) = map_option (\<lambda>(t, r). (c # t, r)) (read_chars r)"
proof -
  define n where "n = (of_char c :: nat)"
  have c: "char_of n = c" and lt: "n < 256" by (simp_all add: n_def)
  consider "n = 34 \<or> n = 92" | "n = 8" | "n = 12" | "n = 10" | "n = 13" | "n = 9"
    | "n < 32 \<or> n = 60 \<or> n = 62 \<or> n = 38" "n \<noteq> 8" "n \<noteq> 9" "n \<noteq> 10" "n \<noteq> 12" "n \<noteq> 13"
    | "32 \<le> n" "n \<noteq> 34" "n \<noteq> 92" "n \<noteq> 60" "n \<noteq> 62" "n \<noteq> 38"
    by linarith
  then show ?thesis
  proof cases
    case 1
    then have "(of_char c :: nat) = of_char (CHR 0x22) \<or> (of_char c :: nat) = of_char (CHR 0x5C)"
      by (simp add: n_def)
    then have "c = CHR 0x22 \<or> c = CHR 0x5C" by (simp only: of_char_eq_iff)
    then show ?thesis by (auto simp: json_escape_byte_def read_chars.simps(2) Let_def)
  next
    case 7
    then have esc: "json_escape_byte c = [CHR 0x5C, CHR ''u'', CHR ''0'', CHR ''0'',
        hex_digit (n div 16), hex_digit (n mod 16)]"
      by (auto simp: json_escape_byte_def Let_def simp flip: n_def)
    have "n div 16 < 16" "n mod 16 < 16" "char_of (16 * (n div 16) + n mod 16) = c"
      using lt c by auto
    then show ?thesis
      by (simp add: esc read_chars.simps(2) hex_val_digit del: mult_div_mod_eq)
  next
    case 8
    then have "c \<noteq> CHR 0x22" "c \<noteq> CHR 0x5C" by (auto simp: n_def)
    moreover have "json_escape_byte c = [c]"
      using 8 by (auto simp: json_escape_byte_def Let_def simp flip: n_def)
    ultimately show ?thesis by (simp add: read_chars.simps(2))
  qed (use c in \<open>simp_all add: json_escape_byte_def read_chars.simps(2) flip: c\<close>)
qed

lemma read_chars_string: "read_chars (replace_bytes json_escape_byte s @ CHR 0x22 # r) = Some (s, r)"
  by (induction s) (simp_all add: read_chars_escape read_chars.simps(2))

definition is_num_char :: "char \<Rightarrow> bool" where
  "is_num_char c \<longleftrightarrow> c = CHR ''-'' \<or> digit_val c \<noteq> None"

text \<open>Recursive descent, with fuel for the nesting and the elements.\<close>

fun read_value :: "nat \<Rightarrow> string \<Rightarrow> (json \<times> string) option"
  and read_elems :: "nat \<Rightarrow> string \<Rightarrow> (json list \<times> string) option"
  and read_fields :: "nat \<Rightarrow> string \<Rightarrow> ((string \<times> json) list \<times> string) option" where
  "read_value 0 s = None"
| "read_value (Suc n) s =
     (if s = [] then None
      else if hd s = CHR 0x22 then map_option (\<lambda>(t, r). (JString t, r)) (read_chars (tl s))
      else if has_prefix ''[]'' s then Some (JArray [], drop 2 s)
      else if hd s = CHR ''['' then map_option (\<lambda>(vs, r). (JArray vs, r)) (read_elems n (tl s))
      else if has_prefix ''{}'' s then Some (JObject [], drop 2 s)
      else if hd s = CHR ''{'' then map_option (\<lambda>(kvs, r). (JObject kvs, r)) (read_fields n (tl s))
      else if has_prefix ''null'' s then Some (JNull, drop 4 s)
      else if has_prefix ''true'' s then Some (JBool True, drop 4 s)
      else if has_prefix ''false'' s then Some (JBool False, drop 5 s)
      else (case parse_int64 (takeWhile is_num_char s) of
              Inl _ \<Rightarrow> None | Inr i \<Rightarrow> Some (JInt i, dropWhile is_num_char s)))"
| "read_elems 0 s = None"
| "read_elems (Suc n) s =
     (case read_value n s of
        Some (v, c # r) \<Rightarrow>
          if c = CHR '','' then map_option (\<lambda>(vs, r). (v # vs, r)) (read_elems n r)
          else if c = CHR '']'' then Some ([v], r) else None
      | _ \<Rightarrow> None)"
| "read_fields 0 s = None"
| "read_fields (Suc n) s =
     (if s = [] \<or> hd s \<noteq> CHR 0x22 then None
      else case read_chars (tl s) of
        Some (k, d # r1) \<Rightarrow>
          if d \<noteq> CHR '':'' then None
          else (case read_value n r1 of
                  Some (v, c # r) \<Rightarrow>
                    if c = CHR '','' then map_option (\<lambda>(kvs, r). ((k, v) # kvs, r)) (read_fields n r)
                    else if c = CHR ''}'' then Some ([(k, v)], r) else None
                | _ \<Rightarrow> None)
      | _ \<Rightarrow> None)"

fun json_fuel :: "json \<Rightarrow> nat" where
  "json_fuel (JArray vs) = Suc (sum_list (map (\<lambda>v. Suc (json_fuel v)) vs))"
| "json_fuel (JObject kvs) = Suc (sum_list (map (\<lambda>kv. Suc (json_fuel (snd kv))) kvs))"
| "json_fuel _ = 1"

fun json_ints_ok :: "json \<Rightarrow> bool" where
  "json_ints_ok (JInt i) = is_int64 i"
| "json_ints_ok (JArray vs) = list_all json_ints_ok vs"
| "json_ints_ok (JObject kvs) = list_all (\<lambda>kv. json_ints_ok (snd kv)) kvs"
| "json_ints_ok _ = True"

text \<open>What may follow a value: the end, or a byte that no number contains.\<close>

definition stops :: "string \<Rightarrow> bool" where
  "stops r \<longleftrightarrow> r = [] \<or> \<not> is_num_char (hd r)"

lemma num_chars: "c \<in> set (format_int i) \<Longrightarrow> is_num_char c"
  using format_int_bytes [of c i] by (auto simp: is_num_char_def digit_val_def Let_def)

lemma read_int:
  assumes "is_int64 i" "stops r"
  shows "takeWhile is_num_char (format_int i @ r) = format_int i"
    and "dropWhile is_num_char (format_int i @ r) = r"
proof -
  have "takeWhile is_num_char r = []" "dropWhile is_num_char r = r"
    using assms(2) by (cases r; simp add: stops_def)+
  then show "takeWhile is_num_char (format_int i @ r) = format_int i"
    "dropWhile is_num_char (format_int i @ r) = r"
    using num_chars by (simp_all add: takeWhile_append2 dropWhile_append2)
qed

definition reads :: "json \<Rightarrow> bool" where
  "reads v \<longleftrightarrow> (\<forall>n r. json_fuel v \<le> n \<longrightarrow> stops r \<longrightarrow> read_value n (json_text v @ r) = Some (v, r))"

lemma readsD: "reads v \<Longrightarrow> json_fuel v \<le> n \<Longrightarrow> stops r \<Longrightarrow> read_value n (json_text v @ r) = Some (v, r)"
  by (simp add: reads_def)

lemma stops_delim: "stops (CHR '','' # r)" "stops (CHR '']'' # r)" "stops (CHR ''}'' # r)"
  by (simp_all add: stops_def is_num_char_def digit_val_def)

lemma read_elems_join:
  "vs \<noteq> [] \<Longrightarrow> \<forall>v \<in> set vs. reads v \<Longrightarrow> sum_list (map (\<lambda>v. Suc (json_fuel v)) vs) \<le> n \<Longrightarrow>
     read_elems n (join '','' (map json_text vs) @ CHR '']'' # r) = Some (vs, r)"
proof (induction vs arbitrary: n rule: list_nonempty_induct)
  case (single v)
  then obtain m where n: "n = Suc m" "json_fuel v \<le> m" by (cases n) auto
  have "read_value m (json_text v @ CHR '']'' # r) = Some (v, CHR '']'' # r)"
    using single n stops_delim by (intro readsD) auto
  with n show ?case by simp
next
  case (cons v vs)
  then obtain m where n: "n = Suc m" "json_fuel v \<le> m"
    "sum_list (map (\<lambda>v. Suc (json_fuel v)) vs) \<le> m" by (cases n) auto
  obtain w ws where vs: "vs = w # ws" using cons(1) by (cases vs) auto
  have "read_value m (json_text v @ CHR '','' # join '','' (map json_text vs) @ CHR '']'' # r) =
      Some (v, CHR '','' # join '','' (map json_text vs) @ CHR '']'' # r)"
    using cons n stops_delim by (intro readsD) auto
  with cons n vs show ?case by simp
qed

lemma read_fields_join:
  "kvs \<noteq> [] \<Longrightarrow> \<forall>kv \<in> set kvs. reads (snd kv) \<Longrightarrow>
     sum_list (map (\<lambda>kv. Suc (json_fuel (snd kv))) kvs) \<le> n \<Longrightarrow>
     read_fields n (join '','' (map (\<lambda>kv. json_string (fst kv) @ '':'' @ json_text (snd kv)) kvs) @ CHR ''}'' # r) =
       Some (kvs, r)"
proof (induction kvs arbitrary: n rule: list_nonempty_induct)
  case (single kv)
  obtain k v where kv: "kv = (k, v)" by (cases kv)
  with single obtain m where n: "n = Suc m" "json_fuel v \<le> m" by (cases n) auto
  have "read_value m (json_text v @ CHR ''}'' # r) = Some (v, CHR ''}'' # r)"
    using single n stops_delim kv by (intro readsD) auto
  with n kv show ?case by (simp add: json_string_def read_chars_string)
next
  case (cons kv kvs)
  obtain k v where kv: "kv = (k, v)" by (cases kv)
  from cons kv obtain m where n: "n = Suc m" "json_fuel v \<le> m"
    "sum_list (map (\<lambda>kv. Suc (json_fuel (snd kv))) kvs) \<le> m" by (cases n) auto
  obtain w ws where kvs: "kvs = w # ws" using cons(1) by (cases kvs) auto
  let ?rest = "join '','' (map (\<lambda>kv. json_string (fst kv) @ '':'' @ json_text (snd kv)) kvs) @ CHR ''}'' # r"
  have "read_value m (json_text v @ CHR '','' # ?rest) = Some (v, CHR '','' # ?rest)"
    using cons n stops_delim kv by (intro readsD) auto
  with cons n kv kvs show ?case by (simp add: json_string_def read_chars_string)
qed

lemma json_text_first: "\<exists>c r. json_text v = c # r \<and> c \<noteq> CHR '']'' \<and> c \<noteq> CHR ''}''"
proof (cases v)
  case (JInt i)
  obtain c r where cr: "format_int i = c # r" by (cases "format_int i") auto
  then have "is_num_char c" using num_chars [of c i] by simp
  with JInt cr show ?thesis by (auto simp: is_num_char_def digit_val_def)
qed (simp_all add: json_string_def)

lemma reads_int:
  assumes "is_int64 i"
  shows "reads (JInt i)"
  unfolding reads_def
proof (intro allI impI)
  fix n r
  assume n: "json_fuel (JInt i) \<le> n" and r: "stops r"
  obtain c cs where cr: "format_int i = c # cs" by (cases "format_int i") auto
  then have "is_num_char c" using num_chars [of c i] by simp
  then have "c \<noteq> CHR 0x22" "c \<noteq> CHR ''[''" "c \<noteq> CHR ''{''" "c \<noteq> CHR ''n''" "c \<noteq> CHR ''t''" "c \<noteq> CHR ''f''"
    by (auto simp: is_num_char_def digit_val_def)
  moreover have "parse_int64 (c # cs) = Inr i" using parse_format_int [OF assms] cr by simp
  moreover have "takeWhile is_num_char (c # cs @ r) = c # cs" "dropWhile is_num_char (c # cs @ r) = r"
    using read_int [OF assms r] cr by simp_all
  ultimately show "read_value n (json_text (JInt i) @ r) = Some (JInt i, r)"
    using n cr by (cases n) (simp_all add: has_prefix_Cons del: takeWhile.simps dropWhile.simps)
qed

lemma json_reads: "json_ints_ok v \<Longrightarrow> reads v"
proof (induction v rule: json_text.induct)
  case (3 i)
  then show ?case by (simp add: reads_int)
next
  case (4 s)
  show ?case unfolding reads_def
  proof (intro allI impI)
    fix n r assume "json_fuel (JString s) \<le> n"
    then show "read_value n (json_text (JString s) @ r) = Some (JString s, r)"
      by (cases n) (simp_all add: json_string_def read_chars_string)
  qed
next
  case (5 vs)
  then have all: "\<forall>v \<in> set vs. reads v" by (simp add: list_all_iff)
  show ?case unfolding reads_def
  proof (intro allI impI)
    fix n r assume n: "json_fuel (JArray vs) \<le> n"
    then obtain m where m: "n = Suc m" "sum_list (map (\<lambda>v. Suc (json_fuel v)) vs) \<le> m"
      by (cases n) auto
    show "read_value n (json_text (JArray vs) @ r) = Some (JArray vs, r)"
    proof (cases vs)
      case Nil
      then show ?thesis by (simp add: m has_prefix_Cons)
    next
      case (Cons v ws)
      obtain c q where c: "json_text v = c # q" "c \<noteq> CHR '']''" using json_text_first by metis
      have "join '','' (map json_text vs) = c # drop 1 (join '','' (map json_text vs))"
        using c Cons by (cases ws) simp_all
      then obtain b where "join '','' (map json_text vs) = c # b" by blast
      then have "\<not> has_prefix ''[]'' (CHR ''['' # join '','' (map json_text vs) @ CHR '']'' # r)"
        using c(2) by (simp only: append_Cons has_prefix_Cons(1)) simp
      with read_elems_join [OF _ all m(2), of r] Cons show ?thesis by (simp add: m)
    qed
  qed
next
  case (6 kvs)
  then have all: "\<forall>kv \<in> set kvs. reads (snd kv)" by (simp add: list_all_iff)
  show ?case unfolding reads_def
  proof (intro allI impI)
    fix n r assume n: "json_fuel (JObject kvs) \<le> n"
    then obtain m where m: "n = Suc m" "sum_list (map (\<lambda>kv. Suc (json_fuel (snd kv))) kvs) \<le> m"
      by (cases n) auto
    let ?body = "join '','' (map (\<lambda>kv. json_string (fst kv) @ '':'' @ json_text (snd kv)) kvs)"
    show "read_value n (json_text (JObject kvs) @ r) = Some (JObject kvs, r)"
    proof (cases kvs)
      case Nil
      then show ?thesis by (simp add: m has_prefix_Cons)
    next
      case (Cons kv ws)
      have "?body = CHR 0x22 # drop 1 ?body"
        using Cons by (cases ws) (simp_all add: json_string_def)
      then obtain b where "?body = CHR 0x22 # b" by blast
      then have "\<not> has_prefix ''{}'' (CHR ''{'' # ?body @ CHR ''}'' # r)"
        by (simp only: append_Cons has_prefix_Cons(1)) simp
      with read_fields_join [OF _ all m(2), of r] Cons show ?thesis by (simp add: m has_prefix_Cons)
    qed
  qed
qed (auto simp: reads_def has_prefix_Cons dest!: Suc_le_D)

text \<open>The text of a value, with nothing after it, reads back as the value.\<close>

definition json_parse :: "string \<Rightarrow> json option" where
  "json_parse s =
     (case read_value (Suc (length s)) s of Some (v, []) \<Rightarrow> Some v | _ \<Rightarrow> None)"

lemma json_fuel_pos: "1 \<le> json_fuel v"
  by (cases v) simp_all

lemma length_join: "xs \<noteq> [] \<Longrightarrow> length (join [c] xs) + 1 = sum_list (map (\<lambda>x. Suc (length x)) xs)"
  by (induction xs rule: list_nonempty_induct) (auto simp: neq_Nil_conv)

lemma json_fuel_length: "json_fuel v \<le> length (json_text v)"
proof (induction v rule: json_text.induct)
  case (3 i)
  then show ?case by (cases "format_int i") simp_all
next
  case (5 vs)
  show ?case
  proof (cases "vs = []")
    case False
    have "sum_list (map (\<lambda>v. Suc (json_fuel v)) vs) \<le> sum_list (map (\<lambda>v. Suc (length (json_text v))) vs)"
      using 5 by (intro sum_list_mono) simp
    with length_join [of "map json_text vs" "CHR '',''"] False show ?thesis by (simp add: comp_def)
  qed simp
next
  case (6 kvs)
  show ?case
  proof (cases "kvs = []")
    case False
    let ?f = "\<lambda>kv. json_string (fst kv) @ '':'' @ json_text (snd kv)"
    have "sum_list (map (\<lambda>kv. Suc (json_fuel (snd kv))) kvs) \<le> sum_list (map (\<lambda>kv. Suc (length (?f kv))) kvs)"
      using 6 by (intro sum_list_mono) (simp add: le_SucI trans_le_add2)
    with length_join [of "map ?f kvs" "CHR '',''"] False show ?thesis by (simp add: comp_def)
  qed simp
qed (simp_all add: json_string_def)

lemma json_roundtrip: "json_ints_ok v \<Longrightarrow> json_parse (json_text v) = Some v"
  using readsD [OF json_reads, of v "Suc (length (json_text v))" "[]"] json_fuel_length [of v]
  by (simp add: json_parse_def stops_def)

lemma json_text_inj: "json_ints_ok v \<Longrightarrow> json_ints_ok w \<Longrightarrow> json_text v = json_text w \<longleftrightarrow> v = w"
  using json_roundtrip by (metis option.inject)

end
