(* ===== verification/Logs.thy ===== *)
theory Logs
  imports Http_Client Json
begin

text \<open>
  internal/logs: log entries and streams, and the Loki push client. The push body is the
  JSON value of \<open>encode_streams\<close>; by \<open>Json\<close> its text reads back, so what Loki stores is exactly
  the label sets, timestamps and lines of the streams pushed.
\<close>

record log_entry =
  le_Time :: time
  le_Line :: string

record log_stream =
  ls_Labels :: "string go_map"
  ls_Entries :: "log_entry list"

record loki_client =
  lk_base_url :: string
  lk_timeout :: duration

definition new_loki_client :: "string \<Rightarrow> duration \<Rightarrow> loki_client" where
  "new_loki_client base_url push_timeout =
     \<lparr>lk_base_url = trim_slash base_url, lk_timeout = push_timeout\<rparr>"

text \<open>A map of strings marshals with its keys in order.\<close>

definition json_labels :: "string go_map \<Rightarrow> json" where
  "json_labels m = JObject (map (\<lambda>(k, v). (k, JString v)) (sorted_entries m))"

definition wire_entry :: "log_entry \<Rightarrow> json" where
  "wire_entry e = JArray [JString (format_int (unix_nano (le_Time e))), JString (le_Line e)]"

definition wire_stream :: "log_stream \<Rightarrow> json" where
  "wire_stream s = JObject
     [(''stream'', json_labels (ls_Labels s)),
      (''values'', JArray (map wire_entry (ls_Entries s)))]"

definition wire_body :: "log_stream list \<Rightarrow> json" where
  "wire_body streams = JObject [(''streams'', JArray (map wire_stream streams))]"

definition encode_streams :: "log_stream list \<Rightarrow> string" where
  "encode_streams streams = json_text (wire_body streams)"

definition loki_push_request :: "loki_client \<Rightarrow> log_stream list \<Rightarrow> http_request" where
  "loki_push_request c streams =
     \<lparr>rq_method = ''POST'', rq_url = lk_base_url c @ ''/loki/api/v1/push'',
      rq_content_type = ''application/json'', rq_body = encode_streams streams\<rparr>"

definition loki_push :: "http_env \<Rightarrow> loki_client \<Rightarrow> log_stream list \<Rightarrow> unit result" where
  "loki_push env c streams =
     (if streams = [] then Inr ()
      else (case http_call env (loki_push_request c streams) ''lokiclient: build request: ''
              ''lokiclient: post: '' of
              Inl e \<Rightarrow> Inl e
            | Inr rs \<Rightarrow>
                if \<not> is_2xx rs then Inl (http_status_error ''lokiclient: '' 4096 rs) else Inr ()))"

section \<open>The body reads back\<close>

text \<open>What a reader of Loki's push format takes from the body.\<close>

definition unwire_entry :: "json \<Rightarrow> (string \<times> string) option" where
  "unwire_entry j = (case j of JArray [JString t, JString l] \<Rightarrow> Some (t, l) | _ \<Rightarrow> None)"

fun all_some :: "'a option list \<Rightarrow> 'a list option" where
  "all_some [] = Some []"
| "all_some (None # xs) = None"
| "all_some (Some x # xs) = map_option ((#) x) (all_some xs)"

lemma all_some_map: "(\<And>x. x \<in> set xs \<Longrightarrow> f (g x) = Some (h x)) \<Longrightarrow> all_some (map (f \<circ> g) xs) = Some (map h xs)"
  by (induction xs) simp_all

definition unwire_label :: "string \<times> json \<Rightarrow> (string \<times> string) option" where
  "unwire_label kv = (case snd kv of JString v \<Rightarrow> Some (fst kv, v) | _ \<Rightarrow> None)"

definition unwire_stream :: "json \<Rightarrow> ((string \<times> string) list \<times> (string \<times> string) list) option" where
  "unwire_stream j =
     (case j of
        JObject [(_, JObject ls), (_, JArray vs)] \<Rightarrow>
          (case (all_some (map unwire_label ls), all_some (map unwire_entry vs)) of
             (Some l, Some v) \<Rightarrow> Some (l, v) | _ \<Rightarrow> None)
      | _ \<Rightarrow> None)"

definition loki_read :: "string \<Rightarrow> ((string \<times> string) list \<times> (string \<times> string) list) list option" where
  "loki_read body =
     (case json_parse body of
        Some (JObject [(_, JArray ss)]) \<Rightarrow> all_some (map unwire_stream ss)
      | _ \<Rightarrow> None)"

lemma wire_ints_ok: "json_ints_ok (wire_body streams)"
  by (simp add: wire_body_def wire_stream_def wire_entry_def json_labels_def list_all_iff case_prod_unfold)

lemma unwire_wire_stream:
  "unwire_stream (wire_stream s) = Some (sorted_entries (ls_Labels s),
     map (\<lambda>e. (format_int (unix_nano (le_Time e)), le_Line e)) (ls_Entries s))"
proof -
  have "all_some (map unwire_label (map (\<lambda>(k, v). (k, JString v)) m)) = Some m" for m
    by (induction m) (auto simp: unwire_label_def)
  moreover have "all_some (map unwire_entry (map wire_entry es)) =
      Some (map (\<lambda>e. (format_int (unix_nano (le_Time e)), le_Line e)) es)" for es
    by (induction es) (auto simp: unwire_entry_def wire_entry_def)
  ultimately show ?thesis by (simp add: unwire_stream_def wire_stream_def json_labels_def)
qed


lemma loki_push_empty [simp]: "loki_push env c [] = Inr ()"
  by (simp add: loki_push_def)

lemma loki_push_ok:
  "is_ok (loki_push env c streams) \<longleftrightarrow> streams = [] \<or>
     (build_request env (lk_base_url c @ ''/loki/api/v1/push'') = None \<and>
      (\<exists>rs. send env (loki_push_request c streams) = Inr rs \<and> is_2xx rs))"
  by (auto simp: loki_push_def http_call_def loki_push_request_def split: option.splits sum.splits)

end
