(* ===== verification/Collector.thy ===== *)
theory Collector
  imports Parser Logs Storage Ssh_Fake
begin

text \<open>
  internal/collector: one metrics pull (\<open>pull_once\<close>) and one log pull (\<open>pull_logs_once\<close>) of a
  server. The executor, the metrics push and the log push are parameters, as the \<open>Pipeline\<close>
  takes them as interfaces; the store is the one of \<open>Storage\<close>. A cycle's state is the
  database, the executor's state, and the bodies and streams handed to the pushers, in order. Log
  output is not modelled.
\<close>

section \<open>Remote commands\<close>

definition single_quote :: char where "single_quote = CHR 0x27"

definition quote_escape :: "char \<Rightarrow> string" where
  "quote_escape c =
     (if c = single_quote then [single_quote, CHR 0x5C, single_quote, single_quote] else [c])"

definition shell_quote :: "string \<Rightarrow> string" where
  "shell_quote s = single_quote # replace_bytes quote_escape s @ [single_quote]"

definition collector_path :: string where
  "collector_path = ''$HOME/.frappe-monitor/frappe-monitor-collect.sh''"

definition build_collect_cmd :: "string list \<Rightarrow> string" where
  "build_collect_cmd paths =
     (if paths = [] then collector_path
      else ''BENCH_PATHS='' @ (single_quote # replace_bytes quote_escape (join '':'' paths) @ [single_quote]) @
           '' '' @ collector_path)"

section \<open>Cycle state\<close>

record ('f, 'e) world =
  w_db :: "'f db"
  w_exec :: 'e
  w_pushed :: "string list"
  w_streams :: "log_stream list list"

text \<open>The interfaces a pipeline is built from, with the clock of one cycle.\<close>

record ('f, 'e) pipeline =
  pp_env :: sql_env
  pp_floats :: "'f float_ops"
  pp_orders :: map_orders
  pp_run :: "'e \<Rightarrow> target \<Rightarrow> string \<Rightarrow> (string \<times> go_error option) \<times> 'e"
  pp_push :: "string \<Rightarrow> unit result"
  pp_now :: time

definition with_db :: "('f db \<Rightarrow> 'a \<times> 'f db) \<Rightarrow> ('f, 'e) world \<Rightarrow> 'a \<times> ('f, 'e) world" where
  "with_db op w = (case op (w_db w) of (r, db) \<Rightarrow> (r, w\<lparr>w_db := db\<rparr>))"

definition run_cmd ::
  "('f, 'e) pipeline \<Rightarrow> target \<Rightarrow> string \<Rightarrow> ('f, 'e) world \<Rightarrow> (string \<times> go_error option) \<times> ('f, 'e) world" where
  "run_cmd p tgt cmd w = (case pp_run p (w_exec w) tgt cmd of (r, e) \<Rightarrow> (r, w\<lparr>w_exec := e\<rparr>))"

definition server_target :: "server \<Rightarrow> target" where
  "server_target s = \<lparr>tg_Host = sv_Hostname s, tg_Port = sv_SSHPort s, tg_User = sv_SSHUser s,
     tg_KeyPath = sv_SSHKeyPath s\<rparr>"

section \<open>Metrics pull\<close>

definition mark_unreachable ::
  "('f, 'e) pipeline \<Rightarrow> int \<Rightarrow> go_error \<Rightarrow> ('f, 'e) world \<Rightarrow> unit result \<times> ('f, 'e) world" where
  "mark_unreachable p i cause =
     with_db (set_server_status (pp_env p) (pp_now p) i ''unreachable'' (take 4096 (err_msg cause)))"

definition set_reachable :: "('f, 'e) pipeline \<Rightarrow> int \<Rightarrow> ('f, 'e) world \<Rightarrow> unit result \<times> ('f, 'e) world" where
  "set_reachable p i = with_db (set_server_status (pp_env p) (pp_now p) i ''reachable'' [])"

text \<open>From the collector's output to the metrics of the server, or the error that marks it
  unreachable.\<close>

definition parse_cycle ::
  "('f, 'e) pipeline \<Rightarrow> string \<Rightarrow> (parse_output \<times> 'f server_metrics) result" where
  "parse_cycle p stdout =
     bind_result (wrap_result ''parse: '' (tokenize stdout)) (\<lambda>out.
     case output_section out ''ERROR'' of
       Some err_sec \<Rightarrow>
         Inl (new_error (''collector script error (exit='' @ map_get (sec_KVs err_sec) ''exit_code'' @
            '' line='' @ map_get (sec_KVs err_sec) ''line'' @ '')''))
     | None \<Rightarrow>
         bind_result (wrap_result ''parse: '' (server_from_sections (pp_floats p) (pp_orders p) out)) (\<lambda>m.
         if sm_Disks m = [] \<and> sm_Net m = [] then
           Inl (new_error (''parse: empty disks AND net '' @ [CHR 0xE2, CHR 0x80, CHR 0x94] @
             '' collector output looks torn''))
         else Inr (out, m)))"

definition bench_lines ::
  "('f, 'e) pipeline \<Rightarrow> parse_output \<Rightarrow> 'f server_metrics \<Rightarrow> string \<Rightarrow> string \<Rightarrow> string" where
  "bench_lines p out m srv_name bench =
     (case bench_from_sections (pp_orders p) out bench of
        Inl _ \<Rightarrow> []
      | Inr bm \<Rightarrow> bench_line_protocol (bm\<lparr>bm_Timestamp := sm_Timestamp m, bm_Server := srv_name\<rparr>) srv_name)"

definition site_lines ::
  "('f, 'e) pipeline \<Rightarrow> parse_output \<Rightarrow> 'f server_metrics \<Rightarrow> string \<Rightarrow> string \<times> string \<Rightarrow> string" where
  "site_lines p out m srv_name pair =
     (case site_from_sections (pp_floats p) out (fst pair) (snd pair) of
        Inl _ \<Rightarrow> []
      | Inr st \<Rightarrow> site_line_protocol (format_float (pp_floats p))
           (st\<lparr>st_Timestamp := sm_Timestamp m, st_Server := srv_name\<rparr>) srv_name)"

definition cycle_body ::
  "('f, 'e) pipeline \<Rightarrow> parse_output \<Rightarrow> 'f server_metrics \<Rightarrow> string \<Rightarrow> string" where
  "cycle_body p out m srv_name =
     server_line_protocol (format_float (pp_floats p)) m srv_name @
     concat (map (bench_lines p out m srv_name) (bench_names out)) @
     concat (map (site_lines p out m srv_name) (site_names_for out))"

definition pull_once ::
  "('f, 'e) pipeline \<Rightarrow> int \<Rightarrow> ('f, 'e) world \<Rightarrow> go_error option \<times> ('f, 'e) world" where
  "pull_once p i w0 =
     (case with_db (get_server i) w0 of
        (Inl e, w1) \<Rightarrow> (Some (wrap_error (''collector: get server '' @ format_int i @ '': '') e), w1)
      | (Inr srv, w1) \<Rightarrow>
     (case run_cmd p (server_target srv) (build_collect_cmd (sv_BenchPaths srv)) w1 of
        ((_, Some e), w2) \<Rightarrow>
          (let wrapped = wrap_error ''ssh: '' e in (Some wrapped, snd (mark_unreachable p i wrapped w2)))
      | ((stdout, None), w2) \<Rightarrow>
     (case parse_cycle p stdout of
        Inl wrapped \<Rightarrow> (Some wrapped, snd (mark_unreachable p i wrapped w2))
      | Inr (out, m) \<Rightarrow>
          (let body = cycle_body p out m (sv_Name srv);
               w3 = w2\<lparr>w_pushed := w_pushed w2 @ [body]\<rparr>
           in case pp_push p body of
                Inl e \<Rightarrow> (Some (wrap_error ''push: '' e), snd (set_reachable p i w3))
              | Inr _ \<Rightarrow>
                  (case set_reachable p i w3 of
                     (Inl e, w4) \<Rightarrow> (Some (wrap_error ''status: '' e), w4)
                   | (Inr _, w4) \<Rightarrow> (None, w4))))))"

section \<open>Tailing one log file\<close>

definition default_max_log_bytes :: int where "default_max_log_bytes = 1024 * 1024"

record tail_result =
  tr_NewOffset :: int
  tr_Stream :: log_stream

definition tail_cmd :: "string \<Rightarrow> int \<Rightarrow> int \<Rightarrow> string" where
  "tail_cmd path prev max_bytes =
     ''set -e; f='' @ shell_quote path @
     ''; if [ ! -r \"$f\" ]; then echo \"SIZE:0\"; exit 0; fi; '' @
     ''sz=$(stat -c %s -- \"$f\" 2>/dev/null || echo 0); echo \"SIZE:$sz\"; '' @
     ''if [ \"$sz\" -lt '' @ format_int prev @ '' ]; then start=1; else start='' @
     format_int (wrap64 (prev + 1)) @ ''; fi; '' @
     ''tail -c \"+$start\" -- \"$f\" 2>/dev/null | head -c '' @ format_int max_bytes @ '' || true''"

definition parse_tail_output :: "string \<Rightarrow> (int \<times> string) result" where
  "parse_tail_output raw =
     (case index_byte newline raw of
        None \<Rightarrow> Inl (new_error ''missing SIZE header'')
      | Some nl \<Rightarrow>
          if \<not> has_prefix ''SIZE:'' raw then Inl (new_error ''missing SIZE header'')
          else (let size_str = trim_space (drop 5 (take nl raw)) in
            case parse_int64 size_str of
              Inl e \<Rightarrow> Inl (new_error (''malformed SIZE '' @ go_quote size_str @ '': '' @
                         num_error_msg ''ParseInt'' size_str e))
            | Inr sz \<Rightarrow> Inr (sz, drop (nl + 1) raw)))"

definition split_lines_go :: "string \<Rightarrow> string list" where
  "split_lines_go s =
     (if s = [] then []
      else (let parts = split_on newline s in
        if last parts = [] then butlast parts else parts))"

definition new_offset :: "int \<Rightarrow> int \<Rightarrow> string \<Rightarrow> int" where
  "new_offset prev sz body =
     (if sz < prev then int (length body)
      else min sz (wrap64 (prev + int (length body))))"

definition tail_stream :: "string go_map \<Rightarrow> time \<Rightarrow> string \<Rightarrow> log_stream" where
  "tail_stream labels now body =
     \<lparr>ls_Labels = labels,
      ls_Entries = map (\<lambda>l. \<lparr>le_Time = now, le_Line = l\<rparr>)
        (filter (\<lambda>l. l \<noteq> []) (split_lines_go body))\<rparr>"

definition tail_file ::
  "('f, 'e) pipeline \<Rightarrow> int \<Rightarrow> target \<Rightarrow> int \<Rightarrow> string go_map \<Rightarrow> string \<Rightarrow> ('f, 'e) world \<Rightarrow>
     tail_result result \<times> ('f, 'e) world" where
  "tail_file p max_cfg tgt i labels path w0 =
     (let max_bytes = (if max_cfg \<le> 0 then default_max_log_bytes else max_cfg) in
      case with_db (get_log_cursor i path) w0 of
        (cur, w1) \<Rightarrow>
          (case (case cur of
                   Inr c \<Rightarrow> Inr (lc_ByteOffset c)
                 | Inl e \<Rightarrow> if errors_is e ErrNotFound then Inr 0
                            else Inl (wrap_error ''logtail: get cursor: '' e)) of
             Inl e \<Rightarrow> (Inl e, w1)
           | Inr prev \<Rightarrow>
               (case run_cmd p tgt (tail_cmd path prev max_bytes) w1 of
                  ((_, Some e), w2) \<Rightarrow>
                    (Inl (wrap_error (''logtail: ssh run '' @ go_quote path @ '': '') e), w2)
                | ((stdout, None), w2) \<Rightarrow>
                    (case parse_tail_output stdout of
                       Inl e \<Rightarrow> (Inl (wrap_error (''logtail: parse '' @ go_quote path @ '': '') e), w2)
                     | Inr (sz, body) \<Rightarrow>
                         (Inr \<lparr>tr_NewOffset = new_offset prev sz body,
                               tr_Stream = tail_stream labels (pp_now p) body\<rparr>, w2)))))"

section \<open>Log pull\<close>

record log_tail_file =
  lf_Path :: string
  lf_Type :: string
  lf_Bench :: string

record tail_batch =
  tb_streams :: "log_stream list"
  tb_pending :: "(string \<times> int) list"
  tb_ok :: nat
  tb_errs :: nat

definition file_labels :: "string \<Rightarrow> log_tail_file \<Rightarrow> string go_map" where
  "file_labels srv_name f =
     (let labels = [(''server'', srv_name), (''log_type'', lf_Type f)]
      in if lf_Bench f \<noteq> [] then map_put labels ''bench'' (lf_Bench f) else labels)"

fun tail_files ::
  "('f, 'e) pipeline \<Rightarrow> int \<Rightarrow> target \<Rightarrow> int \<Rightarrow> string \<Rightarrow> log_tail_file list \<Rightarrow> tail_batch \<Rightarrow>
     ('f, 'e) world \<Rightarrow> tail_batch \<times> ('f, 'e) world" where
  "tail_files p mx tgt i name [] b w = (b, w)"
| "tail_files p mx tgt i name (f # fs) b w =
     (case tail_file p mx tgt i (file_labels name f) (lf_Path f) w of
        (Inl _, w1) \<Rightarrow> tail_files p mx tgt i name fs (b\<lparr>tb_errs := Suc (tb_errs b)\<rparr>) w1
      | (Inr res, w1) \<Rightarrow>
          tail_files p mx tgt i name fs
            (b\<lparr>tb_streams := (if ls_Entries (tr_Stream res) \<noteq> []
                 then tb_streams b @ [tr_Stream res] else tb_streams b),
               tb_pending := tb_pending b @ [(lf_Path f, tr_NewOffset res)],
               tb_ok := Suc (tb_ok b)\<rparr>) w1)"

fun advance_cursors ::
  "('f, 'e) pipeline \<Rightarrow> int \<Rightarrow> (string \<times> int) list \<Rightarrow> ('f, 'e) world \<Rightarrow> ('f, 'e) world" where
  "advance_cursors p i [] w = w"
| "advance_cursors p i ((path, off) # pcs) w =
     advance_cursors p i pcs
       (snd (with_db (upsert_log_cursor (pp_env p) (pp_now p)
          \<lparr>lc_ServerID = i, lc_LogPath = path, lc_ByteOffset = off, lc_LastSeenAt = zero_time\<rparr>) w))"

definition empty_batch :: tail_batch where
  "empty_batch = \<lparr>tb_streams = [], tb_pending = [], tb_ok = 0, tb_errs = 0\<rparr>"

definition pull_logs_once ::
  "('f, 'e) pipeline \<Rightarrow> (log_stream list \<Rightarrow> unit result) \<Rightarrow> int \<Rightarrow> int \<Rightarrow> log_tail_file list \<Rightarrow>
     ('f, 'e) world \<Rightarrow> (nat \<times> nat \<times> go_error option) \<times> ('f, 'e) world" where
  "pull_logs_once p push_logs mx i files w0 =
     (case with_db (get_server i) w0 of
        (Inl e, w1) \<Rightarrow>
          ((0, 0, Some (wrap_error (''collector logs: get server '' @ format_int i @ '': '') e)), w1)
      | (Inr srv, w1) \<Rightarrow>
          (case tail_files p mx (server_target srv) i (sv_Name srv) files empty_batch w1 of
             (b, w2) \<Rightarrow>
               (let w3 = w2\<lparr>w_streams := w_streams w2 @ [tb_streams b]\<rparr> in
                case push_logs (tb_streams b) of
                  Inl e \<Rightarrow> ((tb_ok b, tb_errs b, Some (wrap_error ''loki push: '' e)), w3)
                | Inr _ \<Rightarrow> ((tb_ok b, tb_errs b, None), advance_cursors p i (tb_pending b) w3))))"

section \<open>Quoting is safe\<close>

text \<open>A reader of one word of a POSIX shell command: quoted text is literal, a backslash takes the
  next byte literally, an unquoted blank or operator ends the word, and an
  unquoted expansion character makes it give up.\<close>

definition sh_end :: "char \<Rightarrow> bool" where
  "sh_end c \<longleftrightarrow> c \<in> set '' ;&|<>()'' \<or> c = newline \<or> c = CHR 0x09"

definition sh_expands :: "char \<Rightarrow> bool" where
  "sh_expands c \<longleftrightarrow> c \<in> {CHR ''$'', CHR 0x60, CHR 0x22, CHR ''*'', CHR ''?'', CHR ''['', CHR ''~'', CHR ''#''}"

fun sh_word :: "bool \<Rightarrow> string \<Rightarrow> (string \<times> string) option" where
  "sh_word True [] = None"
| "sh_word True (c # s) =
     (if c = single_quote then sh_word False s
      else map_option (\<lambda>(t, r). (c # t, r)) (sh_word True s))"
| "sh_word False [] = Some ([], [])"
| "sh_word False (c # s) =
     (if c = single_quote then sh_word True s
      else if c = CHR 0x5C then
        (case s of [] \<Rightarrow> None | d # s' \<Rightarrow> map_option (\<lambda>(t, r). (d # t, r)) (sh_word False s'))
      else if sh_end c then Some ([], c # s)
      else if sh_expands c then None
      else map_option (\<lambda>(t, r). (c # t, r)) (sh_word False s))"

lemma sh_quoted:
  "sh_word True (replace_bytes quote_escape s @ single_quote # r) =
     map_option (\<lambda>(t, q). (s @ t, q)) (sh_word False r)"
proof (induction s)
  case Nil
  then show ?case by (cases "sh_word False r") auto
next
  case (Cons c s)
  have "CHR 0x5C \<noteq> single_quote" by (simp add: single_quote_def)
  with Cons show ?case
    by (cases "sh_word False r") (auto simp: quote_escape_def)
qed

text \<open>
  Shell quoting is safe: whatever bytes a path holds, a POSIX shell that reads the quoted path
  takes exactly those bytes, literally, and goes on with what follows the quotes. So no log path can
  end its word, start another command or be expanded. The bench paths of the collector's
  command line are quoted in the same way.
\<close>

lemma shell_quote_literal:
  "sh_word False (shell_quote s @ r) = map_option (\<lambda>(t, q). (s @ t, q)) (sh_word False r) \<and>
   (paths \<noteq> [] \<longrightarrow> build_collect_cmd paths =
      ''BENCH_PATHS='' @ shell_quote (join '':'' paths) @ CHR '' '' # collector_path)"
  by (simp add: shell_quote_def sh_quoted build_collect_cmd_def)

lemma shell_quote_literal_witness:
  "sh_word False (shell_quote ''/a b'' @ ''; rm'') = Some (''/a b'', ''; rm'') \<and>
   build_collect_cmd [''/x''] = ''BENCH_PATHS='' @ shell_quote ''/x'' @ CHR '' '' # collector_path"
proof -
  note q = shell_quote_literal [of "''/a b''" "''; rm''" "[''/x'']"]
  have "sh_word False ''; rm'' = Some ([], ''; rm'')"
    by (simp add: sh_end_def single_quote_def)
  with q show ?thesis by simp
qed


section \<open>Offsets\<close>

text \<open>What the remote command prints for a readable file: its size, then at most the allowed bytes
  from the offset, or from the start when the file has become shorter.\<close>

definition tail_answer :: "string \<Rightarrow> int \<Rightarrow> int \<Rightarrow> string" where
  "tail_answer content prev mx =
     ''SIZE:'' @ format_int (int (length content)) @ newline #
     take (nat mx) (drop (if int (length content) < prev then 0 else nat prev) content)"

lemma newline_format_int: "newline \<notin> set (format_int i)"
  by (simp add: not_in_format_int)

lemma parse_tail_answer:
  assumes "is_int64 (int (length content))"
  shows "parse_tail_output (tail_answer content prev mx) =
     Inr (int (length content), take (nat mx) (drop (if int (length content) < prev then 0 else nat prev) content))"
proof -
  let ?sz = "''SIZE:'' @ format_int (int (length content))"
  have "newline \<notin> set ?sz" by (simp add: newline_format_int)
  from index_byte_append [OF this]
  have "index_byte newline (?sz @ newline # r) = Some (length ?sz)" for r .
  moreover have "trim_space (drop 5 (take (length ?sz) (?sz @ newline # r))) = format_int (int (length content))" for r
    by simp
  moreover have "has_prefix ''SIZE:'' (?sz @ newline # r)" for r by (simp add: has_prefix_Cons)
  moreover have "drop (length ?sz + 1) (?sz @ newline # r) = r" for r by simp
  ultimately show ?thesis
    using parse_format_int [OF assms]
    unfolding parse_tail_output_def tail_answer_def append.assoc [symmetric] Let_def
    by (simp only: option.case sum.case if_True not_True_eq_False if_False append.assoc append_Cons)
qed

text \<open>
  The offset a tail reports is never negative, never beyond the file size the host reported
  unless the file shrank, and never behind the previous one unless it shrank; after a
  shrink it is the number of bytes read. So the cursor's non-negativity check cannot reject it.
\<close>

lemma new_offset_bounds:
  assumes "0 \<le> prev" "is_int64 (prev + int (length body))"
  shows "0 \<le> new_offset prev sz body \<and>
    (if sz < prev then new_offset prev sz body = int (length body)
     else prev \<le> new_offset prev sz body \<and> new_offset prev sz body \<le> sz)"
  using assms by (auto simp: new_offset_def wrap64_id)

lemma new_offset_bounds_witness:
  "new_offset 10 4 ''abc'' = 3 \<and> 10 \<le> new_offset 10 12 ''abc'' \<and> new_offset 10 12 ''abc'' \<le> 12"
  using new_offset_bounds [of 10 "''abc''" 4] new_offset_bounds [of 10 "''abc''" 12]
  by (simp add: is_int64_def)

text \<open>Successive cycles on one file, each with the content the file has then.\<close>

definition tail_cycle :: "int \<Rightarrow> string \<Rightarrow> string \<times> int \<Rightarrow> string \<times> int" where
  "tail_cycle mx content st =
     (case parse_tail_output (tail_answer content (snd st) mx) of
        Inl _ \<Rightarrow> st
      | Inr (sz, body) \<Rightarrow> (fst st @ body, new_offset (snd st) sz body))"

definition grows :: "string list \<Rightarrow> bool" where
  "grows cs \<longleftrightarrow> sorted_wrt (\<lambda>a b. has_prefix a b) cs"

lemma tail_cycle_prefix:
  assumes "is_int64 (int (length content))" "0 \<le> off" "off \<le> int (length content)"
    "is_int64 mx" "0 \<le> mx" "fst st = take (nat off) content" "snd st = off"
  shows "0 \<le> snd (tail_cycle mx content st) \<and> snd (tail_cycle mx content st) = min (off + mx) (int (length content)) \<and>
    fst (tail_cycle mx content st) = take (nat (snd (tail_cycle mx content st))) content"
proof -
  let ?body = "take (nat mx) (drop (nat off) content)"
  have len: "int (length ?body) = min mx (int (length content) - off)"
    using assms by auto
  then have "is_int64 (off + int (length ?body))"
    using assms by (auto simp: is_int64_def)
  then have eq: "tail_cycle mx content st = (take (nat off) content @ ?body, min (off + mx) (int (length content)))"
    using assms len parse_tail_answer [OF assms(1), of off mx]
    by (auto simp: tail_cycle_def new_offset_def wrap64_id)
  have "take (nat off) content @ ?body = take (nat off + nat mx) content"
    by (simp add: take_add)
  also have "\<dots> = take (nat (min (off + mx) (int (length content)))) content"
    using assms by (auto simp: min_def nat_add_distrib)
  finally show ?thesis using eq assms by auto
qed



section \<open>Outcome of a metrics pull\<close>

lemma run_cmd_keeps: "run_cmd p tgt cmd w = (r, w') \<Longrightarrow>
    w_db w' = w_db w \<and> w_pushed w' = w_pushed w \<and> w_streams w' = w_streams w"
  by (auto simp: run_cmd_def split: prod.splits)

lemma set_status_world:
  assumes "healthy (w_db w)" "server_of (w_db w) i = Some r" "status \<in> set server_statuses"
  shows "\<exists>w'. with_db (set_server_status env now i status err) w = (Inr (), w') \<and>
     server_of (w_db w') i = Some (status_row now status err r) \<and> healthy (w_db w') \<and>
     w_pushed w' = w_pushed w"
  using set_status_healthy [OF assms, of env now err] by (auto simp: with_db_def)

text \<open>
  C2. On a healthy store a pull of an unknown server returns not-found and touches nothing. A pull
  of a known server always leaves its status written: without a push, status unreachable,
  the returned error (cut to 4096 bytes) as last error; after exactly one push, status
  reachable and no error, even when the push itself failed, which is then the error returned.
\<close>

theorem pull_once_outcome:
  assumes "db_ok (w_db w)" "db_faults (w_db w) = []"
  shows "case pull_once p i w of (err, w') \<Rightarrow>
    (case server_of (w_db w) i of
       None \<Rightarrow> w' = w \<and> (\<exists>e. err = Some e \<and> errors_is e ErrNotFound)
     | Some r \<Rightarrow>
         (w_pushed w' = w_pushed w \<and>
           (\<exists>e. err = Some e \<and> server_of (w_db w') i =
              Some (status_row (pp_now p) ''unreachable'' (take 4096 (err_msg e)) r))) \<or>
         (\<exists>body. w_pushed w' = w_pushed w @ [body] \<and> (err = None \<longleftrightarrow> is_ok (pp_push p body)) \<and>
            server_of (w_db w') i = Some (status_row (pp_now p) ''reachable'' [] r)))"
proof -
  have h: "healthy (w_db w)" using assms by (simp add: healthy_def)
  have get: "with_db (get_server i) w =
      ((case server_of (w_db w) i of None \<Rightarrow> Inl err_not_found | Some r \<Rightarrow> Inr (ent_to_server r)), w)"
    by (simp add: with_db_def get_server_healthy [OF h])
  show ?thesis
  proof (cases "server_of (w_db w) i")
    case None
    then show ?thesis
      by (simp add: pull_once_def get) (simp add: errors_is_def err_not_found_def)
  next
    case (Some r)
    let ?s = "ent_to_server r"
    obtain out e1 w2 where run: "run_cmd p (server_target ?s) (build_collect_cmd (sv_BenchPaths ?s)) w = ((out, e1), w2)"
      by (metis surj_pair)
    note k = run_cmd_keeps [OF run]
    have h2: "healthy (w_db w2)" "server_of (w_db w2) i = Some r" using h Some k by simp_all
    have st: "''unreachable'' \<in> set server_statuses" "''reachable'' \<in> set server_statuses"
      by (simp_all add: server_statuses_def)
    have un: "\<exists>w'. mark_unreachable p i c w2 = (Inr (), w') \<and> server_of (w_db w') i =
        Some (status_row (pp_now p) ''unreachable'' (take 4096 (err_msg c)) r) \<and> w_pushed w' = w_pushed w" for c
      using set_status_world [OF h2 st(1)] k unfolding mark_unreachable_def by metis
    show ?thesis
    proof (cases e1)
      case (Some e)
      with un [of "wrap_error ''ssh: '' e"] show ?thesis
        using \<open>server_of (w_db w) i = Some r\<close> by (auto simp: pull_once_def get run Let_def)
    next
      case None
      show ?thesis
      proof (cases "parse_cycle p out")
        case (Inl e)
        with un [of e] None show ?thesis
          using \<open>server_of (w_db w) i = Some r\<close> by (auto simp: pull_once_def get run Let_def)
      next
        case (Inr om)
        obtain po m where om: "om = (po, m)" by (cases om)
        let ?body = "cycle_body p po m (sv_Name ?s)"
        let ?w3 = "w2\<lparr>w_pushed := w_pushed w2 @ [?body]\<rparr>"
        have "\<exists>w'. set_reachable p i ?w3 = (Inr (), w') \<and> server_of (w_db w') i =
            Some (status_row (pp_now p) ''reachable'' [] r) \<and> w_pushed w' = w_pushed w @ [?body]"
          using set_status_world [of ?w3, OF _ _ st(2)] h2 k unfolding set_reachable_def by fastforce
        then obtain w' where "set_reachable p i ?w3 = (Inr (), w')" "server_of (w_db w') i =
            Some (status_row (pp_now p) ''reachable'' [] r)" "w_pushed w' = w_pushed w @ [?body]"
          by blast
        with None Inr om show ?thesis
          using \<open>server_of (w_db w) i = Some r\<close>
          by (cases "pp_push p ?body") (auto simp: pull_once_def get run Let_def)
      qed
    qed
  qed
qed

definition quiet_pipeline :: "(unit, unit) pipeline" where
  "quiet_pipeline = \<lparr>pp_env = msg_env, pp_floats =
       \<lparr>parse_float = (\<lambda>s. Inr ()), format_float = (\<lambda>f. ''0''), format_float4 = (\<lambda>f. ''0.0000''),
        float_to_int = (\<lambda>f. 0), zero_float = ()\<rparr>,
     pp_orders = source_orders, pp_run = (\<lambda>e t c. (([], Some (new_error ''no route'')), e)),
     pp_push = (\<lambda>b. Inr ()), pp_now = 77\<rparr>"

definition world1 :: "(unit, unit) world" where
  "world1 = \<lparr>w_db = db1, w_exec = (), w_pushed = [], w_streams = []\<rparr>"

theorem pull_once_outcome_witness:
  "\<exists>r e. server_of (w_db (snd (pull_once quiet_pipeline 1 world1))) 1 = Some r \<and>
     fst (pull_once quiet_pipeline 1 world1) = Some e \<and>
     es_Status r = ''unreachable'' \<and> es_LastError r = ''ssh: no route''"
proof -
  have w: "w_db world1 = db1" by (simp add: world1_def)
  obtain r where r: "server_of db1 1 = Some r" by (simp add: server_of_def db1_eq)
  have g: "with_db (get_server 1) world1 = (Inr (ent_to_server r), world1)"
    using db1_healthy r by (simp add: with_db_def w get_server_healthy healthy_def world1_def)
  have run: "run_cmd quiet_pipeline t c world1 = (([], Some (new_error ''no route'')), world1)" for t c
    by (simp add: run_cmd_def quiet_pipeline_def world1_def)
  have mark: "w_pushed (snd (mark_unreachable quiet_pipeline 1 c world1)) = []" for c
    by (simp add: mark_unreachable_def with_db_def split: prod.split) (simp add: world1_def)
  have e: "fst (pull_once quiet_pipeline 1 world1) = Some (wrap_error ''ssh: '' (new_error ''no route''))"
    "w_pushed (snd (pull_once quiet_pipeline 1 world1)) = []"
    by (simp_all add: pull_once_def g run mark Let_def)
  have "db_ok (w_db world1)" "db_faults (w_db world1) = []" using db1_healthy by (simp_all add: w)
  from pull_once_outcome [OF this, where p = quiet_pipeline and i = 1] e r show ?thesis
    by (auto simp: w status_row_def split: prod.splits)
qed


section \<open>Cursors move only after a push\<close>

lemma tail_file_keeps:
  assumes "healthy (w_db w)" "tail_file p mx tgt i labels path w = (res, w')"
  shows "w_db w' = w_db w \<and> w_pushed w' = w_pushed w \<and> w_streams w' = w_streams w"
proof -
  obtain cur where get: "with_db (get_log_cursor i path) w = (cur, w)"
    by (simp add: with_db_def get_log_cursor_find [OF assms(1)])
  show ?thesis
    using assms(2)
    by (auto simp: tail_file_def get Let_def split: sum.splits prod.splits option.splits if_splits
        dest!: run_cmd_keeps)
qed

lemma tail_files_keeps:
  "healthy (w_db w) \<Longrightarrow> tail_files p mx tgt i name fs b w = (b', w') \<Longrightarrow>
     w_db w' = w_db w \<and> w_pushed w' = w_pushed w \<and> w_streams w' = w_streams w \<and>
     tb_ok b' + tb_errs b' = tb_ok b + tb_errs b + length fs \<and>
     set (map fst (tb_pending b')) \<subseteq> set (map fst (tb_pending b)) \<union> lf_Path ` set fs \<and>
     (distinct (map fst (tb_pending b) @ map lf_Path fs) \<longrightarrow> distinct (map fst (tb_pending b')))"
proof (induction fs arbitrary: b w)
  case Nil
  then show ?case by auto
next
  case (Cons f fs)
  obtain res w1 where t: "tail_file p mx tgt i (file_labels name f) (lf_Path f) w = (res, w1)"
    by (metis surj_pair)
  note k = tail_file_keeps [OF Cons.prems(1) t]
  have h1: "healthy (w_db w1)" using Cons.prems(1) k by simp
  show ?case
  proof (cases res)
    case (Inl e)
    with Cons.prems(2) t have "tail_files p mx tgt i name fs (b\<lparr>tb_errs := Suc (tb_errs b)\<rparr>) w1 = (b', w')"
      by simp
    from Cons.IH [OF h1 this] k show ?thesis by auto
  next
    case (Inr r)
    with Cons.prems(2) t have "tail_files p mx tgt i name fs
        (b\<lparr>tb_streams := (if ls_Entries (tr_Stream r) \<noteq> [] then tb_streams b @ [tr_Stream r] else tb_streams b),
           tb_pending := tb_pending b @ [(lf_Path f, tr_NewOffset r)], tb_ok := Suc (tb_ok b)\<rparr>) w1 = (b', w')"
      by simp
    from Cons.IH [OF h1 this] k show ?thesis by auto
  qed
qed

lemma advance_cursors_offsets:
  assumes "healthy (w_db w)" "i \<in> es_ID ` set (db_servers (w_db w))" "distinct (map fst pcs)"
    "\<forall>(path, off) \<in> set pcs. path \<noteq> [] \<and> 0 \<le> off"
  shows "stored_offset get_log_cursor j q (w_db (advance_cursors p i pcs w)) =
     (case map_of pcs q of
        Some off \<Rightarrow> if j = i then off else stored_offset get_log_cursor j q (w_db w)
      | None \<Rightarrow> stored_offset get_log_cursor j q (w_db w))"
  using assms
proof (induction pcs arbitrary: w)
  case Nil
  then show ?case by simp
next
  case (Cons pc pcs)
  obtain path off where pc: "pc = (path, off)" by (cases pc)
  let ?c = "\<lparr>lc_ServerID = i, lc_LogPath = path, lc_ByteOffset = off, lc_LastSeenAt = zero_time\<rparr>"
  let ?w1 = "snd (with_db (upsert_log_cursor (pp_env p) (pp_now p) ?c) w)"
  have db1: "w_db ?w1 = snd (upsert_log_cursor (pp_env p) (pp_now p) ?c (w_db w))"
    by (simp add: with_db_def split: prod.split)
  have ok: "is_ok (fst (upsert_log_cursor (pp_env p) (pp_now p) ?c (w_db w)))"
    using Cons.prems pc by (intro upsert_log_cursor_succeeds) auto
  have h1: "healthy (w_db ?w1)" using ent.put_inv [OF Cons.prems(1)] by (simp add: db1)
  have srv: "db_servers (w_db ?w1) = db_servers (w_db w)"
    using upsert_log_cursor_servers [OF Cons.prems(1)] by (simp add: db1)
  have "stored_offset get_log_cursor j q (w_db (advance_cursors p i pcs ?w1)) =
      (case map_of pcs q of
        Some off \<Rightarrow> if j = i then off else stored_offset get_log_cursor j q (w_db ?w1)
      | None \<Rightarrow> stored_offset get_log_cursor j q (w_db ?w1))"
    by (rule Cons.IH) (use h1 srv Cons.prems in auto)
  moreover have "stored_offset get_log_cursor j q (w_db ?w1) =
      (if j = i \<and> q = path then off else stored_offset get_log_cursor j q (w_db w))"
    using ent.offset_put [OF Cons.prems(1) ok, of j q] by (auto simp: db1)
  moreover have "q = path \<Longrightarrow> map_of pcs q = None"
    using Cons.prems(3) pc by (auto simp: map_of_eq_None_iff)
  ultimately show ?case by (auto simp: pc split: option.split)
qed

text \<open>
  C3. A log pull counts every file once, as tailed or as failed, and moves cursors only after the
  one push of the cycle: when the push fails, the database is unchanged, so the same bytes are
  read again; when it succeeds, the cursor of every tailed file is at the offset its tail
  reported and every other cursor is where it was.
\<close>

theorem pull_logs_cursors:
  assumes "db_ok (w_db w)" "db_faults (w_db w) = []" "server_of (w_db w) i = Some r"
    and "tail_files p mx (server_target (ent_to_server r)) i (es_Name r) files empty_batch w = (b, w2)"
    and "distinct (map lf_Path files)" "\<forall>(path, off) \<in> set (tb_pending b). path \<noteq> [] \<and> 0 \<le> off"
  shows "case pull_logs_once p push mx i files w of ((ok, errs, err), w') \<Rightarrow>
    ok + errs = length files \<and> w_streams w' = w_streams w @ [tb_streams b] \<and>
    (err = None \<longleftrightarrow> is_ok (push (tb_streams b))) \<and>
    (err \<noteq> None \<longrightarrow> w_db w' = w_db w) \<and>
    (err = None \<longrightarrow> (\<forall>j q. stored_offset get_log_cursor j q (w_db w') =
       (case map_of (tb_pending b) q of
          Some off \<Rightarrow> if j = i then off else stored_offset get_log_cursor j q (w_db w)
        | None \<Rightarrow> stored_offset get_log_cursor j q (w_db w))))"
proof -
  have h: "healthy (w_db w)" using assms by (simp add: healthy_def)
  have get: "with_db (get_server i) w = (Inr (ent_to_server r), w)"
    by (simp add: with_db_def get_server_healthy [OF h] assms(3))
  have name: "sv_Name (ent_to_server r) = es_Name r" by (simp add: ent_to_server_def)
  note k = tail_files_keeps [OF h assms(4)]
  let ?w3 = "w2\<lparr>w_streams := w_streams w2 @ [tb_streams b]\<rparr>"
  have streams: "w_streams (advance_cursors p i pcs w) = w_streams w" for pcs and w :: "('a, 'b) world"
    by (induction p i pcs w rule: advance_cursors.induct) (simp_all add: with_db_def split: prod.split)
  have db3: "w_db ?w3 = w_db w" using k by simp
  have dist: "distinct (map fst (tb_pending b))" using k assms(5) by (simp add: empty_batch_def)
  have srv: "i \<in> es_ID ` set (db_servers (w_db w))" using server_ofD [OF assms(3)] by auto
  have "stored_offset get_log_cursor j q (w_db (advance_cursors p i (tb_pending b) ?w3)) =
       (case map_of (tb_pending b) q of
          Some off \<Rightarrow> if j = i then off else stored_offset get_log_cursor j q (w_db w)
        | None \<Rightarrow> stored_offset get_log_cursor j q (w_db w))" for j q
    using advance_cursors_offsets [of ?w3 i "tb_pending b" j q p, unfolded db3, OF h srv dist assms(6)] .
  moreover have "tb_ok b + tb_errs b = length files" using k by (simp add: empty_batch_def)
  moreover have "w_streams w2 = w_streams w" "w_db w2 = w_db w" using k by simp_all
  ultimately show ?thesis
    by (cases "push (tb_streams b)")
      (simp_all add: pull_logs_once_def get name assms(4) Let_def streams)
qed

definition tail_pipeline :: "(unit, unit) pipeline" where
  "tail_pipeline = quiet_pipeline\<lparr>pp_run := (\<lambda>e t c. ((''SIZE:3'' @ newline # ''abc'', None), e))\<rparr>"

definition one_file :: "log_tail_file list" where
  "one_file = [\<lparr>lf_Path = ''/l'', lf_Type = ''error'', lf_Bench = []\<rparr>]"

lemma tail_one_file:
  "\<exists>b. tail_files tail_pipeline 0 t 1 n one_file empty_batch world1 = (b, world1) \<and>
     tb_pending b = [(''/l'', 3)]"
proof -
  have s: "parse_int64 ''3'' = Inr 3" by (simp add: parse_int64_def parse_uint_def digit_val_def Let_def)
  have t: "trim_space ''3'' = ''3''" by (rule trim_space_id) (simp_all add: space_edge_def)
  have out: "parse_tail_output (''SIZE:3'' @ newline # ''abc'') = Inr (3, ''abc'')"
    by (simp add: parse_tail_output_def has_prefix_Cons t s Let_def)
  have g: "with_db (get_log_cursor 1 ''/l'') world1 = (Inl err_not_found, world1)"
    using db1_healthy
    by (simp add: with_db_def world1_def get_log_cursor_find healthy_def)
      (simp add: db1_eq empty_db_def)
  have r: "run_cmd tail_pipeline t c world1 = ((''SIZE:3'' @ newline # ''abc'', None), world1)" for c
    by (simp add: run_cmd_def tail_pipeline_def world1_def)
  have nf: "errors_is err_not_found ErrNotFound" by (simp add: errors_is_def err_not_found_def)
  have "new_offset 0 3 ''abc'' = 3" by (simp add: new_offset_def wrap64_def)
  then have "tail_file tail_pipeline 0 t 1 l ''/l'' world1 =
      (Inr \<lparr>tr_NewOffset = 3, tr_Stream = tail_stream l (pp_now tail_pipeline) ''abc''\<rparr>, world1)" for l
    by (simp add: tail_file_def Let_def g r nf out del: append_Cons append_Nil)
  then show ?thesis by (simp add: one_file_def empty_batch_def)
qed

theorem pull_logs_cursors_witness:
  "stored_offset get_log_cursor 1 ''/l''
     (w_db (snd (pull_logs_once tail_pipeline (\<lambda>s. Inr ()) 0 1 one_file world1))) = 3"
proof -
  obtain r where r: "server_of (w_db world1) 1 = Some r" by (simp add: server_of_def db1_eq world1_def)
  obtain b where b: "tail_files tail_pipeline 0 (server_target (ent_to_server r)) 1 (es_Name r) one_file
      empty_batch world1 = (b, world1)" "tb_pending b = [(''/l'', 3)]"
    using tail_one_file by blast
  have "db_ok (w_db world1)" "db_faults (w_db world1) = []"
    using db1_healthy by (simp_all add: world1_def)
  from pull_logs_cursors [OF this r b(1), of "\<lambda>s. Inr ()"] b(2) show ?thesis
    by (auto simp: one_file_def split: prod.splits)
qed

end
