(* ===== verification/Alert_Rules.thy ===== *)
theory Alert_Rules
  imports Go_Prelude
begin

text \<open>
  internal/alerts/rule.go, defaults.go and the configuration half of service.go: rules and their
  validation, the fingerprint of a series, the bundled rules, and the validation of the
  alerting configuration. SHA-256 is a parameter (a function from bytes to bytes).
\<close>

record rule =
  ru_Name :: string
  ru_Expr :: string
  ru_Severity :: string
  ru_Message :: string
  ru_FingerprintLabels :: "string list"

definition rule_validate :: "rule \<Rightarrow> unit result" where
  "rule_validate r =
     (if trim_space (ru_Name r) = [] then Inl (new_error ''rule.name is required'')
      else if trim_space (ru_Expr r) = [] then
        Inl (new_error (''rule['' @ ru_Name r @ ''].expr is required''))
      else if ru_Severity r \<noteq> [] \<and> ru_Severity r \<notin> {''critical'', ''warning'', ''info''} then
        Inl (new_error (''rule['' @ ru_Name r @ ''].severity must be one of critical|warning|info, got '' @
          go_quote (ru_Severity r)))
      else Inr ())"

section \<open>Fingerprints\<close>

definition nul :: char where "nul = CHR 0x00"

definition fingerprint_keys :: "rule \<Rightarrow> string go_map \<Rightarrow> string list" where
  "fingerprint_keys r labels =
     (if ru_FingerprintLabels r = [] then sort (map fst labels) else ru_FingerprintLabels r)"

definition fingerprint_input :: "string list \<Rightarrow> string go_map \<Rightarrow> string" where
  "fingerprint_input keys labels = concat (map (\<lambda>k. k @ CHR 0x3D # map_get labels k @ [nul]) keys)"

definition hex_encode :: "string \<Rightarrow> string" where
  "hex_encode bs = concat (map (\<lambda>c. let n = (of_char c :: nat) in
     [hex_digit (n div 16), hex_digit (n mod 16)]) bs)"

definition fingerprint :: "(string \<Rightarrow> string) \<Rightarrow> rule \<Rightarrow> string go_map \<Rightarrow> string" where
  "fingerprint sha r labels =
     hex_encode (take 8 (sha (fingerprint_input (fingerprint_keys r labels) labels)))"

section \<open>Bundled rules\<close>

definition dq :: string where "dq = [CHR 0x22]"

definition default_rules :: "rule list" where
  "default_rules =
    [\<lparr>ru_Name = ''server_unreachable'', ru_Expr = ''time() - timestamp(frappe_server_load_1m) > 300'',
      ru_Severity = ''critical'',
      ru_Message = ''Server '' @ dq @ ''{{.Labels.server}}'' @ dq @ '' hasn'' @ [CHR 0x27] @
        ''t reported metrics in over 5 minutes (last value {{.Value}}s ago).'',
      ru_FingerprintLabels = [''server'']\<rparr>,
     \<lparr>ru_Name = ''disk_almost_full'',
      ru_Expr = ''100 * frappe_server_disk_used_bytes / frappe_server_disk_total_bytes > 90'',
      ru_Severity = ''warning'',
      ru_Message = ''Disk '' @ dq @ ''{{.Labels.mount}}'' @ dq @ '' on {{.Labels.server}} is {{printf '' @
        dq @ ''%.1f'' @ dq @ '' .Value}}% full.'',
      ru_FingerprintLabels = [''server'', ''mount'']\<rparr>,
     \<lparr>ru_Name = ''site_unhealthy'', ru_Expr = ''frappe_site_is_healthy == 0'',
      ru_Severity = ''critical'',
      ru_Message = ''Site '' @ dq @ ''{{.Labels.site}}'' @ dq @
        '' on {{.Labels.server}}/{{.Labels.bench}} is unhealthy.'',
      ru_FingerprintLabels = [''server'', ''bench'', ''site'']\<rparr>,
     \<lparr>ru_Name = ''redis_queue_high'', ru_Expr = ''frappe_bench_redis_queue_depth > 1000'',
      ru_Severity = ''warning'',
      ru_Message = ''Redis queue '' @ dq @ ''{{.Labels.queue}}'' @ dq @
        '' on {{.Labels.server}}/{{.Labels.bench}} has {{.Value}} pending jobs.'',
      ru_FingerprintLabels = [''server'', ''bench'', ''queue'']\<rparr>]"

section \<open>Configuration\<close>

record telegram_config =
  tc_BotToken :: string
  tc_ChatIDs :: "string list"
  tc_SendTimeoutSeconds :: int

record alerts_config =
  ac_Enabled :: bool
  ac_EvaluationIntervalSeconds :: int
  ac_NotifyRepeatSeconds :: int
  ac_VMQueryTimeoutSeconds :: int
  ac_Telegram :: telegram_config
  ac_Rules :: "rule list"
  ac_DisableDefaults :: bool

fun validate_rules :: "nat \<Rightarrow> rule list \<Rightarrow> unit result" where
  "validate_rules i [] = Inr ()"
| "validate_rules i (r # rs) =
     (case rule_validate r of
        Inl e \<Rightarrow> Inl (wrap_error (''alerts.rules['' @ format_int (int i) @ '']: '') e)
      | Inr _ \<Rightarrow> validate_rules (Suc i) rs)"

definition alerts_config_validate :: "alerts_config \<Rightarrow> unit result" where
  "alerts_config_validate c =
     (if \<not> ac_Enabled c then Inr ()
      else if ac_EvaluationIntervalSeconds c < 15 then
        Inl (new_error (''alerts.evaluation_interval_seconds must be >= 15, got '' @
          format_int (ac_EvaluationIntervalSeconds c)))
      else if ac_VMQueryTimeoutSeconds c < 1 then
        Inl (new_error (''alerts.vm_query_timeout_seconds must be >= 1, got '' @
          format_int (ac_VMQueryTimeoutSeconds c)))
      else if trim_space (tc_BotToken (ac_Telegram c)) = [] then
        Inl (new_error ''alerts.telegram.bot_token is required when alerts.enabled is true'')
      else if tc_ChatIDs (ac_Telegram c) = [] then
        Inl (new_error ''alerts.telegram.chat_ids must contain at least one entry when alerts.enabled is true'')
      else if tc_SendTimeoutSeconds (ac_Telegram c) < 1 then
        Inl (new_error (''alerts.telegram.send_timeout_seconds must be >= 1, got '' @
          format_int (tc_SendTimeoutSeconds (ac_Telegram c))))
      else validate_rules 0 (ac_Rules c))"

section \<open>Validation\<close>

definition rule_usable :: "rule \<Rightarrow> bool" where
  "rule_usable r \<longleftrightarrow> trim_space (ru_Name r) \<noteq> [] \<and> trim_space (ru_Expr r) \<noteq> [] \<and>
     ru_Severity r \<in> {[], ''critical'', ''warning'', ''info''}"

lemma rule_validate_ok: "is_ok (rule_validate r) \<longleftrightarrow> rule_usable r"
  by (auto simp: rule_validate_def rule_usable_def)

lemma validate_rules_ok: "is_ok (validate_rules i rs) \<longleftrightarrow> (\<forall>r \<in> set rs. rule_usable r)"
  by (induction rs arbitrary: i) (auto split: sum.splits simp flip: rule_validate_ok)

lemma trim_space_plain:
  assumes "s \<noteq> []" "\<not> space_edge (of_char (hd s))" "\<not> space_edge (of_char (last s))"
  shows "trim_space s \<noteq> []"
  using trim_space_id [OF assms] assms(1) by simp

lemma default_rules_usable: "\<forall>r \<in> set default_rules. rule_usable r"
  by (simp add: default_rules_def rule_usable_def trim_space_plain space_edge_def)

text \<open>
  The alerts configuration is accepted exactly when alerting is off, or the interval is at
  least 15 seconds, the timeouts are positive, a bot token and a chat are given, and every
  rule has a name, an expression and a known severity; the four bundled rules pass that
  same check and have distinct names.
\<close>

lemma alerts_config_valid_iff:
  "(is_ok (alerts_config_validate c) \<longleftrightarrow> \<not> ac_Enabled c \<or>
     (15 \<le> ac_EvaluationIntervalSeconds c \<and> 1 \<le> ac_VMQueryTimeoutSeconds c \<and>
      trim_space (tc_BotToken (ac_Telegram c)) \<noteq> [] \<and> tc_ChatIDs (ac_Telegram c) \<noteq> [] \<and>
      1 \<le> tc_SendTimeoutSeconds (ac_Telegram c) \<and> (\<forall>r \<in> set (ac_Rules c). rule_usable r))) \<and>
   (\<forall>r \<in> set default_rules. is_ok (rule_validate r)) \<and> distinct (map ru_Name default_rules)"
proof (intro conjI)
  show "is_ok (alerts_config_validate c) \<longleftrightarrow> \<not> ac_Enabled c \<or>
     (15 \<le> ac_EvaluationIntervalSeconds c \<and> 1 \<le> ac_VMQueryTimeoutSeconds c \<and>
      trim_space (tc_BotToken (ac_Telegram c)) \<noteq> [] \<and> tc_ChatIDs (ac_Telegram c) \<noteq> [] \<and>
      1 \<le> tc_SendTimeoutSeconds (ac_Telegram c) \<and> (\<forall>r \<in> set (ac_Rules c). rule_usable r))"
    by (auto simp: alerts_config_validate_def validate_rules_ok)
  show "\<forall>r \<in> set default_rules. is_ok (rule_validate r)"
    using default_rules_usable by (simp add: rule_validate_ok)
  show "distinct (map ru_Name default_rules)" by (simp add: default_rules_def)
qed

definition config_example :: alerts_config where
  "config_example = \<lparr>ac_Enabled = True, ac_EvaluationIntervalSeconds = 30, ac_NotifyRepeatSeconds = 3600,
     ac_VMQueryTimeoutSeconds = 5,
     ac_Telegram = \<lparr>tc_BotToken = ''token'', tc_ChatIDs = [''42''], tc_SendTimeoutSeconds = 10\<rparr>,
     ac_Rules = default_rules, ac_DisableDefaults = True\<rparr>"

lemma alerts_config_valid_iff_witness:
  "is_ok (alerts_config_validate config_example) \<and>
   \<not> is_ok (alerts_config_validate (config_example\<lparr>ac_EvaluationIntervalSeconds := 14\<rparr>)) \<and>
   is_ok (alerts_config_validate (config_example\<lparr>ac_EvaluationIntervalSeconds := 14, ac_Enabled := False\<rparr>))"
  using default_rules_usable
  by (simp add: alerts_config_valid_iff config_example_def trim_space_plain space_edge_def)

section \<open>Fingerprints identify\<close>

lemma length_hex_encode: "length (hex_encode bs) = 2 * length bs"
  by (induction bs) (simp_all add: hex_encode_def Let_def)

lemma map_get_perm: "is_map m \<Longrightarrow> mset m = mset m' \<Longrightarrow> map_get m k = map_get m' k"
  using map_of_perm [of m m'] by (simp add: map_get_def)

lemma input_inj:
  assumes "\<forall>k \<in> set keys. nul \<notin> set (map_get m k)" "\<forall>k \<in> set keys. nul \<notin> set (map_get m' k)"
  shows "fingerprint_input keys m = fingerprint_input keys m' \<longleftrightarrow> (\<forall>k \<in> set keys. map_get m k = map_get m' k)"
  using assms
proof (induction keys)
  case Nil
  then show ?case by (simp add: fingerprint_input_def)
next
  case (Cons k ks)
  have split: "a @ nul # r = b @ nul # s \<longleftrightarrow> a = b \<and> r = s" if "nul \<notin> set a" "nul \<notin> set b" for a b r s
  proof
    assume eq: "a @ nul # r = b @ nul # s"
    have "takeWhile (\<lambda>c. c \<noteq> nul) (x @ nul # y) = x" if "nul \<notin> set x" for x y
      using that by (induction x) auto
    with that eq show "a = b \<and> r = s" by (metis append_same_eq same_append_eq list.inject)
  qed simp
  with Cons show ?case by (simp add: fingerprint_input_def)
qed

text \<open>
  A fingerprint is stable and separates series: it does not depend on the order in which the
  label map is iterated, it has sixteen hexadecimal digits for any 32-byte digest, and two series
  of one rule with explicit fingerprint labels hash the same bytes exactly when they agree on
  those labels (a missing one counting as empty), as long as no value holds a NUL byte.
\<close>

lemma fingerprint_stable:
  assumes "is_map labels" "mset labels = mset labels'" "\<forall>s. length (sha s) = 32"
  shows "fingerprint sha r labels = fingerprint sha r labels' \<and> length (fingerprint sha r labels) = 16 \<and>
    (\<forall>m m'. ru_FingerprintLabels r \<noteq> [] \<longrightarrow>
       (\<forall>k \<in> set (ru_FingerprintLabels r). nul \<notin> set (map_get m k) \<and> nul \<notin> set (map_get m' k)) \<longrightarrow>
       (fingerprint_input (fingerprint_keys r m) m = fingerprint_input (fingerprint_keys r m') m' \<longleftrightarrow>
         (\<forall>k \<in> set (ru_FingerprintLabels r). map_get m k = map_get m' k)))"
proof (intro conjI allI impI)
  have "sort (map fst labels) = sort (map fst labels')"
    using arg_cong [OF assms(2), of "image_mset fst"]
    by (metis mset_map mset_sort properties_for_sort sorted_sort)
  then have keys: "fingerprint_keys r labels = fingerprint_keys r labels'"
    by (simp add: fingerprint_keys_def)
  have "fingerprint_input ks labels = fingerprint_input ks labels'" for ks
    using map_get_perm [OF assms(1,2)] by (simp add: fingerprint_input_def)
  with keys show "fingerprint sha r labels = fingerprint sha r labels'"
    by (simp add: fingerprint_def)
  show "length (fingerprint sha r labels) = 16"
    using assms(3) by (simp add: fingerprint_def length_hex_encode)
next
  fix m m'
  assume "ru_FingerprintLabels r \<noteq> []"
    "\<forall>k \<in> set (ru_FingerprintLabels r). nul \<notin> set (map_get m k) \<and> nul \<notin> set (map_get m' k)"
  then show "fingerprint_input (fingerprint_keys r m) m = fingerprint_input (fingerprint_keys r m') m' \<longleftrightarrow>
         (\<forall>k \<in> set (ru_FingerprintLabels r). map_get m k = map_get m' k)"
    using input_inj [of "ru_FingerprintLabels r" m m'] by (simp add: fingerprint_keys_def)
qed

lemma fingerprint_stable_witness:
  "fingerprint (\<lambda>s. replicate 32 (CHR 0x41)) (hd default_rules) [(''server'', ''a''), (''env'', ''x'')] =
   fingerprint (\<lambda>s. replicate 32 (CHR 0x41)) (hd default_rules) [(''env'', ''x''), (''server'', ''a'')]"
  using fingerprint_stable [of "[(''server'', ''a''), (''env'', ''x'')]" "[(''env'', ''x''), (''server'', ''a'')]"
      "\<lambda>s. replicate 32 (CHR 0x41)" "hd default_rules"]
  by (simp add: is_map_def add_mset_commute)

end
