(* ===== verification/Alert_Notify.thy ===== *)
theory Alert_Notify
  imports Alert_Rules Http_Client Json
begin

text \<open>
  internal/alerts/telegram.go and vmclient.go: notifications, their rendering as Telegram HTML, the
  Telegram client and the fan-out over chats, and the client of VictoriaMetrics' instant queries. The
  wall-clock rendering of a time and the decoding of a JSON response are parameters. The lemmas
  show that no label, rule name or message can add a tag to the card, and that a fan-out
  reaches every chat.
\<close>

section \<open>Notifications\<close>

record notification =
  nt_Severity :: string
  nt_RuleName :: string
  nt_Body :: string
  nt_Labels :: "string go_map"
  nt_Resolved :: bool
  nt_Time :: time

text \<open>\<open>escapeHTML\<close> replaces three bytes.\<close>

definition html_escaper :: "char \<Rightarrow> string" where
  "html_escaper c =
     (if c = CHR ''&'' then ''&amp;'' else if c = CHR ''<'' then ''&lt;''
      else if c = CHR ''>'' then ''&gt;'' else [c])"

definition escape_html :: "string \<Rightarrow> string" where
  "escape_html s = replace_bytes html_escaper s"

definition severity_visuals :: "notification \<Rightarrow> string \<times> string \<times> string" where
  "severity_visuals n =
     (if nt_Resolved n then ([CHR 0xE2, CHR 0x9C, CHR 0x85], ''RESOLVED'', ''cleared'')
      else let s = to_lower (trim_space (nt_Severity n)) in
        if s = ''critical'' then ([CHR 0xF0, CHR 0x9F, CHR 0x9A, CHR 0xA8], ''CRITICAL'', ''fired'')
        else if s = ''warning'' then ([CHR 0xE2, CHR 0x9A, CHR 0xA0, CHR 0xEF, CHR 0xB8, CHR 0x8F], ''WARNING'', ''fired'')
        else if s = ''info'' then ([CHR 0xE2, CHR 0x84, CHR 0xB9, CHR 0xEF, CHR 0xB8, CHR 0x8F], ''INFO'', ''fired'')
        else ([CHR 0xF0, CHR 0x9F, CHR 0x94, CHR 0x94], ''ALERT'', ''fired''))"

definition arrow :: string where
  "arrow = '' '' @ [CHR 0xE2, CHR 0x86, CHR 0x92] @ '' ''"

definition build_breadcrumb :: "string go_map \<Rightarrow> string" where
  "build_breadcrumb labels =
     (if labels = [] then []
      else join arrow (List.map_filter (\<lambda>k. case map_of labels k of
             None \<Rightarrow> None
           | Some v \<Rightarrow> if trim_space v \<noteq> [] then Some (escape_html v) else None)
         [''server'', ''bench'', ''site'']))"

text \<open>\<open>clock\<close> renders a time as \<open>15:04 MST\<close>, \<open>now\<close> is what the clock reads for a zero time.\<close>

definition format_message :: "(time \<Rightarrow> string) \<Rightarrow> time \<Rightarrow> notification \<Rightarrow> string" where
  "format_message clock now n =
     (case severity_visuals n of (icon, head, verb) \<Rightarrow>
        let t = (if nt_Time n = zero_time then now else nt_Time n);
            footer = verb @ '' '' @ clock t;
            trimmed = trim_space (nt_Body n);
            body = (if trimmed = [] then nt_RuleName n @ '' triggered.'' else trimmed);
            crumb = build_breadcrumb (nt_Labels n);
            nl = CHR 0x0A
        in icon @ '' <b>'' @ head @ ''</b> '' @ [CHR 0xE2, CHR 0x80, CHR 0x94] @ '' <i>'' @
             escape_html (nt_RuleName n) @ ''</i>'' @ [nl, nl] @
           ''<b>'' @ escape_html body @ ''</b>'' @
           (if crumb \<noteq> [] then [nl, nl] @ crumb else []) @
           [nl] @ ''<code>'' @ escape_html footer @ ''</code>'')"

section \<open>Clients\<close>

record telegram_client =
  tg_BotToken :: string
  tg_ChatID :: string
  tg_Timeout :: duration
  tg_APIBase :: string

definition new_telegram_client :: "string \<Rightarrow> string \<Rightarrow> duration \<Rightarrow> telegram_client" where
  "new_telegram_client token chat timeout =
     \<lparr>tg_BotToken = token, tg_ChatID = chat, tg_Timeout = timeout,
      tg_APIBase = ''https://api.telegram.org''\<rparr>"

definition telegram_body :: "telegram_client \<Rightarrow> string \<Rightarrow> json" where
  "telegram_body c text = JObject
     [(''chat_id'', JString (tg_ChatID c)), (''text'', JString text),
      (''parse_mode'', JString ''HTML''), (''disable_web_page_preview'', JBool True)]"

text \<open>The reply's \<open>ok\<close> flag and description.\<close>

type_synonym telegram_decoder = "string \<Rightarrow> (bool \<times> string) result"

definition telegram_notify ::
  "http_env \<Rightarrow> telegram_decoder \<Rightarrow> (time \<Rightarrow> string) \<Rightarrow> time \<Rightarrow> telegram_client \<Rightarrow> notification \<Rightarrow> unit result" where
  "telegram_notify env decode clock now c n =
     (if tg_BotToken c = [] \<or> tg_ChatID c = [] then
        Inl (new_error ''telegram: bot token or chat id missing'')
      else
        (let rq = \<lparr>rq_method = ''POST'',
               rq_url = trim_slash (tg_APIBase c) @ ''/bot'' @ tg_BotToken c @ ''/sendMessage'',
               rq_content_type = ''application/json'',
               rq_body = json_text (telegram_body c (format_message clock now n))\<rparr>
         in case http_call env rq ''telegram: build request: '' ''telegram: send: '' of
              Inl e \<Rightarrow> Inl e
            | Inr rs \<Rightarrow>
                if \<not> is_2xx rs then Inl (http_status_error ''telegram: '' 1024 rs)
                else (case decode (rs_body rs) of
                        Inl e \<Rightarrow> Inl (wrap_error ''telegram: decode: '' e)
                      | Inr (ok, description) \<Rightarrow>
                          if \<not> ok then Inl (new_error (''telegram: api error: '' @ description))
                          else Inr ())))"

text \<open>\<open>MultiNotifier\<close>: every notifier is called, in order, and the errors are joined.\<close>

definition errors_join :: "go_error list \<Rightarrow> unit result" where
  "errors_join es =
     (if es = [] then Inr ()
      else Inl \<lparr>err_chain = concat (map err_chain es), err_msg = join [CHR 0x0A] (map err_msg es)\<rparr>)"

fun notify_all :: "('s \<Rightarrow> notification \<Rightarrow> unit result \<times> 's) list \<Rightarrow> notification \<Rightarrow> 's \<Rightarrow> go_error list \<times> 's" where
  "notify_all [] n s = ([], s)"
| "notify_all (f # fs) n s =
     (case f s n of
        (r, s1) \<Rightarrow> (case notify_all fs n s1 of
          (es, s2) \<Rightarrow> ((case r of Inl e \<Rightarrow> e # es | Inr _ \<Rightarrow> es), s2)))"

definition multi_notify ::
  "('s \<Rightarrow> notification \<Rightarrow> unit result \<times> 's) list \<Rightarrow> notification \<Rightarrow> 's \<Rightarrow> unit result \<times> 's" where
  "multi_notify fs n s = (case notify_all fs n s of (es, s') \<Rightarrow> (errors_join es, s'))"

section \<open>Instant queries\<close>

record 'f sample =
  sa_Labels :: "string go_map"
  sa_Value :: 'f

text \<open>The decoded response: per result its metric (none for a JSON null) and the text of
  \<open>value[1]\<close>, when that is a JSON string.\<close>

record vm_instant_response =
  vr_Status :: string
  vr_Result :: "(string go_map option \<times> string option) list"
  vr_Error :: string

record http_vm_client =
  hv_BaseURL :: string
  hv_Timeout :: duration

definition new_http_vm_client :: "string \<Rightarrow> duration \<Rightarrow> http_vm_client" where
  "new_http_vm_client base timeout = \<lparr>hv_BaseURL = trim_slash base, hv_Timeout = timeout\<rparr>"

fun vm_samples :: "'f float_ops \<Rightarrow> (string go_map option \<times> string option) list \<Rightarrow> 'f sample list" where
  "vm_samples fo [] = []"
| "vm_samples fo ((metric, v) # rs) =
     (case v of
        None \<Rightarrow> vm_samples fo rs
      | Some s \<Rightarrow>
          (case parse_float fo s of
             Inl _ \<Rightarrow> vm_samples fo rs
           | Inr f \<Rightarrow>
               \<lparr>sa_Labels = (case metric of None \<Rightarrow> [] | Some m \<Rightarrow> m), sa_Value = f\<rparr> # vm_samples fo rs))"

definition vm_query ::
  "http_env \<Rightarrow> (string \<Rightarrow> vm_instant_response result) \<Rightarrow> 'f float_ops \<Rightarrow> http_vm_client \<Rightarrow> string \<Rightarrow>
     'f sample list result" where
  "vm_query env decode fo c expr =
     (let rq = \<lparr>rq_method = ''GET'',
            rq_url = hv_BaseURL c @ ''/api/v1/query?'' @ encode_values [(''query'', expr)],
            rq_content_type = [], rq_body = []\<rparr>
      in case http_call env rq ''build vm request: '' ''vm unreachable: '' of
           Inl e \<Rightarrow> Inl e
         | Inr rs \<Rightarrow>
             if \<not> is_2xx rs then Inl (http_status_error ''vm '' 4096 rs)
             else (case decode (rs_body rs) of
                     Inl e \<Rightarrow> Inl (wrap_error ''vm response decode: '' e)
                   | Inr out \<Rightarrow>
                       if vr_Status out \<noteq> ''success'' then Inl (new_error (''vm error: '' @ vr_Error out))
                       else Inr (vm_samples fo (vr_Result out))))"

section \<open>Escaping\<close>

fun html_text :: "string \<Rightarrow> string" where
  "html_text [] = []"
| "html_text (c # s) =
     (if c = CHR ''&'' then
        (if has_prefix ''amp;'' s then CHR ''&'' # html_text (drop 4 s)
         else if has_prefix ''lt;'' s then CHR ''<'' # html_text (drop 3 s)
         else if has_prefix ''gt;'' s then CHR ''>'' # html_text (drop 3 s)
         else c # html_text s)
      else c # html_text s)"

interpretation html: byte_escape html_escaper html_text
proof
  show "html_text (html_escaper c @ s) = c # html_text s" for c s
    by (simp add: html_escaper_def has_prefix_def)
qed simp

lemma html_escaper_no_tag: "CHR ''<'' \<notin> set (html_escaper c)"
  by (simp add: html_escaper_def)

lemma escape_html_no_tag: "CHR ''<'' \<notin> set (escape_html s)"
  using html_escaper_no_tag by (simp add: escape_html_def replace_bytes_def)

lemma count_escape_html [simp]: "count_list (escape_html s) (CHR ''<'') = 0"
  using escape_html_no_tag by (simp add: count_list_0_iff)

lemma count_join:
  "count_list sep c = 0 \<Longrightarrow> \<forall>x \<in> set xs. count_list x c = 0 \<Longrightarrow> count_list (join sep xs) c = 0"
  by (induction sep xs rule: join.induct) (simp_all add: count_list_append)

lemma count_breadcrumb: "count_list (build_breadcrumb labels) (CHR ''<'') = 0"
proof -
  have arrow: "count_list arrow (CHR ''<'') = 0" by (simp add: arrow_def)
  have "\<forall>x \<in> set (List.map_filter (\<lambda>k. case map_of labels k of
             None \<Rightarrow> None
           | Some v \<Rightarrow> if trim_space v \<noteq> [] then Some (escape_html v) else None) ks).
        count_list x (CHR ''<'') = 0" for ks
    by (induction ks) (auto simp: map_filter_simps split: option.splits)
  note crumbs = count_join [OF arrow this]
  show ?thesis
  proof (cases "labels = []")
    case False
    show ?thesis unfolding build_breadcrumb_def if_not_P [OF False] by (rule crumbs)
  qed (simp add: build_breadcrumb_def)
qed

lemma severity_no_tag:
  "severity_visuals n = (icon, head, verb) \<Longrightarrow>
     count_list icon (CHR ''<'') = 0 \<and> count_list head (CHR ''<'') = 0"
  by (auto simp: severity_visuals_def Let_def split: if_splits)

text \<open>
  The Telegram card has exactly the eight tags the program writes, whatever the labels, the
  rule name, the rendered message and the clock text contain; and unescaping what was escaped gives
  the text back, so nothing is lost.
\<close>

lemma format_message_tags:
  "count_list (format_message clock now n) (CHR ''<'') = 8 \<and> html_text (escape_html s) = s"
proof
  obtain icon head verb where v: "severity_visuals n = (icon, head, verb)" by (metis surj_pair)
  from severity_no_tag [OF this] count_breadcrumb
  show "count_list (format_message clock now n) (CHR ''<'') = 8"
    by (simp add: format_message_def v Let_def count_list_append)
  show "html_text (escape_html s) = s"
    unfolding escape_html_def by (rule html.dec_replace)
qed

section \<open>Fan-out\<close>

lemma errors_join_ok: "is_ok (errors_join es) \<longleftrightarrow> es = []"
  by (simp add: errors_join_def)

text \<open>The notifiers of a test: each records its own number and answers as told.\<close>

definition recording :: "nat \<Rightarrow> unit result \<Rightarrow> nat list \<Rightarrow> notification \<Rightarrow> unit result \<times> nat list" where
  "recording i r s n = (r, s @ [i])"

lemma notify_all_recording:
  "notify_all (map (\<lambda>(i, r). recording i r) irs) n s =
     (List.map_filter (\<lambda>(i, r). case r of Inl e \<Rightarrow> Some e | Inr _ \<Rightarrow> None) irs, s @ map fst irs)"
proof (induction irs arbitrary: s)
  case Nil
  then show ?case by (simp add: map_filter_simps)
next
  case (Cons ir irs)
  obtain i r where ir: "ir = (i, r)" by (cases ir)
  have "recording i r s n = (r, s @ [i])" by (simp add: recording_def)
  then show ?case by (cases r) (simp_all add: ir Cons.IH map_filter_simps)
qed

text \<open>
  A notification is handed to every chat's client exactly once and in order, even after an earlier
  one failed, and the fan-out reports success only when all of them succeeded.
\<close>

lemma multi_notify_reaches_all:
  "snd (multi_notify (map (\<lambda>(i, r). recording i r) irs) n []) = map fst irs \<and>
   (is_ok (fst (multi_notify (map (\<lambda>(i, r). recording i r) irs) n [])) \<longleftrightarrow> (\<forall>(i, r) \<in> set irs. is_ok r))"
proof -
  have "List.map_filter (\<lambda>(i, r). case r of Inl e \<Rightarrow> Some e | Inr _ \<Rightarrow> None) irs = [] \<longleftrightarrow>
      (\<forall>(i, r) \<in> set irs. is_ok r)" for irs :: "(nat \<times> unit result) list"
    by (induction irs) (auto simp: map_filter_simps split: sum.splits)
  then show ?thesis by (simp add: multi_notify_def notify_all_recording errors_join_ok)
qed

lemma multi_notify_reaches_all_witness:
  "\<forall>n. snd (multi_notify (map (\<lambda>(i, r). recording i r) [(1, Inl (new_error ''down'')), (2, Inr ())]) n []) = [1, 2]"
  using multi_notify_reaches_all [of "[(1, Inl (new_error ''down'')), (2, Inr ())]"] by simp

end
