(* ===== verification/Alert_Eval.thy ===== *)
theory Alert_Eval
  imports Alert_Notify Storage
begin

text \<open>
  internal/alerts/evaluator.go and service.go: one evaluation of a rule reconciles the series the
  rule reports with the rows the store holds for it, and the service runs an evaluation at the
  start and on each tick until it is stopped. The query, the notifier, the template engine
  and the map iteration orders are fields of \<open>evaluator\<close>. The state is the database and the list
  of notifications handed to the notifier.
\<close>

record 'f evaluator =
  ev_Rules :: "rule list"
  ev_query :: "string \<Rightarrow> 'f sample list result"
  ev_notify :: "notification \<Rightarrow> unit result"
  ev_NotifyRepeatTime :: duration
  ev_env :: sql_env
  ev_sha :: "string \<Rightarrow> string"
  ev_floats :: "'f float_ops"
  ev_template :: "rule \<Rightarrow> 'f sample \<Rightarrow> string option"
  ev_fire_order :: "(string \<times> 'f sample) list \<Rightarrow> (string \<times> 'f sample) list"
  ev_prev_order :: "(string \<times> 'f alert_state) list \<Rightarrow> (string \<times> 'f alert_state) list"

record 'f alert_world =
  aw_db :: "'f db"
  aw_sent :: "notification list"

definition with_alert_db :: "('f db \<Rightarrow> 'a \<times> 'f db) \<Rightarrow> 'f alert_world \<Rightarrow> 'a \<times> 'f alert_world" where
  "with_alert_db op w = (case op (aw_db w) of (r, db) \<Rightarrow> (r, w\<lparr>aw_db := db\<rparr>))"

definition send_notif :: "'f evaluator \<Rightarrow> notification \<Rightarrow> 'f alert_world \<Rightarrow> unit result \<times> 'f alert_world" where
  "send_notif ev n w = (ev_notify ev n, w\<lparr>aw_sent := aw_sent w @ [n]\<rparr>)"

section \<open>Messages\<close>

definition default_message :: "'f float_ops \<Rightarrow> rule \<Rightarrow> string go_map \<Rightarrow> 'f \<Rightarrow> string" where
  "default_message fo r labels v =
     (let keys = sort (filter (\<lambda>k. k \<noteq> ''__name__'') (map fst labels));
          pairs = map (\<lambda>k. k @ ''='' @ map_get labels k) keys
      in ru_Name r @ '' {'' @ join '','' pairs @ ''} value='' @ format_float4 fo v)"

text \<open>\<open>ev_template\<close> is the parsed and executed template, or nothing when either step failed.\<close>

definition render_message :: "'f evaluator \<Rightarrow> rule \<Rightarrow> 'f sample \<Rightarrow> string" where
  "render_message ev r s =
     (if ru_Message r = [] then default_message (ev_floats ev) r (sa_Labels s) (sa_Value s)
      else (case ev_template ev r s of
              None \<Rightarrow> default_message (ev_floats ev) r (sa_Labels s) (sa_Value s)
            | Some t \<Rightarrow> t))"

definition state_labels :: "'f alert_state \<Rightarrow> string go_map" where
  "state_labels p = (case as_Labels p of None \<Rightarrow> [] | Some l \<Rightarrow> l)"

definition render_resolved_message :: "'f evaluator \<Rightarrow> rule \<Rightarrow> 'f alert_state \<Rightarrow> string" where
  "render_resolved_message ev r p = default_message (ev_floats ev) r (state_labels p) (as_Value p)"

definition fire_notif :: "'f evaluator \<Rightarrow> rule \<Rightarrow> time \<Rightarrow> 'f sample \<Rightarrow> notification" where
  "fire_notif ev r now s =
     \<lparr>nt_Severity = ru_Severity r, nt_RuleName = ru_Name r, nt_Body = render_message ev r s,
      nt_Labels = sa_Labels s, nt_Resolved = False, nt_Time = now\<rparr>"

definition resolve_notif :: "'f evaluator \<Rightarrow> rule \<Rightarrow> time \<Rightarrow> 'f alert_state \<Rightarrow> notification" where
  "resolve_notif ev r now p =
     \<lparr>nt_Severity = ru_Severity r, nt_RuleName = ru_Name r, nt_Body = render_resolved_message ev r p,
      nt_Labels = state_labels p, nt_Resolved = True, nt_Time = now\<rparr>"

section \<open>One rule\<close>

fun firing_map :: "(string \<Rightarrow> string) \<Rightarrow> rule \<Rightarrow> 'f sample list \<Rightarrow> (string \<times> 'f sample) list \<Rightarrow> (string \<times> 'f sample) list" where
  "firing_map sha r [] m = m"
| "firing_map sha r (s # ss) m = firing_map sha r ss (map_put m (fingerprint sha r (sa_Labels s)) s)"

fun prev_map :: "'f alert_state list \<Rightarrow> (string \<times> 'f alert_state) list \<Rightarrow> (string \<times> 'f alert_state) list" where
  "prev_map [] m = m"
| "prev_map (p # ps) m = prev_map ps (map_put m (as_Fingerprint p) p)"

definition should_notify :: "duration \<Rightarrow> time \<Rightarrow> 'f alert_state option \<Rightarrow> bool" where
  "should_notify repeat now previous =
     (case previous of
        None \<Rightarrow> True
      | Some p \<Rightarrow> as_Status p \<noteq> ''firing'' \<or> time_sub now (as_LastNotifiedAt p) \<ge> repeat)"

definition fire_state :: "duration \<Rightarrow> rule \<Rightarrow> time \<Rightarrow> 'f alert_state option \<Rightarrow> string \<Rightarrow> 'f sample \<Rightarrow> 'f alert_state" where
  "fire_state repeat r now previous fp s =
     \<lparr>as_ID = 0, as_RuleName = ru_Name r, as_Fingerprint = fp, as_Labels = Some (sa_Labels s),
      as_Status = ''firing'', as_Value = sa_Value s, as_FirstFiredAt = zero_time,
      as_LastNotifiedAt =
        (if should_notify repeat now previous then now
         else (case previous of Some p \<Rightarrow> as_LastNotifiedAt p | None \<Rightarrow> zero_time)),
      as_UpdatedAt = zero_time\<rparr>"

definition fire_one ::
  "'f evaluator \<Rightarrow> rule \<Rightarrow> time \<Rightarrow> (string \<times> 'f alert_state) list \<Rightarrow> string \<times> 'f sample \<Rightarrow>
     'f alert_world \<Rightarrow> 'f alert_world" where
  "fire_one ev r now prev fs w =
     (case fs of (fp, s) \<Rightarrow>
        let previous = map_of prev fp;
            notify = should_notify (ev_NotifyRepeatTime ev) now previous
        in case with_alert_db (upsert_alert_state (ev_env ev) now
                  (fire_state (ev_NotifyRepeatTime ev) r now previous fp s)) w of
             (Inl _, w1) \<Rightarrow> w1
           | (Inr _, w1) \<Rightarrow>
               if notify then snd (send_notif ev (fire_notif ev r now s) w1) else w1)"

definition resolve_one ::
  "'f evaluator \<Rightarrow> rule \<Rightarrow> time \<Rightarrow> (string \<times> 'f sample) list \<Rightarrow> string \<times> 'f alert_state \<Rightarrow>
     'f alert_world \<Rightarrow> 'f alert_world" where
  "resolve_one ev r now firing fp_prev w =
     (case fp_prev of (fp, previous) \<Rightarrow>
        if map_of firing fp \<noteq> None then w
        else
          (let w1 = (if as_Status previous = ''firing''
                     then snd (send_notif ev (resolve_notif ev r now previous) w) else w)
           in snd (with_alert_db (delete_alert_state (as_ID previous)) w1)))"

definition evaluate_rule ::
  "'f evaluator \<Rightarrow> rule \<Rightarrow> time \<Rightarrow> 'f alert_world \<Rightarrow> go_error option \<times> 'f alert_world" where
  "evaluate_rule ev r now w0 =
     (case ev_query ev (ru_Expr r) of
        Inl e \<Rightarrow> (Some (wrap_error ''vm query: '' e), w0)
      | Inr samples \<Rightarrow>
          (let firing = firing_map (ev_sha ev) r samples [] in
           case with_alert_db (list_alert_states_by_rule (ru_Name r)) w0 of
             (Inl e, w1) \<Rightarrow> (Some (wrap_error ''list state: '' e), w1)
           | (Inr ps, w1) \<Rightarrow>
               (let prev = prev_map ps [];
                    w2 = fold (fire_one ev r now prev) (ev_fire_order ev firing) w1;
                    w3 = fold (resolve_one ev r now firing) (ev_prev_order ev prev) w2
                in (None, w3))))"

definition evaluate_once :: "'f evaluator \<Rightarrow> time \<Rightarrow> 'f alert_world \<Rightarrow> 'f alert_world" where
  "evaluate_once ev now w = fold (\<lambda>r w. snd (evaluate_rule ev r now w)) (ev_Rules ev) w"

section \<open>The service\<close>

record 'f alert_service =
  av_evaluator :: "'f evaluator"
  av_interval :: duration

text \<open>What \<open>New\<close> wires from the configuration: the interfaces are given as functions of their
  configuration.\<close>

definition new_service ::
  "alerts_config \<Rightarrow> string \<Rightarrow> (http_vm_client \<Rightarrow> telegram_client list \<Rightarrow> rule list \<Rightarrow> duration \<Rightarrow> 'f evaluator) \<Rightarrow>
     'f alert_service option result" where
  "new_service cfg vm_base build =
     (case alerts_config_validate cfg of
        Inl e \<Rightarrow> Inl e
      | Inr _ \<Rightarrow>
          if \<not> ac_Enabled cfg then Inr None
          else
            (let rules = (if ac_DisableDefaults cfg then ac_Rules cfg else default_rules @ ac_Rules cfg);
                 vm = new_http_vm_client vm_base (wrap64 (ac_VMQueryTimeoutSeconds cfg * second));
                 chats = map (\<lambda>id. new_telegram_client (tc_BotToken (ac_Telegram cfg)) id
                   (wrap64 (tc_SendTimeoutSeconds (ac_Telegram cfg) * second))) (tc_ChatIDs (ac_Telegram cfg))
             in Inr (Some \<lparr>av_evaluator = build vm chats rules (wrap64 (ac_NotifyRepeatSeconds cfg * second)),
                           av_interval = wrap64 (ac_EvaluationIntervalSeconds cfg * second)\<rparr>)))"

text \<open>What the loop's select can receive; a tick carries the clock reading.\<close>

datatype service_event = Tick time | CtxDone | StopCalled

fun service_loop :: "'f evaluator \<Rightarrow> service_event list \<Rightarrow> 'f alert_world \<Rightarrow> 'f alert_world" where
  "service_loop ev [] w = w"
| "service_loop ev (Tick now # es) w = service_loop ev es (evaluate_once ev now w)"
| "service_loop ev (CtxDone # es) w = w"
| "service_loop ev (StopCalled # es) w = w"

definition service_start :: "'f alert_service \<Rightarrow> time \<Rightarrow> service_event list \<Rightarrow> 'f alert_world \<Rightarrow> 'f alert_world" where
  "service_start s now es w = service_loop (av_evaluator s) es (evaluate_once (av_evaluator s) now w)"

definition service_rules :: "'f alert_service \<Rightarrow> rule list" where
  "service_rules s = ev_Rules (av_evaluator s)"

section \<open>The two maps\<close>

lemma firing_map_is_map: "is_map m \<Longrightarrow> is_map (firing_map sha r ss m)"
  by (induction ss arbitrary: m) simp_all

lemma firing_map_keys:
  "fst ` set (firing_map sha r ss m) = fst ` set m \<union> (\<lambda>s. fingerprint sha r (sa_Labels s)) ` set ss"
  by (induction ss arbitrary: m) (auto simp: dom_map_of_conv_image_fst [symmetric] simp del: dom_fun_upd)

lemma prev_map_append:
  "distinct (map fst m @ map as_Fingerprint ps) \<Longrightarrow> prev_map ps m = m @ map (\<lambda>p. (as_Fingerprint p, p)) ps"
proof (induction ps arbitrary: m)
  case Nil
  then show ?case by simp
next
  case (Cons p ps)
  have "as_Fingerprint p \<notin> fst ` set m" using Cons.prems by auto
  then have "map_put m (as_Fingerprint p) p = m @ [(as_Fingerprint p, p)]" by (rule map_put_new)
  with Cons show ?case by simp
qed

definition rule_rows :: "'f db \<Rightarrow> string \<Rightarrow> 'f ent_alert list" where
  "rule_rows db name = filter (\<lambda>a. ea_RuleName a = name) (db_alerts db)"

lemma prev_map_rows:
  assumes "db_ok db"
  shows "prev_map (map ent_to_alert_state (rule_rows db name)) [] =
     map (\<lambda>a. (ea_Fingerprint a, ent_to_alert_state a)) (rule_rows db name)"
proof -
  have d: "distinct (map (\<lambda>a. (ea_RuleName a, ea_Fingerprint a)) (db_alerts db))"
    using assms by (simp add: db_ok_def alerts_ok_def)
  have "distinct (map ea_Fingerprint (rule_rows db name))"
    using d unfolding rule_rows_def
    by (auto simp: distinct_map inj_on_def intro: distinct_filter)
  then show ?thesis
    by (subst prev_map_append) (simp_all add: ent_to_alert_state_def comp_def)
qed

lemma alert_ofD: "alert_of db k = Some a \<Longrightarrow> a \<in> set (db_alerts db) \<and> alert_key a = k"
  by (auto simp: alert_of_def dest!: find_SomeD)

lemma alert_ofI:
  assumes "db_ok db" "a \<in> set (db_alerts db)"
  shows "alert_of db (alert_key a) = Some a"
proof -
  have "distinct (map alert_key (db_alerts db))"
    unfolding alert_key_def using assms(1) by (simp add: db_ok_def alerts_ok_def)
  then show ?thesis using assms(2) unfolding alert_of_def by (rule find_by_id)
qed

lemma map_of_rows:
  assumes "db_ok db"
  shows "map_of (map (\<lambda>a. (ea_Fingerprint a, ent_to_alert_state a)) (rule_rows db name)) fp =
     map_option ent_to_alert_state (alert_of db (name, fp))"
proof -
  have d: "distinct (map fst (map (\<lambda>a. (ea_Fingerprint a, ent_to_alert_state a)) (rule_rows db name)))"
    using assms unfolding rule_rows_def
    by (auto simp: db_ok_def alerts_ok_def distinct_map inj_on_def comp_def intro: distinct_filter)
  show ?thesis
  proof (cases "alert_of db (name, fp)")
    case None
    then have "\<forall>a \<in> set (rule_rows db name). ea_Fingerprint a \<noteq> fp"
      by (auto simp: alert_of_def find_None_iff rule_rows_def alert_key_def)
    then have "map_of (map (\<lambda>a. (ea_Fingerprint a, ent_to_alert_state a)) (rule_rows db name)) fp = None"
      by (force simp: map_of_eq_None_iff)
    with None show ?thesis by simp
  next
    case (Some a)
    from alert_ofD [OF this] have "(fp, ent_to_alert_state a) \<in>
        set (map (\<lambda>a. (ea_Fingerprint a, ent_to_alert_state a)) (rule_rows db name))"
      by (auto simp: rule_rows_def alert_key_def)
    with d have "map_of (map (\<lambda>a. (ea_Fingerprint a, ent_to_alert_state a)) (rule_rows db name)) fp =
        Some (ent_to_alert_state a)"
      by (rule map_of_is_SomeI)
    with Some show ?thesis by simp
  qed
qed

section \<open>One step on the database\<close>

lemma find_filter: "find P (filter Q xs) = find (\<lambda>x. Q x \<and> P x) xs"
  by (induction xs) auto

lemma delete_alert_healthy:
  assumes "healthy db" "alert_of db k = Some a"
  shows "\<exists>db'. delete_alert_state (ea_ID a) db = (Inr (), db') \<and> healthy db' \<and>
     (\<forall>k'. alert_of db' k' = (if k' = k then None else alert_of db k'))"
proof -
  have ok: "db_ok db" and nf: "db_faults db = []" using assms(1) by (simp_all add: healthy_def)
  note a = alert_ofD [OF assms(2)]
  have inj: "\<forall>x \<in> set (db_alerts db). ea_ID x = ea_ID a \<longrightarrow> x = a"
    using ok a by (auto simp: db_ok_def alerts_ok_def distinct_map inj_on_def)
  let ?db = "db\<lparr>db_alerts := filter (\<lambda>x. ea_ID x \<noteq> ea_ID a) (db_alerts db)\<rparr>"
  have del: "delete_alert_state (ea_ID a) db = (Inr (), ?db)"
    using a nf by (auto simp: delete_alert_state_def alert_delete_def list_ex_iff)
  have "healthy ?db"
    using store_step_ok [OF ok, of env "(0, DeleteAlertState (ea_ID a))" for env] nf del
    by (simp add: healthy_def)
  moreover have "alert_of ?db k' = (if k' = k then None else alert_of db k')" for k'
  proof (cases "k' = k")
    case True
    have "x = a" if "x \<in> set (db_alerts db)" "alert_key x = k" for x
      using alert_ofI [OF ok that(1)] that(2) assms(2) by simp
    then have "alert_of ?db k = None"
      by (auto simp: alert_of_def find_None_iff)
    with True show ?thesis by simp
  next
    case False
    have "(\<lambda>x. ea_ID x \<noteq> ea_ID a \<and> alert_key x = k') x = (alert_key x = k')" if "x \<in> set (db_alerts db)" for x
      using inj a False that by auto
    then have "find (\<lambda>x. ea_ID x \<noteq> ea_ID a \<and> alert_key x = k') (db_alerts db) =
        find (\<lambda>x. alert_key x = k') (db_alerts db)"
      by (intro find_cong) auto
    with False show ?thesis by (simp add: alert_of_def find_filter)
  qed
  ultimately show ?thesis using del by blast
qed

text \<open>The row a firing series leaves, given the row that was there.\<close>

definition fired_row ::
  "'f evaluator \<Rightarrow> rule \<Rightarrow> time \<Rightarrow> string \<Rightarrow> 'f sample \<Rightarrow> int \<Rightarrow> 'f ent_alert option \<Rightarrow> 'f ent_alert" where
  "fired_row ev r now fp s fresh old =
     upserted now fresh (fire_state (ev_NotifyRepeatTime ev) r now (map_option ent_to_alert_state old) fp s) old"

lemma fire_one_step:
  assumes "healthy (aw_db w)" "ru_Name r \<noteq> []" "fp \<noteq> []"
    "map_of prev fp = map_option ent_to_alert_state (alert_of (aw_db w) (ru_Name r, fp))"
  shows "healthy (aw_db (fire_one ev r now prev (fp, s) w)) \<and>
     (\<forall>k. alert_of (aw_db (fire_one ev r now prev (fp, s) w)) k =
        (if k = (ru_Name r, fp) then Some (fired_row ev r now fp s (next_alert (aw_db w)) (alert_of (aw_db w) k))
         else alert_of (aw_db w) k)) \<and>
     aw_sent (fire_one ev r now prev (fp, s) w) =
       aw_sent w @ (if should_notify (ev_NotifyRepeatTime ev) now (map_of prev fp) then [fire_notif ev r now s] else [])"
proof -
  let ?st = "fire_state (ev_NotifyRepeatTime ev) r now (map_of prev fp) fp s"
  have st: "as_RuleName ?st = ru_Name r" "as_Fingerprint ?st = fp" "as_Status ?st = ''firing''"
    by (simp_all add: fire_state_def)
  then have "valid_alert ?st" using assms(2,3) by (simp add: valid_alert_def alert_statuses_def)
  from upsert_alert_rows [OF assms(1) this, of "ev_env ev" now] st
  obtain db' where up: "upsert_alert_state (ev_env ev) now ?st (aw_db w) =
      (Inr (ent_to_alert_state (upserted now (next_alert (aw_db w)) ?st (alert_of (aw_db w) (ru_Name r, fp)))), db')"
    "healthy db'"
    "\<forall>k. alert_of db' k = (if k = (ru_Name r, fp)
       then Some (upserted now (next_alert (aw_db w)) ?st (alert_of (aw_db w) k)) else alert_of (aw_db w) k)"
    by auto
  then show ?thesis
    by (auto simp: fire_one_def with_alert_db_def send_notif_def fired_row_def assms(4) Let_def)
qed

section \<open>The two loops\<close>

lemma fire_all:
  assumes "healthy (aw_db w)" "ru_Name r \<noteq> []" "distinct (map fst fss)"
    "\<forall>(fp, s) \<in> set fss. fp \<noteq> [] \<and>
       map_of prev fp = map_option ent_to_alert_state (alert_of (aw_db w) (ru_Name r, fp))"
  shows "healthy (aw_db (fold (fire_one ev r now prev) fss w)) \<and>
     aw_sent (fold (fire_one ev r now prev) fss w) = aw_sent w @
       map (\<lambda>(fp, s). fire_notif ev r now s)
         (filter (\<lambda>(fp, s). should_notify (ev_NotifyRepeatTime ev) now (map_of prev fp)) fss) \<and>
     (\<forall>k. \<exists>fresh. alert_of (aw_db (fold (fire_one ev r now prev) fss w)) k =
        (case (if fst k = ru_Name r then map_of fss (snd k) else None) of
           Some s \<Rightarrow> Some (fired_row ev r now (snd k) s fresh (alert_of (aw_db w) k))
         | None \<Rightarrow> alert_of (aw_db w) k))"
  using assms
proof (induction fss arbitrary: w)
  case Nil
  then show ?case by simp
next
  case (Cons x fss)
  obtain fp s where x: "x = (fp, s)" by (cases x)
  let ?w1 = "fire_one ev r now prev (fp, s) w"
  have step: "healthy (aw_db ?w1)"
    "\<forall>k. alert_of (aw_db ?w1) k =
        (if k = (ru_Name r, fp) then Some (fired_row ev r now fp s (next_alert (aw_db w)) (alert_of (aw_db w) k))
         else alert_of (aw_db w) k)"
    "aw_sent ?w1 =
       aw_sent w @ (if should_notify (ev_NotifyRepeatTime ev) now (map_of prev fp) then [fire_notif ev r now s] else [])"
    using fire_one_step [of w r fp prev ev now s] Cons.prems x by auto
  have "fp \<notin> fst ` set fss" using Cons.prems(3) x by simp
  then have rest: "\<forall>(fp', s) \<in> set fss. fp' \<noteq> [] \<and>
       map_of prev fp' = map_option ent_to_alert_state (alert_of (aw_db ?w1) (ru_Name r, fp'))"
  proof (intro ballI, clarify)
    fix fp' s' assume m: "(fp', s') \<in> set fss"
    with \<open>fp \<notin> fst ` set fss\<close> have "fp' \<noteq> fp" by force
    with m Cons.prems(4) step(2) show "fp' \<noteq> [] \<and>
        map_of prev fp' = map_option ent_to_alert_state (alert_of (aw_db ?w1) (ru_Name r, fp'))"
      by auto
  qed
  have IH: "healthy (aw_db (fold (fire_one ev r now prev) fss ?w1)) \<and>
     aw_sent (fold (fire_one ev r now prev) fss ?w1) = aw_sent ?w1 @
       map (\<lambda>(fp, s). fire_notif ev r now s)
         (filter (\<lambda>(fp, s). should_notify (ev_NotifyRepeatTime ev) now (map_of prev fp)) fss) \<and>
     (\<forall>k. \<exists>fresh. alert_of (aw_db (fold (fire_one ev r now prev) fss ?w1)) k =
        (case (if fst k = ru_Name r then map_of fss (snd k) else None) of
           Some s \<Rightarrow> Some (fired_row ev r now (snd k) s fresh (alert_of (aw_db ?w1) k))
         | None \<Rightarrow> alert_of (aw_db ?w1) k))"
  proof (rule Cons.IH)
    show "healthy (aw_db ?w1)" by (rule step(1))
    show "distinct (map fst fss)" using Cons.prems(3) by simp
  qed (use rest Cons.prems(2) in blast)+
  have "\<exists>fresh. alert_of (aw_db (fold (fire_one ev r now prev) fss ?w1)) k =
        (case (if fst k = ru_Name r then map_of (x # fss) (snd k) else None) of
           Some s \<Rightarrow> Some (fired_row ev r now (snd k) s fresh (alert_of (aw_db w) k))
         | None \<Rightarrow> alert_of (aw_db w) k)" for k
  proof -
    from IH obtain fresh where fr: "alert_of (aw_db (fold (fire_one ev r now prev) fss ?w1)) k =
        (case (if fst k = ru_Name r then map_of fss (snd k) else None) of
           Some s \<Rightarrow> Some (fired_row ev r now (snd k) s fresh (alert_of (aw_db ?w1) k))
         | None \<Rightarrow> alert_of (aw_db ?w1) k)" by blast
    show ?thesis
    proof (cases "k = (ru_Name r, fp)")
      case True
      with \<open>fp \<notin> fst ` set fss\<close> have "map_of fss (snd k) = None" by (simp add: map_of_eq_None_iff)
      then have "alert_of (aw_db (fold (fire_one ev r now prev) fss ?w1)) k =
          Some (fired_row ev r now fp s (next_alert (aw_db w)) (alert_of (aw_db w) k))"
        using fr step(2) True by simp
      then show ?thesis using True by (intro exI [of _ "next_alert (aw_db w)"]) (simp add: x)
    next
      case False
      then have same: "alert_of (aw_db ?w1) k = alert_of (aw_db w) k" using step(2) [rule_format, of k] by simp
      have "(if fst k = ru_Name r then map_of (x # fss) (snd k) else None) =
          (if fst k = ru_Name r then map_of fss (snd k) else None)"
        using False by (cases k) (auto simp: x)
      then show ?thesis using fr [unfolded same] by (intro exI [of _ fresh]) simp
    qed
  qed
  with IH step(3) x show ?case by simp
qed

lemma resolve_all:
  assumes "healthy (aw_db w)" "distinct (map fst ps)"
    "\<forall>(fp, p) \<in> set ps. map_of firing fp = None \<longrightarrow>
       (\<exists>a. alert_of (aw_db w) (ru_Name r, fp) = Some a \<and> as_ID p = ea_ID a)"
  shows "healthy (aw_db (fold (resolve_one ev r now firing) ps w)) \<and>
     aw_sent (fold (resolve_one ev r now firing) ps w) = aw_sent w @
       map (\<lambda>(fp, p). resolve_notif ev r now p)
         (filter (\<lambda>(fp, p). map_of firing fp = None \<and> as_Status p = ''firing'') ps) \<and>
     (\<forall>k. alert_of (aw_db (fold (resolve_one ev r now firing) ps w)) k =
        (if fst k = ru_Name r \<and> snd k \<in> fst ` set ps \<and> map_of firing (snd k) = None then None
         else alert_of (aw_db w) k))"
  using assms
proof (induction ps arbitrary: w)
  case Nil
  then show ?case by simp
next
  case (Cons x ps)
  obtain fp p where x: "x = (fp, p)" by (cases x)
  let ?w1 = "resolve_one ev r now firing (fp, p) w"
  have nin: "fp \<notin> fst ` set ps" using Cons.prems(2) x by simp
  have step: "healthy (aw_db ?w1) \<and>
     (\<forall>k. alert_of (aw_db ?w1) k = (if k = (ru_Name r, fp) \<and> map_of firing fp = None then None else alert_of (aw_db w) k)) \<and>
     aw_sent ?w1 = aw_sent w @ (if map_of firing fp = None \<and> as_Status p = ''firing'' then [resolve_notif ev r now p] else [])"
  proof (cases "map_of firing fp")
    case (Some s)
    then show ?thesis using Cons.prems(1) by (simp add: resolve_one_def)
  next
    case None
    then obtain a where a: "alert_of (aw_db w) (ru_Name r, fp) = Some a" "as_ID p = ea_ID a"
      using Cons.prems(3) x by auto
    from delete_alert_healthy [OF Cons.prems(1) a(1)] a(2) None show ?thesis
      by (auto simp: resolve_one_def with_alert_db_def send_notif_def Let_def)
  qed
  have IH: "healthy (aw_db (fold (resolve_one ev r now firing) ps ?w1)) \<and>
     aw_sent (fold (resolve_one ev r now firing) ps ?w1) = aw_sent ?w1 @
       map (\<lambda>(fp, p). resolve_notif ev r now p)
         (filter (\<lambda>(fp, p). map_of firing fp = None \<and> as_Status p = ''firing'') ps) \<and>
     (\<forall>k. alert_of (aw_db (fold (resolve_one ev r now firing) ps ?w1)) k =
        (if fst k = ru_Name r \<and> snd k \<in> fst ` set ps \<and> map_of firing (snd k) = None then None
         else alert_of (aw_db ?w1) k))"
  proof (rule Cons.IH)
    show "healthy (aw_db ?w1)" using step by blast
    show "distinct (map fst ps)" using Cons.prems(2) by simp
    show "\<forall>(fp, p) \<in> set ps. map_of firing fp = None \<longrightarrow>
        (\<exists>a. alert_of (aw_db ?w1) (ru_Name r, fp) = Some a \<and> as_ID p = ea_ID a)"
    proof (intro ballI, clarify)
      fix fp' p' assume "(fp', p') \<in> set ps" "map_of firing fp' = None"
      moreover from this nin have "fp' \<noteq> fp" by force
      ultimately show "\<exists>a. alert_of (aw_db ?w1) (ru_Name r, fp') = Some a \<and> as_ID p' = ea_ID a"
        using step Cons.prems(3) by (auto simp: x)
    qed
  qed
  have rows: "alert_of (aw_db (fold (resolve_one ev r now firing) ps ?w1)) k =
      (if fst k = ru_Name r \<and> snd k \<in> fst ` set (x # ps) \<and> map_of firing (snd k) = None then None
       else alert_of (aw_db w) k)" for k
    using IH step by (cases k) (auto simp: x)
  have "aw_sent (fold (resolve_one ev r now firing) (x # ps) w) = aw_sent w @
       map (\<lambda>(fp, p). resolve_notif ev r now p)
         (filter (\<lambda>(fp, p). map_of firing fp = None \<and> as_Status p = ''firing'') (x # ps))"
    using IH step by (simp add: x)
  moreover have "healthy (aw_db (fold (resolve_one ev r now firing) (x # ps) w))"
    using IH by (simp add: x)
  ultimately show ?case using rows by (simp add: x)
qed

lemma fired_row_fields:
  "ea_Status (fired_row ev r now fp s fresh old) = ''firing'' \<and>
   ea_Value (fired_row ev r now fp s fresh old) = sa_Value s \<and>
   ea_Labels (fired_row ev r now fp s fresh old) = Some (sa_Labels s) \<and>
   ea_UpdatedAt (fired_row ev r now fp s fresh old) = now \<and>
   (case old of None \<Rightarrow> ea_FirstFiredAt (fired_row ev r now fp s fresh old) = now
    | Some o' \<Rightarrow> ea_ID (fired_row ev r now fp s fresh old) = ea_ID o' \<and>
        ea_FirstFiredAt (fired_row ev r now fp s fresh old) = ea_FirstFiredAt o')"
  by (cases old) (simp_all add: fired_row_def upserted_def fire_state_def first_non_empty_def)

section \<open>One evaluation\<close>

text \<open>What the evaluator relies on outside the model: iteration visits every entry once, and a
  digest is not empty.\<close>

definition proper_evaluator :: "'f evaluator \<Rightarrow> bool" where
  "proper_evaluator ev \<longleftrightarrow>
     (\<forall>xs. mset (ev_fire_order ev xs) = mset xs) \<and> (\<forall>xs. mset (ev_prev_order ev xs) = mset xs) \<and>
     (\<forall>s. length (ev_sha ev s) = 32)"

abbreviation firing_of :: "'f evaluator \<Rightarrow> rule \<Rightarrow> 'f sample list \<Rightarrow> (string \<times> 'f sample) list" where
  "firing_of ev r ss \<equiv> firing_map (ev_sha ev) r ss []"

abbreviation stored_of :: "'f db \<Rightarrow> rule \<Rightarrow> (string \<times> 'f alert_state) list" where
  "stored_of db r \<equiv> map (\<lambda>a. (ea_Fingerprint a, ent_to_alert_state a)) (rule_rows db (ru_Name r))"

lemma stored_keys: "fst ` set (stored_of db r) = {fp. \<exists>a \<in> set (db_alerts db). alert_key a = (ru_Name r, fp)}"
  by (auto simp: rule_rows_def alert_key_def image_iff)

lemma stored_distinct: "db_ok db \<Longrightarrow> distinct (map fst (stored_of db r))"
  unfolding rule_rows_def
  by (auto simp: db_ok_def alerts_ok_def distinct_map inj_on_def comp_def intro: distinct_filter)

lemma list_rows: "healthy db \<Longrightarrow>
    list_alert_states_by_rule name db = (Inr (map ent_to_alert_state (rule_rows db name)), db)"
  by (simp add: healthy_def list_alert_states_by_rule_def rule_rows_def)

lemma fingerprint_nonempty: "length (sha (fingerprint_input (fingerprint_keys r l) l)) = 32 \<Longrightarrow> fingerprint sha r l \<noteq> []"
  by (auto simp: fingerprint_def dest!: arg_cong [of _ _ length] simp: length_hex_encode)

lemma evaluate_rule_healthy:
  assumes "healthy (aw_db w)" "proper_evaluator ev" "ru_Name r \<noteq> []" "ev_query ev (ru_Expr r) = Inr ss"
  shows "\<exists>w'. evaluate_rule ev r now w = (None, w') \<and> healthy (aw_db w') \<and>
    aw_sent w' = aw_sent w @
      map (\<lambda>(fp, s). fire_notif ev r now s)
        (filter (\<lambda>(fp, s). should_notify (ev_NotifyRepeatTime ev) now
             (map_option ent_to_alert_state (alert_of (aw_db w) (ru_Name r, fp))))
           (ev_fire_order ev (firing_of ev r ss))) @
      map (\<lambda>(fp, p). resolve_notif ev r now p)
        (filter (\<lambda>(fp, p). map_of (firing_of ev r ss) fp = None \<and> as_Status p = ''firing'')
           (ev_prev_order ev (stored_of (aw_db w) r))) \<and>
    (\<forall>k. \<exists>fresh. alert_of (aw_db w') k =
      (if fst k \<noteq> ru_Name r then alert_of (aw_db w) k
       else case map_of (firing_of ev r ss) (snd k) of
         None \<Rightarrow> None
       | Some s \<Rightarrow> Some (fired_row ev r now (snd k) s fresh (alert_of (aw_db w) k))))"
proof -
  let ?F = "firing_of ev r ss" and ?P = "stored_of (aw_db w) r"
  have ok: "db_ok (aw_db w)" using assms(1) by (simp add: healthy_def)
  have mF: "is_map ?F" by (rule firing_map_is_map) (simp add: is_map_def)
  have F: "mset (ev_fire_order ev ?F) = mset ?F" and P: "mset (ev_prev_order ev ?P) = mset ?P"
    and sha: "\<forall>s. length (ev_sha ev s) = 32"
    using assms(2) by (simp_all add: proper_evaluator_def)
  have Fset: "set (ev_fire_order ev ?F) = set ?F" and Pset: "set (ev_prev_order ev ?P) = set ?P"
    by (rule mset_eq_setD [OF F], rule mset_eq_setD [OF P])
  have Fmap: "map_of (ev_fire_order ev ?F) = map_of ?F"
    using map_of_perm [OF mF F [symmetric]] by simp
  have Fd: "distinct (map fst (ev_fire_order ev ?F))"
    using mF keys_distinct_perm [OF F] by (simp add: is_map_def)
  have Pd: "distinct (map fst (ev_prev_order ev ?P))"
    using stored_distinct [OF ok, of r] keys_distinct_perm [OF P] by simp
  have Pmap: "map_of ?P fp = map_option ent_to_alert_state (alert_of (aw_db w) (ru_Name r, fp))" for fp
    by (rule map_of_rows [OF ok])
  let ?w2 = "fold (fire_one ev r now ?P) (ev_fire_order ev ?F) w"
  have "fp \<noteq> []" if "(fp, s) \<in> set ?F" for fp s
  proof -
    from that have "fp \<in> fst ` set ?F" by (force simp: image_iff)
    then obtain l where "fp = fingerprint (ev_sha ev) r l"
      unfolding firing_map_keys by auto
    then show ?thesis by (simp add: fingerprint_nonempty sha)
  qed
  then have pre: "\<forall>(fp, s) \<in> set (ev_fire_order ev ?F). fp \<noteq> [] \<and>
      map_of ?P fp = map_option ent_to_alert_state (alert_of (aw_db w) (ru_Name r, fp))"
    unfolding Fset using Pmap by blast
  note fire = fire_all [OF assms(1,3) Fd pre, of ev now, unfolded Fmap Pmap]
  have ids: "\<forall>(fp, p) \<in> set (ev_prev_order ev ?P). map_of ?F fp = None \<longrightarrow>
      (\<exists>a. alert_of (aw_db ?w2) (ru_Name r, fp) = Some a \<and> as_ID p = ea_ID a)"
    unfolding Pset
  proof (intro ballI, clarify)
    fix fp p assume m: "(fp, p) \<in> set ?P" and n: "map_of ?F fp = None"
    then have "map_of ?P fp = Some p" using stored_distinct [OF ok] by (simp add: map_of_is_SomeI)
    then obtain a where a: "alert_of (aw_db w) (ru_Name r, fp) = Some a" "p = ent_to_alert_state a"
      unfolding Pmap by auto
    from fire obtain fresh where "alert_of (aw_db ?w2) (ru_Name r, fp) =
        (case (if fst (ru_Name r, fp) = ru_Name r then map_of ?F (snd (ru_Name r, fp)) else None) of
           Some s \<Rightarrow> Some (fired_row ev r now (snd (ru_Name r, fp)) s fresh (alert_of (aw_db w) (ru_Name r, fp)))
         | None \<Rightarrow> alert_of (aw_db w) (ru_Name r, fp))" by blast
    then show "\<exists>a. alert_of (aw_db ?w2) (ru_Name r, fp) = Some a \<and> as_ID p = ea_ID a"
      using n a by (simp add: ent_to_alert_state_def)
  qed
  note resolve = resolve_all [where ev = ev and now = now, OF conjunct1 [OF fire] Pd ids]
  let ?w3 = "fold (resolve_one ev r now ?F) (ev_prev_order ev ?P) ?w2"
  have run: "evaluate_rule ev r now w = (None, ?w3)"
    by (simp add: evaluate_rule_def assms(4) with_alert_db_def list_rows [OF assms(1)] prev_map_rows [OF ok] Let_def)
  have rows: "\<exists>fresh. alert_of (aw_db ?w3) k =
      (if fst k \<noteq> ru_Name r then alert_of (aw_db w) k
       else case map_of ?F (snd k) of
         None \<Rightarrow> None
       | Some s \<Rightarrow> Some (fired_row ev r now (snd k) s fresh (alert_of (aw_db w) k)))" for k
  proof -
    have gone: "fst k = ru_Name r \<Longrightarrow> snd k \<notin> fst ` set ?P \<Longrightarrow> alert_of (aw_db w) k = None"
    proof -
      assume k: "fst k = ru_Name r" and "snd k \<notin> fst ` set ?P"
      then have "map_of ?P (snd k) = None" unfolding map_of_eq_None_iff by blast
      then show "alert_of (aw_db w) k = None" using k unfolding Pmap by (cases k) simp
    qed
    from fire obtain fresh where "alert_of (aw_db ?w2) k =
        (case (if fst k = ru_Name r then map_of ?F (snd k) else None) of
           Some s \<Rightarrow> Some (fired_row ev r now (snd k) s fresh (alert_of (aw_db w) k))
         | None \<Rightarrow> alert_of (aw_db w) k)" by blast
    moreover have "alert_of (aw_db ?w3) k =
        (if fst k = ru_Name r \<and> snd k \<in> fst ` set ?P \<and> map_of ?F (snd k) = None then None
         else alert_of (aw_db ?w2) k)"
      using resolve unfolding Pset by blast
    ultimately show ?thesis using gone by (cases "map_of ?F (snd k)") auto
  qed
  show ?thesis
    using run resolve [THEN conjunct1] rows
      resolve [THEN conjunct2, THEN conjunct1, unfolded fire [THEN conjunct2, THEN conjunct1] append_assoc]
    by blast
qed

text \<open>The rows of a rule after its evaluation are one for each firing series.\<close>

lemma evaluated_rows:
  assumes "healthy (aw_db w)" "proper_evaluator ev" "ru_Name r \<noteq> []" "ev_query ev (ru_Expr r) = Inr ss"
    "evaluate_rule ev r now w = (res, w')"
  shows "healthy (aw_db w') \<and>
    (\<forall>a \<in> set (rule_rows (aw_db w') (ru_Name r)). \<exists>s. map_of (firing_of ev r ss) (ea_Fingerprint a) = Some s \<and>
       ea_Status a = ''firing'' \<and> ea_Value a = sa_Value s \<and> ea_Labels a = Some (sa_Labels s)) \<and>
    (\<forall>fp s. map_of (firing_of ev r ss) fp = Some s \<longrightarrow> (\<exists>a \<in> set (rule_rows (aw_db w') (ru_Name r)). ea_Fingerprint a = fp))"
proof -
  obtain w2 where w2: "evaluate_rule ev r now w = (None, w2)" "healthy (aw_db w2)"
    "\<And>k. \<exists>fresh. alert_of (aw_db w2) k =
      (if fst k \<noteq> ru_Name r then alert_of (aw_db w) k
       else case map_of (firing_of ev r ss) (snd k) of
         None \<Rightarrow> None
       | Some s \<Rightarrow> Some (fired_row ev r now (snd k) s fresh (alert_of (aw_db w) k)))"
    using evaluate_rule_healthy [OF assms(1-4), of now] by blast
  have "w2 = w'" using w2(1) assms(5) by simp
  note healthy = w2(2) [unfolded this] and rows = w2(3) [unfolded this]
  have each: "\<exists>s. map_of (firing_of ev r ss) (ea_Fingerprint a) = Some s \<and>
      ea_Status a = ''firing'' \<and> ea_Value a = sa_Value s \<and> ea_Labels a = Some (sa_Labels s)"
    if "a \<in> set (rule_rows (aw_db w') (ru_Name r))" for a
  proof -
    have "a \<in> set (db_alerts (aw_db w'))" "ea_RuleName a = ru_Name r" using that by (auto simp: rule_rows_def)
    then have present: "alert_of (aw_db w') (ru_Name r, ea_Fingerprint a) = Some a"
      using healthy alert_ofI [of "aw_db w'" a] by (simp add: healthy_def alert_key_def)
    show ?thesis
    proof (cases "map_of (firing_of ev r ss) (ea_Fingerprint a)")
      case None
      then show ?thesis using rows [of "(ru_Name r, ea_Fingerprint a)"] present by simp
    next
      case (Some s)
      have "\<exists>fresh. Some a =
          Some (fired_row ev r now (ea_Fingerprint a) s fresh (alert_of (aw_db w) (ru_Name r, ea_Fingerprint a)))"
        using rows [of "(ru_Name r, ea_Fingerprint a)"] unfolding present Some prod.sel option.case simp_thms if_False .
      then obtain fresh where
        "Some a = Some (fired_row ev r now (ea_Fingerprint a) s fresh (alert_of (aw_db w) (ru_Name r, ea_Fingerprint a)))" ..
      then have row: "fired_row ev r now (ea_Fingerprint a) s fresh (alert_of (aw_db w) (ru_Name r, ea_Fingerprint a)) = a"
        by (rule option.inject [THEN iffD1, symmetric])
      from fired_row_fields [of ev r now "ea_Fingerprint a" s fresh "alert_of (aw_db w) (ru_Name r, ea_Fingerprint a)",
          unfolded row] Some
      show ?thesis by blast
    qed
  qed
  moreover have "\<exists>a \<in> set (rule_rows (aw_db w') (ru_Name r)). ea_Fingerprint a = fp"
    if "map_of (firing_of ev r ss) fp = Some s" for fp s
  proof -
    have "\<exists>fresh. alert_of (aw_db w') (ru_Name r, fp) =
        Some (fired_row ev r now fp s fresh (alert_of (aw_db w) (ru_Name r, fp)))"
      using rows [of "(ru_Name r, fp)"] that by simp
    then obtain a where "alert_of (aw_db w') (ru_Name r, fp) = Some a" by blast
    from alert_ofD [OF this] show ?thesis by (auto simp: rule_rows_def alert_key_def)
  qed
  ultimately show ?thesis using healthy by blast
qed

lemma no_rows:
  assumes "db_ok db" "\<forall>fp. alert_of db (name, fp) = None"
  shows "rule_rows db name = []"
proof (rule ccontr)
  assume "rule_rows db name \<noteq> []"
  then obtain a where "a \<in> set (db_alerts db)" "ea_RuleName a = name" by (auto simp: rule_rows_def filter_empty_conv)
  with alert_ofI [OF assms(1), of a] assms(2) show False by (simp add: alert_key_def)
qed

text \<open>
  C1. One evaluation of a rule reconciles the stored states with what the query reports. It ends
  without error, leaves the states of every other rule alone, removes every state of this rule
  whose series no longer fires, and leaves for each firing series exactly one state that is firing
  and carries the last sample's value and labels; a state that was there keeps its id
  and the time it first fired, a new one first fired now.
\<close>

theorem evaluation_reconciles:
  assumes "healthy (aw_db w)" "proper_evaluator ev" "ru_Name r \<noteq> []" "ev_query ev (ru_Expr r) = Inr ss"
  shows "\<exists>w'. evaluate_rule ev r now w = (None, w') \<and> healthy (aw_db w') \<and>
    (\<forall>name fp. name \<noteq> ru_Name r \<longrightarrow> alert_of (aw_db w') (name, fp) = alert_of (aw_db w) (name, fp)) \<and>
    (\<forall>fp. map_of (firing_of ev r ss) fp = None \<longrightarrow> alert_of (aw_db w') (ru_Name r, fp) = None) \<and>
    (\<forall>fp s. map_of (firing_of ev r ss) fp = Some s \<longrightarrow>
       (\<exists>a. alert_of (aw_db w') (ru_Name r, fp) = Some a \<and> ea_Status a = ''firing'' \<and>
          ea_Value a = sa_Value s \<and> ea_Labels a = Some (sa_Labels s) \<and> ea_UpdatedAt a = now \<and>
          (case alert_of (aw_db w) (ru_Name r, fp) of
             None \<Rightarrow> ea_FirstFiredAt a = now
           | Some old \<Rightarrow> ea_ID a = ea_ID old \<and> ea_FirstFiredAt a = ea_FirstFiredAt old)))"
proof -
  obtain w' where w': "evaluate_rule ev r now w = (None, w')" "healthy (aw_db w')"
    and rows: "\<And>k. \<exists>fresh. alert_of (aw_db w') k =
      (if fst k \<noteq> ru_Name r then alert_of (aw_db w) k
       else case map_of (firing_of ev r ss) (snd k) of
         None \<Rightarrow> None
       | Some s \<Rightarrow> Some (fired_row ev r now (snd k) s fresh (alert_of (aw_db w) k)))"
    using evaluate_rule_healthy [OF assms, of now] by blast
  have "alert_of (aw_db w') (name, fp) = alert_of (aw_db w) (name, fp)" if "name \<noteq> ru_Name r" for name fp
    using rows [of "(name, fp)"] that by simp
  moreover have "alert_of (aw_db w') (ru_Name r, fp) = None" if "map_of (firing_of ev r ss) fp = None" for fp
    using rows [of "(ru_Name r, fp)"] that by simp
  moreover have "\<exists>fresh. alert_of (aw_db w') (ru_Name r, fp) =
      Some (fired_row ev r now fp s fresh (alert_of (aw_db w) (ru_Name r, fp)))"
    if "map_of (firing_of ev r ss) fp = Some s" for fp s
    using rows [of "(ru_Name r, fp)"] that by simp
  then have "\<exists>a. alert_of (aw_db w') (ru_Name r, fp) = Some a \<and> ea_Status a = ''firing'' \<and>
          ea_Value a = sa_Value s \<and> ea_Labels a = Some (sa_Labels s) \<and> ea_UpdatedAt a = now \<and>
          (case alert_of (aw_db w) (ru_Name r, fp) of
             None \<Rightarrow> ea_FirstFiredAt a = now
           | Some old \<Rightarrow> ea_ID a = ea_ID old \<and> ea_FirstFiredAt a = ea_FirstFiredAt old)"
    if "map_of (firing_of ev r ss) fp = Some s" for fp s
    using that fired_row_fields by blast
  ultimately show ?thesis using w' by blast
qed

definition disk_rule :: rule where
  "disk_rule = \<lparr>ru_Name = ''disk'', ru_Expr = ''q'', ru_Severity = ''warning'', ru_Message = [],
     ru_FingerprintLabels = [''server'']\<rparr>"

definition disk_sample :: "int sample" where
  "disk_sample = \<lparr>sa_Labels = [(''server'', ''web1'')], sa_Value = 95\<rparr>"

definition disk_evaluator :: "duration \<Rightarrow> int evaluator" where
  "disk_evaluator repeat = \<lparr>ev_Rules = [disk_rule], ev_query = (\<lambda>q. Inr [disk_sample]),
     ev_notify = (\<lambda>n. Inr ()), ev_NotifyRepeatTime = repeat, ev_env = msg_env,
     ev_sha = (\<lambda>s. replicate 32 (CHR 0x41)), ev_floats = int_floats, ev_template = (\<lambda>r s. None),
     ev_fire_order = (\<lambda>xs. xs), ev_prev_order = (\<lambda>xs. xs)\<rparr>"

definition disk_world :: "int alert_world" where
  "disk_world = \<lparr>aw_db = empty_db, aw_sent = []\<rparr>"

lemma disk_facts:
  "healthy (aw_db disk_world)" "proper_evaluator (disk_evaluator n)" "ru_Name disk_rule \<noteq> []"
  "ev_query (disk_evaluator n) (ru_Expr disk_rule) = Inr [disk_sample]"
  "ev_NotifyRepeatTime (disk_evaluator n) = n"
  "alert_of (aw_db disk_world) k = None" "aw_sent disk_world = []"
  "ev_fire_order (disk_evaluator n) xs = xs" "ev_prev_order (disk_evaluator n) ps = ps"
  by (simp_all add: disk_world_def disk_evaluator_def disk_rule_def healthy_def db_ok_empty
      proper_evaluator_def alert_of_def) (simp_all add: empty_db_def)

lemma disk_digest: "hex_encode (take 8 (replicate 32 (CHR 0x41))) = ''4141414141414141''"
  by code_simp

lemma disk_fingerprint: "fingerprint (ev_sha (disk_evaluator n)) r l = ''4141414141414141''"
  unfolding fingerprint_def disk_evaluator_def evaluator.simps disk_digest by (rule refl)

lemma disk_fires:
  "firing_of (disk_evaluator n) disk_rule [disk_sample] = [(''4141414141414141'', disk_sample)]"
  unfolding firing_map.simps disk_fingerprint by (simp only: AList.update.simps)

theorem evaluation_reconciles_witness:
  "\<exists>w' a. evaluate_rule (disk_evaluator 60) disk_rule 100 disk_world = (None, w') \<and>
     alert_of (aw_db w') (''disk'', ''4141414141414141'') = Some a \<and> ea_Status a = ''firing'' \<and>
     ea_Value a = 95 \<and> ea_FirstFiredAt a = 100"
proof -
  obtain w' where "evaluate_rule (disk_evaluator 60) disk_rule 100 disk_world = (None, w')"
    "\<forall>fp s. map_of (firing_of (disk_evaluator 60) disk_rule [disk_sample]) fp = Some s \<longrightarrow>
       (\<exists>a. alert_of (aw_db w') (ru_Name disk_rule, fp) = Some a \<and> ea_Status a = ''firing'' \<and>
          ea_Value a = sa_Value s \<and> ea_Labels a = Some (sa_Labels s) \<and> ea_UpdatedAt a = 100 \<and>
          (case alert_of (aw_db disk_world) (ru_Name disk_rule, fp) of
             None \<Rightarrow> ea_FirstFiredAt a = 100
           | Some old \<Rightarrow> ea_ID a = ea_ID old \<and> ea_FirstFiredAt a = ea_FirstFiredAt old))"
    using evaluation_reconciles [where ev = "disk_evaluator 60", OF disk_facts(1-4), of 100] by blast
  from this(2) [unfolded disk_fires disk_facts, rule_format, of "''4141414141414141''" disk_sample] this(1)
  show ?thesis by (auto simp: disk_sample_def) (auto simp: disk_rule_def)
qed

text \<open>
  C29. The notifications of one evaluation are exactly these: one for each firing series that is new
  or whose last notification is at least the repeat time ago, in the order the series are
  visited, then one resolution for each stored firing state whose series no longer fires. A
  query that fails leaves the world as it was and is reported as its error.
\<close>

theorem evaluation_notifies:
  assumes "healthy (aw_db w)" "proper_evaluator ev" "ru_Name r \<noteq> []"
  shows "(case ev_query ev (ru_Expr r) of
      Inl e \<Rightarrow> evaluate_rule ev r now w = (Some (wrap_error ''vm query: '' e), w)
    | Inr ss \<Rightarrow> aw_sent (snd (evaluate_rule ev r now w)) = aw_sent w @
        map (\<lambda>(fp, s). fire_notif ev r now s)
          (filter (\<lambda>(fp, s). case alert_of (aw_db w) (ru_Name r, fp) of
               None \<Rightarrow> True
             | Some a \<Rightarrow> ea_Status a \<noteq> ''firing'' \<or> time_sub now (ea_LastNotifiedAt a) \<ge> ev_NotifyRepeatTime ev)
             (ev_fire_order ev (firing_of ev r ss))) @
        map (\<lambda>(fp, p). resolve_notif ev r now p)
          (filter (\<lambda>(fp, p). map_of (firing_of ev r ss) fp = None \<and> as_Status p = ''firing'')
             (ev_prev_order ev (stored_of (aw_db w) r))))"
proof (cases "ev_query ev (ru_Expr r)")
  case (Inl e)
  then show ?thesis by (simp add: evaluate_rule_def)
next
  case (Inr ss)
  have same: "should_notify (ev_NotifyRepeatTime ev) now (map_option ent_to_alert_state old) =
      (case old of None \<Rightarrow> True
        | Some a \<Rightarrow> ea_Status a \<noteq> ''firing'' \<or> time_sub now (ea_LastNotifiedAt a) \<ge> ev_NotifyRepeatTime ev)" for old
    by (cases old) (simp_all add: should_notify_def ent_to_alert_state_def)
  obtain w' where "evaluate_rule ev r now w = (None, w')" "aw_sent w' = aw_sent w @
      map (\<lambda>(fp, s). fire_notif ev r now s)
        (filter (\<lambda>(fp, s). should_notify (ev_NotifyRepeatTime ev) now
             (map_option ent_to_alert_state (alert_of (aw_db w) (ru_Name r, fp))))
           (ev_fire_order ev (firing_of ev r ss))) @
      map (\<lambda>(fp, p). resolve_notif ev r now p)
        (filter (\<lambda>(fp, p). map_of (firing_of ev r ss) fp = None \<and> as_Status p = ''firing'')
           (ev_prev_order ev (stored_of (aw_db w) r)))"
    using evaluate_rule_healthy [OF assms Inr, of now] by blast
  then show ?thesis unfolding Inr same by simp
qed

theorem evaluation_notifies_witness:
  "aw_sent (snd (evaluate_rule (disk_evaluator 60) disk_rule 100 disk_world)) =
     [fire_notif (disk_evaluator 60) disk_rule 100 disk_sample]"
  using evaluation_notifies [where ev = "disk_evaluator 60" and now = 100, OF disk_facts(1-3),
      unfolded disk_facts(4) sum.case disk_fires disk_facts]
  by (simp add: disk_world_def rule_rows_def empty_db_def)

lemma fired_row_notified:
  "now \<noteq> zero_time \<Longrightarrow> ea_LastNotifiedAt (fired_row ev r now fp s fresh None) = now"
  by (simp add: fired_row_def upserted_def fire_state_def should_notify_def)



section \<open>The loop\<close>

lemma evaluate_fold: "service_loop ev (map Tick ts @ es) w = service_loop ev es (fold (evaluate_once ev) ts w)"
  by (induction ts arbitrary: w) simp_all

lemma evaluate_rule_rules: "evaluate_rule (ev\<lparr>ev_Rules := rs\<rparr>) r now w = evaluate_rule ev r now w"
proof -
  have sel: "ev_NotifyRepeatTime (ev\<lparr>ev_Rules := rs\<rparr>) = ev_NotifyRepeatTime ev"
    "ev_env (ev\<lparr>ev_Rules := rs\<rparr>) = ev_env ev" "ev_query (ev\<lparr>ev_Rules := rs\<rparr>) = ev_query ev"
    "ev_sha (ev\<lparr>ev_Rules := rs\<rparr>) = ev_sha ev" "ev_fire_order (ev\<lparr>ev_Rules := rs\<rparr>) = ev_fire_order ev"
    "ev_prev_order (ev\<lparr>ev_Rules := rs\<rparr>) = ev_prev_order ev" by simp_all
  have "fire_notif (ev\<lparr>ev_Rules := rs\<rparr>) = fire_notif ev" "resolve_notif (ev\<lparr>ev_Rules := rs\<rparr>) = resolve_notif ev"
    "send_notif (ev\<lparr>ev_Rules := rs\<rparr>) = send_notif ev"
    by (simp_all add: fun_eq_iff fire_notif_def resolve_notif_def render_message_def
        render_resolved_message_def send_notif_def split: option.split)
  then have "fire_one (ev\<lparr>ev_Rules := rs\<rparr>) = fire_one ev" "resolve_one (ev\<lparr>ev_Rules := rs\<rparr>) = resolve_one ev"
    using sel by (intro ext, simp only: fire_one_def resolve_one_def)+
  with sel show ?thesis by (simp only: evaluate_rule_def)
qed

lemma fold_skip: "\<forall>r \<in> set rs. \<not> P r \<longrightarrow> (\<forall>w. f r w = w) \<Longrightarrow> fold f rs w = fold f (filter P rs) w"
  by (induction rs arbitrary: w) auto


end
