(* ===== verification/Streamer.thy ===== *)
theory Streamer
  imports Collector
begin

text \<open>
  internal/streamer/protocol.go and session.go: the line protocol of the bench-side script, the
  command that starts it, and one server's session: open the stream, scan its lines,
  call the handler, and reconnect with a growing pause until told to stop. The handler's
  methods are a datatype of calls; what an attempt to connect yields (the bytes of the
  stream, its read error, the clock at each line, the signals seen) is an \<open>attempt\<close>.
\<close>

section \<open>The protocol\<close>

datatype event_type = EventUnknown | EventVersion | EventLine | EventFileError

record event =
  sev_Type :: event_type
  sev_Version :: string
  sev_FileID :: string
  sev_Content :: string
  sev_ErrorToken :: string

definition no_event :: event where
  "no_event = \<lparr>sev_Type = EventUnknown, sev_Version = [], sev_FileID = [], sev_Content = [],
     sev_ErrorToken = []\<rparr>"

definition source_byte_len :: "event \<Rightarrow> int" where
  "source_byte_len e = (if sev_Type e \<noteq> EventLine then 0 else int (length (sev_Content e)) + 1)"

definition version_prefix :: string where "version_prefix = ''##V=''"
definition fline_prefix :: string where "fline_prefix = ''##F=''"
definition error_marker :: string where "error_marker = ''##E=''"
abbreviation content_separator :: char where "content_separator \<equiv> CHR 0x7C"

definition parse_line :: "string \<Rightarrow> event" where
  "parse_line line =
     (if line = [] then no_event
      else case cut_prefix version_prefix line of
        Some rest \<Rightarrow> no_event\<lparr>sev_Type := EventVersion, sev_Version := trim_space rest\<rparr>
      | None \<Rightarrow>
          if \<not> has_prefix fline_prefix line then no_event
          else
            (let rest = drop (length fline_prefix) line;
                 marker = space # error_marker
             in case index_of marker rest of
                  Some i \<Rightarrow> no_event\<lparr>sev_Type := EventFileError, sev_FileID := take i rest,
                      sev_ErrorToken := trim_space (drop (i + length marker) rest)\<rparr>
                | None \<Rightarrow>
                    (case index_byte content_separator rest of
                       None \<Rightarrow> no_event
                     | Some i \<Rightarrow> no_event\<lparr>sev_Type := EventLine, sev_FileID := take i rest,
                         sev_Content := drop (i + 1) rest\<rparr>)))"

section \<open>The remote command\<close>

record file_spec =
  fs_ID :: string
  fs_Path :: string

fun check_files :: "file_spec list \<Rightarrow> go_error option" where
  "check_files [] = None"
| "check_files (f # fs) =
     (if contains_any (fs_ID f) (single_quote # '',=:|'' @ [newline]) then
        Some (new_error (''streamer: file id '' @ go_quote (fs_ID f) @ '' contains a forbidden character''))
      else if contains_any (fs_Path f) [single_quote, comma, newline] then
        Some (new_error (''streamer: file path '' @ go_quote (fs_Path f) @ '' contains a forbidden character''))
      else check_files fs)"

definition files_arg :: "file_spec list \<Rightarrow> string" where
  "files_arg fs = join [comma] (map (\<lambda>f. fs_ID f @ CHR 0x3A # fs_Path f) fs)"

definition resume_parts :: "file_spec list \<Rightarrow> (string \<times> int) list \<Rightarrow> string list" where
  "resume_parts fs resume = List.map_filter (\<lambda>f. case map_of resume (fs_ID f) of
       Some off \<Rightarrow> if off > 0 then Some (fs_ID f @ CHR 0x3A # format_int off) else None
     | None \<Rightarrow> None) fs"

definition remote_args :: "file_spec list \<Rightarrow> (string \<times> int) list \<Rightarrow> string list" where
  "remote_args fs resume =
     (''--files='' @ files_arg fs) #
     (if resume_parts fs resume \<noteq> [] then [''--resume='' @ join [comma] (resume_parts fs resume)] else [])"

definition build_remote_command ::
  "string \<Rightarrow> file_spec list \<Rightarrow> (string \<times> int) list \<Rightarrow> string result" where
  "build_remote_command script fs resume =
     (if script = [] then Inl (new_error ''streamer: empty script path'')
      else if fs = [] then Inl (new_error ''streamer: no files specified'')
      else case check_files fs of
        Some e \<Rightarrow> Inl e
      | None \<Rightarrow>
          if contains_any script [single_quote, comma, newline] then
            Inl (new_error (''streamer: script path '' @ go_quote script @ '' contains a forbidden character''))
          else Inr (''bash -lc '' @ single_quote # script @ space # join [space] (remote_args fs resume) @
                 [single_quote]))"

section \<open>One session\<close>

record session_config =
  sc_ServerID :: int
  sc_Target :: target
  sc_Files :: "file_spec list"
  sc_RemoteCommand :: string
  sc_ResumeOffsets :: "(string \<times> int) list"
  sc_MinBackoff :: duration
  sc_MaxBackoff :: duration
  sc_MaxLineBytes :: int

definition new_session_config :: "session_config \<Rightarrow> session_config" where
  "new_session_config c =
     c\<lparr>sc_MinBackoff := (if sc_MinBackoff c \<le> 0 then second else sc_MinBackoff c),
       sc_MaxBackoff := (if sc_MaxBackoff c \<le> 0 then 60 * second else sc_MaxBackoff c),
       sc_MaxLineBytes := (if sc_MaxLineBytes c \<le> 0 then 1048576 else sc_MaxLineBytes c)\<rparr>"

datatype handler_call =
    OnVersion int string
  | OnLine int string string time int
  | OnFileError int string string
  | OnSessionState int bool string

text \<open>\<open>bufio.Scanner\<close> with \<open>ScanLines\<close> over all the bytes of a stream: one token per
  line, a last one for an unterminated rest, each without a trailing carriage return; a line
  that does not fit the buffer, whose capacity grows from 64 KiB to the limit, ends the scan.\<close>

definition drop_cr :: "string \<Rightarrow> string" where
  "drop_cr l = (if l \<noteq> [] \<and> last l = CHR 0x0D then butlast l else l)"

definition stream_pieces :: "string \<Rightarrow> string list" where
  "stream_pieces s = (let ps = split_on newline s in if last ps = [] then butlast ps else ps)"

definition scan_lines :: "int \<Rightarrow> string \<Rightarrow> string list \<times> bool" where
  "scan_lines limit s =
     (let ps = stream_pieces s;
          fit = takeWhile (\<lambda>l. int (length l) < max 65536 limit) ps
      in (map drop_cr fit, length fit < length ps))"

text \<open>One attempt: how \<open>Stream\<close> answered, the bytes then read, the read error that ended
  them (none at EOF), the clock at each line, and whether stop or a cancelled context
  was seen before the attempt and during the pause after it.\<close>

record attempt =
  at_stopped :: bool
  at_open :: "unit result"
  at_bytes :: string
  at_err :: "go_error option"
  at_clock :: "nat \<Rightarrow> time"
  at_woken :: bool

definition event_calls :: "int \<Rightarrow> time \<Rightarrow> string \<Rightarrow> handler_call list" where
  "event_calls sid now line =
     (let ev = parse_line line in
      case sev_Type ev of
        EventVersion \<Rightarrow> [OnVersion sid (sev_Version ev)]
      | EventLine \<Rightarrow> [OnLine sid (sev_FileID ev) (sev_Content ev) now (source_byte_len ev)]
      | EventFileError \<Rightarrow> [OnFileError sid (sev_FileID ev) (sev_ErrorToken ev)]
      | EventUnknown \<Rightarrow> [])"

definition err_too_long :: go_error where
  "err_too_long = new_error ''bufio.Scanner: token too long''"

definition run_once :: "session_config \<Rightarrow> attempt \<Rightarrow> go_error option \<times> handler_call list" where
  "run_once c a =
     (if sc_RemoteCommand c = [] then (Some (new_error ''streamer: empty remote command''), [])
      else case at_open a of
        Inl e \<Rightarrow> (Some (wrap_error ''ssh stream: '' e), [])
      | Inr _ \<Rightarrow>
          (case scan_lines (sc_MaxLineBytes c) (at_bytes a) of
             (lines, too_long) \<Rightarrow>
               ((if too_long then Some (wrap_error ''scan: '' err_too_long)
                 else map_option (wrap_error ''scan: '') (at_err a)),
                OnSessionState (sc_ServerID c) True [] #
                concat (map (\<lambda>(i, l). event_calls (sc_ServerID c) (at_clock a i) l) (enumerate 0 lines)))))"

definition next_backoff :: "duration \<Rightarrow> duration \<Rightarrow> duration" where
  "next_backoff cur mx = (if wrap64 (cur * 2) > mx then mx else wrap64 (cur * 2))"

definition ctx_error :: "go_error option \<Rightarrow> bool" where
  "ctx_error err = (case err of None \<Rightarrow> False
     | Some e \<Rightarrow> errors_is e CtxCanceled \<or> errors_is e CtxDeadlineExceeded)"

definition reconnect_reason :: "go_error option \<Rightarrow> string" where
  "reconnect_reason err =
     ''reconnect after: '' @ (case err of None \<Rightarrow> ''<nil>'' | Some e \<Rightarrow> err_msg e)"

text \<open>The loop: the calls it makes, the pauses it takes, and whether it has exited.\<close>

fun session_loop ::
  "session_config \<Rightarrow> duration \<Rightarrow> attempt list \<Rightarrow> handler_call list \<times> duration list \<times> bool" where
  "session_loop c backoff [] = ([], [], False)"
| "session_loop c backoff (a # as) =
     (if at_stopped a then ([], [], True)
      else case run_once c a of
        (err, calls) \<Rightarrow>
          if ctx_error err then (calls, [], True)
          else
            (let down = OnSessionState (sc_ServerID c) False (reconnect_reason err) in
             if at_woken a then (calls @ [down], [backoff], True)
             else
               (case session_loop c (next_backoff backoff (sc_MaxBackoff c)) as of
                  (rest, sleeps, over) \<Rightarrow> (calls @ down # rest, backoff # sleeps, over))))"

definition session_run :: "session_config \<Rightarrow> attempt list \<Rightarrow> handler_call list \<times> duration list \<times> bool" where
  "session_run cfg as = (let c = new_session_config cfg in session_loop c (sc_MinBackoff c) as)"

section \<open>Reading the protocol\<close>

lemma index_of_skip:
  "p \<noteq> [] \<Longrightarrow> hd p \<notin> set u \<Longrightarrow> index_of p (u @ s) = map_option (\<lambda>i. length u + i) (index_of p s)"
proof (induction u)
  case Nil
  then show ?case by (simp add: option.map_ident)
next
  case (Cons x u)
  then have "\<not> has_prefix p (x # u @ s)" by (cases p) (auto simp: has_prefix_Cons)
  with Cons show ?case by (cases "index_of p s") simp_all
qed

lemma index_of_self: "index_of p (p @ s) = Some 0"
  by (cases "p @ s") (use has_prefix_append [of p s] in simp_all)

lemma index_of_at: "p \<noteq> [] \<Longrightarrow> hd p \<notin> set u \<Longrightarrow> index_of p (u @ p @ s) = Some (length u)"
  by (simp add: index_of_skip index_of_self)

definition file_id_ok :: "string \<Rightarrow> bool" where
  "file_id_ok fid \<longleftrightarrow> content_separator \<notin> set fid \<and> space \<notin> set fid"

definition line_text :: "string \<Rightarrow> string \<Rightarrow> string" where
  "line_text fid content = fline_prefix @ fid @ content_separator # content"

lemma parse_fline_prefix:
  "parse_line (fline_prefix @ rest) =
     (case index_of (space # error_marker) rest of
        Some i \<Rightarrow> no_event\<lparr>sev_Type := EventFileError, sev_FileID := take i rest,
            sev_ErrorToken := trim_space (drop (i + length (space # error_marker)) rest)\<rparr>
      | None \<Rightarrow> (case index_byte content_separator rest of
           None \<Rightarrow> no_event
         | Some i \<Rightarrow> no_event\<lparr>sev_Type := EventLine, sev_FileID := take i rest, sev_Content := drop (i + 1) rest\<rparr>))"
  by (simp add: parse_line_def cut_prefix_def version_prefix_def fline_prefix_def has_prefix_def Let_def)

lemma line_text_index:
  assumes "file_id_ok fid"
  shows "index_of (space # error_marker) (fid @ content_separator # content) =
    map_option (\<lambda>i. length fid + 1 + i) (index_of (space # error_marker) content)"
  using index_of_skip [of "space # error_marker" "fid @ [content_separator]" content] assms
  by (simp add: file_id_ok_def)

text \<open>
  C37. Reading the streamer's protocol. The version line and the error line of a file are read back,
  and a content line is read back as its file and content with one byte more than the content
  for the line feed, unless the content itself holds the error marker after a blank: such a log
  line is taken for an error of the file, counts no bytes, and is not delivered.
\<close>

theorem parse_line_reads:
  assumes "file_id_ok fid"
  shows "parse_line (version_prefix @ v) = no_event\<lparr>sev_Type := EventVersion, sev_Version := trim_space v\<rparr> \<and>
    parse_line (fline_prefix @ fid @ space # error_marker @ tok) =
      no_event\<lparr>sev_Type := EventFileError, sev_FileID := fid, sev_ErrorToken := trim_space tok\<rparr> \<and>
    (if contains content (space # error_marker)
     then sev_Type (parse_line (line_text fid content)) = EventFileError \<and>
       source_byte_len (parse_line (line_text fid content)) = 0
     else parse_line (line_text fid content) =
         no_event\<lparr>sev_Type := EventLine, sev_FileID := fid, sev_Content := content\<rparr> \<and>
       source_byte_len (parse_line (line_text fid content)) = int (length content) + 1)"
proof -
  have "parse_line (version_prefix @ v) = no_event\<lparr>sev_Type := EventVersion, sev_Version := trim_space v\<rparr>"
    by (simp add: parse_line_def cut_prefix_def version_prefix_def has_prefix_def)
  moreover have "index_of (space # error_marker) (fid @ (space # error_marker) @ tok) = Some (length fid)"
    using assms by (intro index_of_at) (simp_all add: file_id_ok_def)
  then have "parse_line (fline_prefix @ fid @ space # error_marker @ tok) =
      no_event\<lparr>sev_Type := EventFileError, sev_FileID := fid, sev_ErrorToken := trim_space tok\<rparr>"
    by (simp add: parse_fline_prefix)
  moreover have "index_byte content_separator (fid @ content_separator # content) = Some (length fid)"
    using assms by (simp add: file_id_ok_def index_byte_append)
  ultimately show ?thesis
    by (cases "index_of (space # error_marker) content")
      (simp_all add: line_text_def parse_fline_prefix line_text_index [OF assms] contains_def
        source_byte_len_def)
qed

theorem parse_line_reads_witness:
  "parse_line ''##F=web|a|b'' =
     no_event\<lparr>sev_Type := EventLine, sev_FileID := ''web'', sev_Content := ''a|b''\<rparr> \<and>
   sev_Type (parse_line ''##F=web|x ##E=1'') = EventFileError"
proof -
  have id: "file_id_ok ''web''" by (simp add: file_id_ok_def)
  have "\<not> contains ''a|b'' (space # error_marker)" "contains ''x ##E=1'' (space # error_marker)"
    by (simp_all add: contains_def error_marker_def has_prefix_def)
  with parse_line_reads [OF id, where content = "''a|b''"] parse_line_reads [OF id, where content = "''x ##E=1''"]
  show ?thesis by (simp add: line_text_def fline_prefix_def)
qed

section \<open>The remote command reads back\<close>

declare single_quote_def [simp]

lemma contains_any_iff: "contains_any s cs \<longleftrightarrow> set s \<inter> set cs \<noteq> {}"
  by (auto simp: contains_any_def list_ex_iff)

lemma check_files_None:
  "check_files fs = None \<longleftrightarrow> (\<forall>f \<in> set fs.
     set (fs_ID f) \<inter> {single_quote, comma, equals, CHR 0x3A, CHR 0x7C, newline} = {} \<and>
     set (fs_Path f) \<inter> {single_quote, comma, newline} = {})"
  by (induction fs) (auto simp: contains_any_iff)

lemma sh_word_quoted_literal:
  "single_quote \<notin> set t \<Longrightarrow> sh_word True (t @ single_quote # s) = map_option (\<lambda>(u, r). (t @ u, r)) (sh_word False s)"
  by (induction t) (cases "sh_word False s"; auto)+

text \<open>How the script reads its \<open>--files\<close> argument: entries at commas, each an id up to the first
  colon and a path.\<close>

definition read_entry :: "string \<Rightarrow> string \<times> string" where
  "read_entry e = (takeWhile (\<lambda>c. c \<noteq> CHR 0x3A) e, tl (dropWhile (\<lambda>c. c \<noteq> CHR 0x3A) e))"

definition read_files_arg :: "string \<Rightarrow> (string \<times> string) list" where
  "read_files_arg a = map read_entry (split_on comma a)"

lemma read_entry_pair: "CHR 0x3A \<notin> set i \<Longrightarrow> read_entry (i @ CHR 0x3A # p) = (i, p)"
  unfolding read_entry_def by (induction i) auto

lemma files_arg_reads:
  assumes "fs \<noteq> []" "check_files fs = None"
  shows "read_files_arg (files_arg fs) = map (\<lambda>f. (fs_ID f, fs_Path f)) fs"
proof -
  have "split_on comma (files_arg fs) = map (\<lambda>f. fs_ID f @ CHR 0x3A # fs_Path f) fs"
    unfolding files_arg_def using assms by (intro split_join) (auto simp: check_files_None)
  then show ?thesis
    using assms(2) by (auto simp: read_files_arg_def check_files_None read_entry_pair)
qed

lemma join_free: "c \<notin> set sep \<Longrightarrow> \<forall>x \<in> set xs. c \<notin> set x \<Longrightarrow> c \<notin> set (join sep xs)"
  using set_join [of sep xs] by blast

lemma quote_not_in_int [simp]: "CHR 0x27 \<notin> set (format_int n)"
  by (rule not_in_format_int) simp_all

lemma resume_parts_free:
  "check_files fs = None \<Longrightarrow> \<forall>x \<in> set (resume_parts fs resume). single_quote \<notin> set x"
  by (auto simp: resume_parts_def map_filter_def check_files_None split: option.splits if_splits)

lemma remote_args_free:
  assumes "check_files fs = None"
  shows "single_quote \<notin> set (join [space] (remote_args fs resume))"
proof -
  have "single_quote \<notin> set (files_arg fs)" unfolding files_arg_def
    by (rule join_free) (use assms in \<open>auto simp: check_files_None\<close>)
  moreover have "single_quote \<notin> set (join [comma] (resume_parts fs resume))"
    by (rule join_free) (use resume_parts_free [OF assms] in auto)
  ultimately show ?thesis by (intro join_free) (auto simp: remote_args_def)
qed


definition injected_file :: file_spec where
  "injected_file = \<lparr>fs_ID = ''a'', fs_Path = ''/x;id''\<rparr>"


text \<open>The word the login shell passes on is a command line for the inner shell: there the path of an
  accepted file can end the command and start another.\<close>

lemma remote_command_injection:
  "is_ok (build_remote_command ''/s'' [injected_file] []) \<and>
   sh_word False (hd (remote_args [injected_file] [])) = Some (''--files=a:/x'', '';id'')"
  by (simp add: build_remote_command_def injected_file_def contains_any_def
      remote_args_def resume_parts_def map_filter_def files_arg_def sh_end_def sh_expands_def)

section \<open>Pauses and exits\<close>

lemma next_backoff_min:
  assumes "0 < b" "b \<le> mx" "mx < 2 ^ 62"
  shows "next_backoff b mx = min mx (b * 2)"
proof -
  have "wrap64 (b * 2) = b * 2" using assms by (intro wrap64_id) (simp add: is_int64_def)
  then show ?thesis by (simp add: next_backoff_def min_def)
qed

lemma min_double:
  fixes b mx :: int
  assumes "0 < b" "b \<le> mx"
  shows "min mx (min mx (b * 2) * 2 ^ i) = min mx (b * 2 ^ Suc i)"
proof (cases "b * 2 \<le> mx")
  case True
  then show ?thesis by (simp add: min_absorb2 mult.assoc)
next
  case False
  have "mx * 1 \<le> mx * 2 ^ i" using assms by (intro mult_left_mono) simp_all
  moreover have "b * 2 * 1 \<le> b * 2 * 2 ^ i" using assms by (intro mult_left_mono) simp_all
  ultimately show ?thesis using False by (simp add: min_def mult.assoc)
qed

lemma session_loop_pauses:
  assumes "0 < b" "b \<le> sc_MaxBackoff c" "sc_MaxBackoff c < 2 ^ 62"
    "i < length (fst (snd (session_loop c b as)))"
  shows "fst (snd (session_loop c b as)) ! i = min (sc_MaxBackoff c) (b * 2 ^ i)"
  using assms
proof (induction c b as arbitrary: i rule: session_loop.induct)
  case (1 c b)
  then show ?case by simp
next
  case (2 c b a as)
  obtain err calls where r: "run_once c a = (err, calls)" by (metis surj_pair)
  show ?case
  proof (cases "at_stopped a \<or> ctx_error err \<or> at_woken a")
    case True
    with 2 show ?thesis by (auto simp: r Let_def min_absorb2 split: if_splits)
  next
    case False
    let ?n = "next_backoff b (sc_MaxBackoff c)"
    have n: "?n = min (sc_MaxBackoff c) (b * 2)" using 2 by (intro next_backoff_min) auto
    obtain rest sleeps over where l: "session_loop c ?n as = (rest, sleeps, over)" by (metis surj_pair)
    have s: "fst (snd (session_loop c b (a # as))) = b # sleeps" using False r l by (simp add: Let_def)
    show ?thesis
    proof (cases i)
      case 0
      with s 2 show ?thesis by (simp add: min_absorb2)
    next
      case (Suc j)
      have "sleeps ! j = min (sc_MaxBackoff c) (?n * 2 ^ j)"
        using "2.IH" [OF _ r [symmetric] _ refl, of j] False "2.prems" s l Suc n by auto
      with s Suc n min_double [of b "sc_MaxBackoff c" j] "2.prems" show ?thesis by simp
    qed
  qed
qed

lemma session_loop_exit:
  "at_stopped a \<or> at_woken a \<Longrightarrow> session_loop c b (as @ a # as') = session_loop c b (as @ [a])"
proof (induction as arbitrary: b)
  case Nil
  then show ?case by (auto simp: Let_def split: prod.split)
next
  case (Cons x as)
  then show ?case by (simp add: Let_def split: prod.split)
qed

text \<open>
  A session never spins and always comes down: with configured pauses that are positive, ordered and
  below 2^62 nanoseconds, the pause after the i-th failed connection is the minimum
  doubled i times and capped by the maximum, without overflow, and once stop or a cancelled
  context is seen, before a connection or during a pause, nothing that follows
  changes what the session did.
\<close>

lemma session_pauses:
  assumes "0 < sc_MinBackoff cfg" "sc_MinBackoff cfg \<le> sc_MaxBackoff cfg" "sc_MaxBackoff cfg < 2 ^ 62"
    "at_stopped a \<or> at_woken a"
  shows "(\<forall>i < length (fst (snd (session_run cfg as))).
      fst (snd (session_run cfg as)) ! i = min (sc_MaxBackoff cfg) (sc_MinBackoff cfg * 2 ^ i)) \<and>
    session_run cfg (as @ a # as') = session_run cfg (as @ [a])"
proof -
  have c: "sc_MinBackoff (new_session_config cfg) = sc_MinBackoff cfg"
    "sc_MaxBackoff (new_session_config cfg) = sc_MaxBackoff cfg"
    using assms by (simp_all add: new_session_config_def)
  show ?thesis
    using session_loop_pauses [of "sc_MinBackoff cfg" "new_session_config cfg" _ as]
      session_loop_exit [OF assms(4)] assms(1-3)
    by (simp add: session_run_def Let_def c)
qed

definition session_example :: session_config where
  "session_example = \<lparr>sc_ServerID = 1, sc_Target = \<lparr>tg_Host = ''h'', tg_Port = 22, tg_User = ''u'', tg_KeyPath = ''k''\<rparr>,
     sc_Files = [], sc_RemoteCommand = ''run'', sc_ResumeOffsets = [], sc_MinBackoff = second,
     sc_MaxBackoff = 3 * second, sc_MaxLineBytes = 0\<rparr>"

definition refused :: attempt where
  "refused = \<lparr>at_stopped = False, at_open = Inl (new_error ''refused''), at_bytes = [], at_err = None,
     at_clock = (\<lambda>i. 0), at_woken = False\<rparr>"

lemma session_pauses_witness:
  "fst (snd (session_run session_example [refused, refused, refused, refused\<lparr>at_stopped := True\<rparr>])) =
     [second, 2 * second, 3 * second] \<and>
   session_run session_example ([refused] @ refused\<lparr>at_stopped := True\<rparr> # [refused]) =
     session_run session_example [refused, refused\<lparr>at_stopped := True\<rparr>]"
proof -
  let ?as = "[refused, refused, refused, refused\<lparr>at_stopped := True\<rparr>]"
  have c: "0 < sc_MinBackoff session_example" "sc_MinBackoff session_example \<le> sc_MaxBackoff session_example"
    "sc_MaxBackoff session_example < 2 ^ 62" "at_stopped (refused\<lparr>at_stopped := True\<rparr>) \<or> at_woken (refused\<lparr>at_stopped := True\<rparr>)"
    by (simp_all add: session_example_def)
  have "length (fst (snd (session_run session_example ?as))) = 3"
    by (simp add: session_run_def new_session_config_def session_example_def refused_def run_once_def
        ctx_error_def Let_def)
  then have "fst (snd (session_run session_example ?as)) =
      map (\<lambda>i. min (sc_MaxBackoff session_example) (sc_MinBackoff session_example * 2 ^ i)) [0..<3]"
    using session_pauses [OF c, of ?as] by (intro nth_equalityI) simp_all
  then show ?thesis
    using session_pauses [OF c, of "[refused]" "[refused]"]
    by (simp add: session_example_def upt_rec)
qed

section \<open>What a session delivers\<close>

lemma split_terminated:
  "\<forall>l \<in> set ls. newline \<notin> set l \<Longrightarrow> split_on newline (concat (map (\<lambda>l. l @ [newline]) ls)) = ls @ [[]]"
  by (induction ls) (simp_all add: split_on_append)

lemma stream_pieces_terminated:
  "\<forall>l \<in> set ls. newline \<notin> set l \<Longrightarrow> stream_pieces (concat (map (\<lambda>l. l @ [newline]) ls)) = ls"
  by (simp add: stream_pieces_def split_terminated)

lemma scan_terminated:
  assumes "\<forall>l \<in> set ls. newline \<notin> set l \<and> int (length l) < max 65536 limit"
  shows "scan_lines limit (concat (map (\<lambda>l. l @ [newline]) ls)) = (map drop_cr ls, False)"
proof -
  have "takeWhile (\<lambda>l. int (length l) < max 65536 limit) ls = ls" using assms by (simp add: takeWhile_eq_all_conv)
  moreover have "\<forall>l \<in> set ls. newline \<notin> set l" using assms by blast
  ultimately show ?thesis unfolding scan_lines_def Let_def by (simp only: stream_pieces_terminated) simp
qed

text \<open>A log line as the bench-side script sends it, and the call it should become: a carriage return
  before the line feed is the scanner's to drop.\<close>

definition sendable :: "int \<Rightarrow> string \<times> string \<Rightarrow> bool" where
  "sendable limit fl = (case fl of (fid, l) \<Rightarrow>
     file_id_ok fid \<and> newline \<notin> set fid \<and> newline \<notin> set l \<and> \<not> contains l (space # error_marker) \<and>
     int (length (line_text fid l)) < max 65536 limit)"

definition delivered :: "int \<Rightarrow> time \<Rightarrow> string \<times> string \<Rightarrow> handler_call" where
  "delivered sid now fl = (case fl of (fid, l) \<Rightarrow> OnLine sid fid (drop_cr l) now (int (length (drop_cr l)) + 1))"

lemma drop_cr_line_text: "drop_cr (line_text fid l) = line_text fid (drop_cr l)"
  by (auto simp: drop_cr_def line_text_def fline_prefix_def butlast_append)

lemma contains_drop_cr: "\<not> contains l p \<Longrightarrow> \<not> contains (drop_cr l) p"
proof
  assume n: "\<not> contains l p" and "contains (drop_cr l) p"
  then obtain u v where d: "drop_cr l = u @ p @ v" by (auto simp: contains_iff)
  have "\<exists>w. l = drop_cr l @ w"
    by (cases "l \<noteq> [] \<and> last l = CHR 0x0D") (auto simp: drop_cr_def intro!: exI [of _ "[last l]"] append_butlast_last_id [symmetric])
  with d have "\<exists>u v. l = u @ p @ v" by (metis append.assoc)
  with n show False by (simp add: contains_iff)
qed

lemma event_calls_sendable:
  assumes "sendable limit fl"
  shows "event_calls sid now (drop_cr (line_text (fst fl) (snd fl))) = [delivered sid now fl]"
proof -
  obtain fid l where fl: "fl = (fid, l)" by (cases fl)
  have "file_id_ok fid" "\<not> contains (drop_cr l) (space # error_marker)"
    using assms contains_drop_cr [of l] by (auto simp: fl sendable_def)
  with parse_line_reads [of fid, where content = "drop_cr l"] show ?thesis
    by (simp add: event_calls_def fl delivered_def drop_cr_line_text Let_def source_byte_len_def)
qed

lemma sendable_fits:
  "\<forall>fl \<in> set fls. sendable limit fl \<Longrightarrow>
     \<forall>l \<in> set (map (\<lambda>fl. line_text (fst fl) (snd fl)) fls). newline \<notin> set l \<and> int (length l) < max 65536 limit"
  by (auto simp: sendable_def line_text_def fline_prefix_def)

lemma event_calls_lines:
  "\<forall>fl \<in> set fls. sendable limit fl \<Longrightarrow>
     concat (map (\<lambda>(i, l). event_calls sid (clock i) l)
       (enumerate n (map drop_cr (map (\<lambda>fl. line_text (fst fl) (snd fl)) fls)))) =
     map (\<lambda>(i, fl). delivered sid (clock i) fl) (enumerate n fls)"
  by (induction fls arbitrary: n) (simp_all add: event_calls_sendable [where limit = limit])

text \<open>
  C36. A session delivers what was sent: for every sequence of log lines that fit the line limit and do not
  hold the error marker, the handler is told the session is up and then given each line
  once, in order, with its file and its bytes plus one, whatever characters it holds. A
  line that ends in a carriage return arrives without it, and then counts one byte less than the
  file has.
\<close>

theorem session_delivers:
  assumes "sc_RemoteCommand c \<noteq> []" "is_ok (at_open a)" "\<forall>fl \<in> set fls. sendable (sc_MaxLineBytes c) fl"
    "at_bytes a = concat (map (\<lambda>fl. line_text (fst fl) (snd fl) @ [newline]) fls)"
  shows "run_once c a =
    (map_option (wrap_error ''scan: '') (at_err a),
     OnSessionState (sc_ServerID c) True [] #
       map (\<lambda>(i, fl). delivered (sc_ServerID c) (at_clock a i) fl) (enumerate 0 fls)) \<and>
    (\<forall>fid l now. delivered (sc_ServerID c) now (fid, l @ [CHR 0x0D]) =
       OnLine (sc_ServerID c) fid l now (int (length (l @ [CHR 0x0D]))))"
proof -
  let ?text = "\<lambda>fl. line_text (fst fl) (snd fl)"
  note fit = sendable_fits [OF assms(3)]
  have "at_bytes a = concat (map (\<lambda>l. l @ [newline]) (map ?text fls))"
    using assms(4) by (simp add: comp_def)
  then have "scan_lines (sc_MaxLineBytes c) (at_bytes a) = (map drop_cr (map ?text fls), False)"
    using scan_terminated [OF fit] by simp
  moreover note event_calls_lines [OF assms(3), of "sc_ServerID c" "at_clock a" 0]
  ultimately have "run_once c a =
    (map_option (wrap_error ''scan: '') (at_err a),
     OnSessionState (sc_ServerID c) True [] #
       map (\<lambda>(i, fl). delivered (sc_ServerID c) (at_clock a i) fl) (enumerate 0 fls))"
    using assms(1-3) by (auto simp: run_once_def elim!: is_okE)
  then show ?thesis by (simp add: delivered_def drop_cr_def)
qed

theorem session_delivers_witness:
  "run_once session_example (refused\<lparr>at_open := Inr (), at_bytes := ''##F=web|GET /'' @ [newline]\<rparr>) =
     (None, [OnSessionState 1 True [], OnLine 1 ''web'' ''GET /'' 0 6])"
proof -
  let ?a = "refused\<lparr>at_open := Inr (), at_bytes := ''##F=web|GET /'' @ [newline]\<rparr>"
  have send: "\<forall>fl \<in> set [(''web'', ''GET /'')]. sendable (sc_MaxLineBytes session_example) fl"
    by (simp add: sendable_def file_id_ok_def line_text_def fline_prefix_def contains_def has_prefix_def error_marker_def)
  have bytes: "at_bytes ?a = concat (map (\<lambda>fl. line_text (fst fl) (snd fl) @ [newline]) [(''web'', ''GET /'')])"
    by (simp add: line_text_def fline_prefix_def)
  have "sc_RemoteCommand session_example \<noteq> []" "is_ok (at_open ?a)" by (simp_all add: session_example_def)
  from session_delivers [OF this send bytes] show ?thesis
    by (simp add: session_example_def refused_def delivered_def drop_cr_def)
qed

end
