(* ===== verification/Stream_Sink.thy ===== *)
theory Stream_Sink
  imports Streamer
begin

text \<open>
  internal/streamer/sink.go: the handler that buffers the lines of every (server, file) stream,
  pushes them to Loki and advances the cursors. \<open>Flush\<close> holds the lock only while it takes its
  snapshot and while it drops what it pushed, so it is modelled as these two steps with the
  push between them, and the interleavings of several goroutines as an inductive step
  relation over them. The pushers, the path resolver, the map iteration orders and the
  formatting of the lag are parameters.
\<close>

type_synonym stream_key = "int \<times> string"

record sink_config =
  kc_MonitorID :: string
  kc_FlushInterval :: duration
  kc_MaxBatchLines :: int
  kc_PushTimeout :: duration

definition new_sink_config :: "sink_config \<Rightarrow> sink_config" where
  "new_sink_config c =
     c\<lparr>kc_FlushInterval := (if kc_FlushInterval c \<le> 0 then second else kc_FlushInterval c),
       kc_MaxBatchLines := (if kc_MaxBatchLines c \<le> 0 then 500 else kc_MaxBatchLines c),
       kc_PushTimeout := (if kc_PushTimeout c \<le> 0 then 10 * second else kc_PushTimeout c)\<rparr>"

record stream_buf =
  sb_labels :: "string go_map"
  sb_entries :: "log_entry list"

record sink =
  sk_streams :: "(stream_key \<times> stream_buf) list"
  sk_bytes :: "(stream_key \<times> int) list"
  sk_lastSeen :: "(int \<times> time) list"
  sk_health :: "(int \<times> bool) list"

definition new_sink :: sink where
  "new_sink = \<lparr>sk_streams = [], sk_bytes = [], sk_lastSeen = [], sk_health = []\<rparr>"

record sink_env =
  se_cfg :: sink_config
  se_loki :: "nat \<Rightarrow> log_stream list \<Rightarrow> unit result"
  se_vm :: bool
  se_resolver :: "int \<Rightarrow> string \<Rightarrow> string option"
  se_sql :: sql_env
  se_order :: "(stream_key \<times> stream_buf) list \<Rightarrow> (stream_key \<times> stream_buf) list"
  se_bump_order :: "(stream_key \<times> int) list \<Rightarrow> (stream_key \<times> int) list"
  se_server_order :: "int list \<Rightarrow> int list"
  se_lag_text :: "duration \<Rightarrow> string"

section \<open>Appending a line\<close>

definition server_id_label :: "int \<Rightarrow> string" where
  "server_id_label i = ''id-'' @ format_int i"

definition labels_for :: "sink_env \<Rightarrow> int \<Rightarrow> string \<Rightarrow> string go_map" where
  "labels_for env sid fid =
     [(''server'', server_id_label sid), (''log_type'', fid)] @
     (if kc_MonitorID (se_cfg env) \<noteq> [] then [(''monitor'', kc_MonitorID (se_cfg env))] else [])"

definition key_bytes :: "sink \<Rightarrow> stream_key \<Rightarrow> int" where
  "key_bytes s k = (case map_of (sk_bytes s) k of None \<Rightarrow> 0 | Some n \<Rightarrow> n)"

definition key_entries :: "sink \<Rightarrow> stream_key \<Rightarrow> log_entry list" where
  "key_entries s k = (case map_of (sk_streams s) k of None \<Rightarrow> [] | Some b \<Rightarrow> sb_entries b)"

definition sink_append :: "sink_env \<Rightarrow> int \<Rightarrow> string \<Rightarrow> string \<Rightarrow> time \<Rightarrow> int \<Rightarrow> sink \<Rightarrow> bool \<times> sink" where
  "sink_append env sid fid content now n s =
     (let k = (sid, fid);
          buf = (case map_of (sk_streams s) k of
                   None \<Rightarrow> \<lparr>sb_labels = labels_for env sid fid, sb_entries = []\<rparr>
                 | Some b \<Rightarrow> b);
          buf' = buf\<lparr>sb_entries := sb_entries buf @ [\<lparr>le_Time = now, le_Line = content\<rparr>]\<rparr>
      in (int (length (sb_entries buf')) \<ge> kc_MaxBatchLines (se_cfg env),
          s\<lparr>sk_streams := map_put (sk_streams s) k buf',
            sk_bytes := map_put (sk_bytes s) k (wrap64 (key_bytes s k + n)),
            sk_lastSeen := map_put (sk_lastSeen s) sid now\<rparr>))"

section \<open>Flushing\<close>

record flush_attempt =
  fa_key :: stream_key
  fa_entryLen :: nat
  fa_bytes :: int

definition flush_snapshot :: "sink_env \<Rightarrow> sink \<Rightarrow> log_stream list \<times> flush_attempt list" where
  "flush_snapshot env s =
     (let live = filter (\<lambda>(k, b). sb_entries b \<noteq> []) (se_order env (sk_streams s))
      in (map (\<lambda>(k, b). \<lparr>ls_Labels = sb_labels b, ls_Entries = sb_entries b\<rparr>) live,
          map (\<lambda>(k, b). \<lparr>fa_key = k, fa_entryLen = length (sb_entries b), fa_bytes = key_bytes s k\<rparr>) live))"

definition commit_one :: "flush_attempt \<Rightarrow> sink \<Rightarrow> sink" where
  "commit_one a s =
     s\<lparr>sk_streams := (case map_of (sk_streams s) (fa_key a) of
           None \<Rightarrow> sk_streams s
         | Some b \<Rightarrow> map_put (sk_streams s) (fa_key a) (b\<lparr>sb_entries := drop (fa_entryLen a) (sb_entries b)\<rparr>)),
       sk_bytes := (if fa_bytes a > 0
         then map_put (sk_bytes s) (fa_key a) (wrap64 (key_bytes s (fa_key a) - fa_bytes a))
         else sk_bytes s)\<rparr>"

definition flush_commit :: "flush_attempt list \<Rightarrow> sink \<Rightarrow> sink" where
  "flush_commit atts s = fold commit_one atts s"

definition cursor_bumps :: "flush_attempt list \<Rightarrow> (stream_key \<times> int) list" where
  "cursor_bumps atts = map (\<lambda>a. (fa_key a, fa_bytes a)) (filter (\<lambda>a. fa_bytes a > 0) atts)"

definition is_not_found :: "go_error \<Rightarrow> bool" where
  "is_not_found e \<longleftrightarrow> e = err_not_found"

definition bump_cursor :: "sink_env \<Rightarrow> time \<Rightarrow> stream_key \<times> int \<Rightarrow> 'f db \<Rightarrow> 'f db" where
  "bump_cursor env now kd db =
     (case kd of ((sid, fid), delta) \<Rightarrow>
        case se_resolver env sid fid of
          None \<Rightarrow> db
        | Some path \<Rightarrow>
            (case get_log_cursor sid path db of
               (res, dbr) \<Rightarrow>
                 let put = (\<lambda>prev. snd (upsert_log_cursor (se_sql env) now
                       \<lparr>lc_ServerID = sid, lc_LogPath = path, lc_ByteOffset = wrap64 (prev + delta),
                        lc_LastSeenAt = now\<rparr> dbr))
                 in (case res of
                      Inr cur \<Rightarrow> put (lc_ByteOffset cur)
                    | Inl e \<Rightarrow> if is_not_found e then put 0 else dbr)))"

section \<open>The handler\<close>

record 'f sink_world =
  sw_sink :: sink
  sw_db :: "'f db"
  sw_pushes :: "(log_stream list \<times> bool) list"
  sw_metrics :: "string list"

definition sink_escape_tag :: "string \<Rightarrow> string" where
  "sink_escape_tag s = replace_bytes (\<lambda>c. if c = comma \<or> c = space \<or> c = equals then [backslash, c] else [c]) s"

definition emit_health_metric :: "sink_env \<Rightarrow> time \<Rightarrow> int \<Rightarrow> bool \<Rightarrow> 'f sink_world \<Rightarrow> 'f sink_world" where
  "emit_health_metric env now sid connected w =
     (if \<not> se_vm env then w
      else w\<lparr>sw_metrics := sw_metrics w @
        [''frappe_stream_connected,server='' @ sink_escape_tag (server_id_label sid) @ '' value='' @
         (if connected then ''1'' else ''0'') @ [space] @ format_int (unix_nano now) @ [newline]]\<rparr>)"

definition emit_lag_metric :: "sink_env \<Rightarrow> time \<Rightarrow> int \<Rightarrow> time \<Rightarrow> 'f sink_world \<Rightarrow> 'f sink_world" where
  "emit_lag_metric env now sid seen w =
     (if \<not> se_vm env \<or> seen = zero_time then w
      else w\<lparr>sw_metrics := sw_metrics w @
        [''frappe_stream_lag_seconds,server='' @ sink_escape_tag (server_id_label sid) @ '' value='' @
         se_lag_text env (max 0 (time_sub now seen)) @ [space] @ format_int (unix_nano now) @ [newline]]\<rparr>)"

text \<open>One call of \<open>Flush\<close> that no other call interleaves with.\<close>

definition sink_flush :: "sink_env \<Rightarrow> time \<Rightarrow> 'f sink_world \<Rightarrow> go_error option \<times> 'f sink_world" where
  "sink_flush env now w =
     (let s = sw_sink w in
      case flush_snapshot env s of
        (streams, atts) \<Rightarrow>
          if streams = [] then (None, w)
          else
            (case se_loki env (length (sw_pushes w)) streams of
               Inl e \<Rightarrow> (Some (wrap_error ''loki push: '' e), w\<lparr>sw_pushes := sw_pushes w @ [(streams, False)]\<rparr>)
             | Inr _ \<Rightarrow>
                 (let w1 = w\<lparr>sw_pushes := sw_pushes w @ [(streams, True)], sw_sink := flush_commit atts s,
                        sw_db := fold (bump_cursor env now) (se_bump_order env (cursor_bumps atts)) (sw_db w)\<rparr>;
                      servers = se_server_order env (remdups (map (fst \<circ> fa_key) atts));
                      seen = (\<lambda>sid. case map_of (sk_lastSeen s) sid of None \<Rightarrow> zero_time | Some t \<Rightarrow> t)
                  in (None, fold (\<lambda>sid. emit_lag_metric env now sid (seen sid)) servers w1))))"

definition sink_on_line ::
  "sink_env \<Rightarrow> time \<Rightarrow> int \<Rightarrow> string \<Rightarrow> string \<Rightarrow> time \<Rightarrow> int \<Rightarrow> 'f sink_world \<Rightarrow> 'f sink_world" where
  "sink_on_line env now sid fid content t n w =
     (case sink_append env sid fid content t n (sw_sink w) of
        (overflow, s) \<Rightarrow>
          (let w1 = w\<lparr>sw_sink := s\<rparr> in if overflow then snd (sink_flush env now w1) else w1))"

definition sink_on_session_state :: "sink_env \<Rightarrow> time \<Rightarrow> int \<Rightarrow> bool \<Rightarrow> 'f sink_world \<Rightarrow> 'f sink_world" where
  "sink_on_session_state env now sid connected w =
     (let s = sw_sink w;
          w1 = w\<lparr>sw_sink := s\<lparr>sk_health := map_put (sk_health s) sid connected\<rparr>\<rparr>
      in if map_of (sk_health s) sid = Some connected then w1
         else emit_health_metric env now sid connected w1)"

fun sink_handle :: "sink_env \<Rightarrow> time \<Rightarrow> handler_call \<Rightarrow> 'f sink_world \<Rightarrow> 'f sink_world" where
  "sink_handle env now (OnVersion sid v) w = w"
| "sink_handle env now (OnLine sid fid content t n) w = sink_on_line env now sid fid content t n w"
| "sink_handle env now (OnFileError sid fid token) w = w"
| "sink_handle env now (OnSessionState sid connected reason) w = sink_on_session_state env now sid connected w"

section \<open>Interleavings\<close>

text \<open>The calls of several goroutines as steps: a line is appended, a flush takes its snapshot, its
  push fails, or its push succeeds and it drops what it pushed. Ghost fields record what was received,
  what was delivered and by how much the cursors were to be advanced. \<open>overlap\<close> allows a
  flush to start while another is in flight, as the code does.\<close>

record sink_run =
  sr_sink :: sink
  sr_flight :: "(flush_attempt \<times> log_stream) list list"
  sr_recv :: "(stream_key \<times> log_entry) list"
  sr_sent :: "(stream_key \<times> log_entry list) list"
  sr_bumps :: "(stream_key \<times> int) list"

definition sink_start :: sink_run where
  "sink_start = \<lparr>sr_sink = new_sink, sr_flight = [], sr_recv = [], sr_sent = [], sr_bumps = []\<rparr>"

definition deliveries :: "(flush_attempt \<times> log_stream) list \<Rightarrow> (stream_key \<times> log_entry list) list" where
  "deliveries fl = map (\<lambda>(a, st). (fa_key a, ls_Entries st)) fl"

inductive sink_step :: "bool \<Rightarrow> sink_env \<Rightarrow> sink_run \<Rightarrow> sink_run \<Rightarrow> bool" for overlap env where
  Append: "sink_append env sid fid content now (int (length content) + 1) (sr_sink r) = (full, s) \<Longrightarrow>
     sink_step overlap env r (r\<lparr>sr_sink := s, sr_recv := sr_recv r @ [((sid, fid), \<lparr>le_Time = now, le_Line = content\<rparr>)]\<rparr>)"
| Begin: "overlap \<or> sr_flight r = [] \<Longrightarrow> flush_snapshot env (sr_sink r) = (streams, atts) \<Longrightarrow> streams \<noteq> [] \<Longrightarrow>
     sink_step overlap env r (r\<lparr>sr_flight := sr_flight r @ [zip atts streams]\<rparr>)"
| Fail: "sr_flight r = f1 @ fl # f2 \<Longrightarrow> sink_step overlap env r (r\<lparr>sr_flight := f1 @ f2\<rparr>)"
| Commit: "sr_flight r = f1 @ fl # f2 \<Longrightarrow>
     sink_step overlap env r (r\<lparr>sr_flight := f1 @ f2, sr_sink := flush_commit (map fst fl) (sr_sink r),
       sr_sent := sr_sent r @ deliveries fl, sr_bumps := sr_bumps r @ cursor_bumps (map fst fl)\<rparr>)"

definition received :: "sink_run \<Rightarrow> stream_key \<Rightarrow> log_entry list" where
  "received r k = map snd (filter (\<lambda>x. fst x = k) (sr_recv r))"

definition sent_to_loki :: "sink_run \<Rightarrow> stream_key \<Rightarrow> log_entry list" where
  "sent_to_loki r k = concat (map snd (filter (\<lambda>x. fst x = k) (sr_sent r)))"

definition bumped :: "sink_run \<Rightarrow> stream_key \<Rightarrow> int" where
  "bumped r k = sum_list (map snd (filter (\<lambda>x. fst x = k) (sr_bumps r)))"

definition entry_bytes :: "log_entry list \<Rightarrow> int" where
  "entry_bytes es = sum_list (map (\<lambda>e. int (length (le_Line e)) + 1) es)"

lemma entry_bytes_simps [simp]:
  "entry_bytes [] = 0" "entry_bytes (e # es) = int (length (le_Line e)) + 1 + entry_bytes es"
  "entry_bytes (es @ fs) = entry_bytes es + entry_bytes fs"
  by (simp_all add: entry_bytes_def)

lemma entry_bytes_nonneg: "0 \<le> entry_bytes es"
  by (induction es) simp_all

lemma entry_bytes_pos: "es \<noteq> [] \<Longrightarrow> 0 < entry_bytes es"
  using entry_bytes_nonneg by (cases es) (simp_all add: add.commute add_nonneg_pos)

text \<open>Nothing received is lost, duplicated or reordered, and the byte counters agree with it.\<close>

definition sink_ok :: "(flush_attempt \<times> log_stream) list \<Rightarrow> sink_run \<Rightarrow> bool" where
  "sink_ok fl r \<longleftrightarrow>
     is_map (sk_streams (sr_sink r)) \<and>
     (\<forall>k. sent_to_loki r k @ key_entries (sr_sink r) k = received r k) \<and>
     (\<forall>k. entry_bytes (received r k) < 2 ^ 63 \<longrightarrow>
        key_bytes (sr_sink r) k = entry_bytes (key_entries (sr_sink r) k) \<and>
        bumped r k = entry_bytes (sent_to_loki r k)) \<and>
     distinct (map (fa_key \<circ> fst) fl) \<and>
     (\<forall>(a, st) \<in> set fl. fa_entryLen a = length (ls_Entries st) \<and> ls_Entries st \<noteq> [] \<and>
        (\<exists>rest. key_entries (sr_sink r) (fa_key a) = ls_Entries st @ rest) \<and>
        (entry_bytes (received r (fa_key a)) < 2 ^ 63 \<longrightarrow> fa_bytes a = entry_bytes (ls_Entries st)))"

lemma sink_ok_map: "sink_ok fl r \<Longrightarrow> is_map (sk_streams (sr_sink r))"
  unfolding sink_ok_def by blast

lemma sink_ok_queue: "sink_ok fl r \<Longrightarrow> sent_to_loki r k @ key_entries (sr_sink r) k = received r k"
  unfolding sink_ok_def by blast

lemma sink_ok_bytes:
  "sink_ok fl r \<Longrightarrow> entry_bytes (received r k) < 2 ^ 63 \<Longrightarrow>
     key_bytes (sr_sink r) k = entry_bytes (key_entries (sr_sink r) k) \<and> bumped r k = entry_bytes (sent_to_loki r k)"
  unfolding sink_ok_def by blast

lemma sink_ok_flight:
  "sink_ok fl r \<Longrightarrow> distinct (map (fa_key \<circ> fst) fl) \<and> (\<forall>(a, st) \<in> set fl.
     fa_entryLen a = length (ls_Entries st) \<and> ls_Entries st \<noteq> [] \<and>
     (\<exists>rest. key_entries (sr_sink r) (fa_key a) = ls_Entries st @ rest) \<and>
     (entry_bytes (received r (fa_key a)) < 2 ^ 63 \<longrightarrow> fa_bytes a = entry_bytes (ls_Entries st)))"
  unfolding sink_ok_def by blast

lemma sink_ok_flightD:
  "sink_ok fl r \<Longrightarrow> (a, st) \<in> set fl \<Longrightarrow>
     fa_entryLen a = length (ls_Entries st) \<and> ls_Entries st \<noteq> [] \<and>
     (\<exists>rest. key_entries (sr_sink r) (fa_key a) = ls_Entries st @ rest) \<and>
     (entry_bytes (received r (fa_key a)) < 2 ^ 63 \<longrightarrow> fa_bytes a = entry_bytes (ls_Entries st))"
  using sink_ok_flight [of fl r] by blast

lemma sink_okI:
  assumes "is_map (sk_streams (sr_sink r))" "\<And>k. sent_to_loki r k @ key_entries (sr_sink r) k = received r k"
    "\<And>k. entry_bytes (received r k) < 2 ^ 63 \<Longrightarrow>
        key_bytes (sr_sink r) k = entry_bytes (key_entries (sr_sink r) k) \<and> bumped r k = entry_bytes (sent_to_loki r k)"
    "distinct (map (fa_key \<circ> fst) fl)"
    "\<And>a st. (a, st) \<in> set fl \<Longrightarrow> fa_entryLen a = length (ls_Entries st) \<and> ls_Entries st \<noteq> [] \<and>
     (\<exists>rest. key_entries (sr_sink r) (fa_key a) = ls_Entries st @ rest) \<and>
     (entry_bytes (received r (fa_key a)) < 2 ^ 63 \<longrightarrow> fa_bytes a = entry_bytes (ls_Entries st))"
  shows "sink_ok fl r"
  unfolding sink_ok_def using assms by blast

lemma sink_ok_start: "sink_ok [] sink_start"
  by (simp add: sink_ok_def sink_start_def new_sink_def is_map_def sent_to_loki_def key_entries_def
      received_def key_bytes_def bumped_def)

lemma sink_append_effect:
  assumes "sink_append env sid fid content now n s = (full, s')"
  shows "key_entries s' k = key_entries s k @ (if k = (sid, fid) then [\<lparr>le_Time = now, le_Line = content\<rparr>] else [])"
    "key_bytes s' k = (if k = (sid, fid) then wrap64 (key_bytes s k + n) else key_bytes s k)"
    "is_map (sk_streams s) \<Longrightarrow> is_map (sk_streams s')"
  using assms by (auto simp: sink_append_def Let_def key_entries_def key_bytes_def split: option.splits)

lemma commit_one_effect:
  "key_entries (commit_one a s) k = (if k = fa_key a then drop (fa_entryLen a) (key_entries s k) else key_entries s k)"
  "key_bytes (commit_one a s) k =
     (if k = fa_key a \<and> fa_bytes a > 0 then wrap64 (key_bytes s k - fa_bytes a) else key_bytes s k)"
  "is_map (sk_streams s) \<Longrightarrow> is_map (sk_streams (commit_one a s))"
  by (auto simp: commit_one_def key_entries_def key_bytes_def split: option.splits)

lemma wrap64_small: "0 \<le> i \<Longrightarrow> i < 2 ^ 63 \<Longrightarrow> wrap64 i = i"
  by (simp add: wrap64_id is_int64_def)

lemma append_ok:
  assumes ok: "sink_ok fl r"
    and ap: "sink_append env sid fid content now (int (length content) + 1) (sr_sink r) = (full, s)"
  shows "sink_ok fl (r\<lparr>sr_sink := s, sr_recv := sr_recv r @ [((sid, fid), \<lparr>le_Time = now, le_Line = content\<rparr>)]\<rparr>)"
proof -
  let ?e = "\<lparr>le_Time = now, le_Line = content\<rparr>"
  let ?r = "r\<lparr>sr_sink := s, sr_recv := sr_recv r @ [((sid, fid), ?e)]\<rparr>"
  note eff = sink_append_effect [OF ap]
  have rv: "received ?r k = received r k @ (if k = (sid, fid) then [?e] else [])" for k
    by (simp add: received_def)
  have st: "sent_to_loki ?r k = sent_to_loki r k" "bumped ?r k = bumped r k" for k
    by (simp_all add: sent_to_loki_def bumped_def)
  have q: "sent_to_loki r k @ key_entries (sr_sink r) k = received r k" for k
    by (rule sink_ok_queue [OF ok])
  have b: "key_bytes s k = entry_bytes (key_entries s k) \<and> bumped ?r k = entry_bytes (sent_to_loki ?r k)"
    if "entry_bytes (received ?r k) < 2 ^ 63" for k
  proof -
    have small: "entry_bytes (received r k) < 2 ^ 63"
      using that entry_bytes_nonneg [of "[?e]"] by (auto simp: rv split: if_splits)
    then have old: "key_bytes (sr_sink r) k = entry_bytes (key_entries (sr_sink r) k)"
      "bumped r k = entry_bytes (sent_to_loki r k)" using sink_ok_bytes [OF ok] by blast+
    have "entry_bytes (key_entries s k) \<le> entry_bytes (received ?r k)"
      using entry_bytes_nonneg [of "sent_to_loki r k"] q [of k, symmetric] by (simp add: rv eff)
    then have "wrap64 (entry_bytes (key_entries s k)) = entry_bytes (key_entries s k)"
      using that entry_bytes_nonneg by (intro wrap64_small) auto
    with old st show ?thesis by (simp add: eff add.assoc split: if_splits)
  qed
  have "(\<exists>rest. key_entries s (fa_key a) = ls_Entries st @ rest) \<and>
      (entry_bytes (received ?r (fa_key a)) < 2 ^ 63 \<longrightarrow> fa_bytes a = entry_bytes (ls_Entries st))"
    if "(a, st) \<in> set fl" for a st
  proof -
    obtain rest where "key_entries (sr_sink r) (fa_key a) = ls_Entries st @ rest"
      "entry_bytes (received r (fa_key a)) < 2 ^ 63 \<longrightarrow> fa_bytes a = entry_bytes (ls_Entries st)"
      using sink_ok_flight [OF ok] \<open>(a, st) \<in> set fl\<close> by auto
    then show ?thesis using entry_bytes_nonneg [of "[?e]"] by (auto simp: eff rv split: if_splits)
  qed
  note fly = this
  show ?thesis
  proof (rule sink_okI)
    show "is_map (sk_streams (sr_sink ?r))" using eff(3) [OF sink_ok_map [OF ok]] by simp
    show "sent_to_loki ?r k @ key_entries (sr_sink ?r) k = received ?r k" for k
      using q [of k] by (simp add: st rv eff(1))
    show "distinct (map (fa_key \<circ> fst) fl)" using sink_ok_flight [OF ok] by blast
  next
    fix k assume "entry_bytes (received ?r k) < 2 ^ 63"
    then show "key_bytes (sr_sink ?r) k = entry_bytes (key_entries (sr_sink ?r) k) \<and>
        bumped ?r k = entry_bytes (sent_to_loki ?r k)" using b [of k] by simp
  next
    fix a st assume "(a, st) \<in> set fl"
    with fly [of a st] sink_ok_flight [OF ok] show "fa_entryLen a = length (ls_Entries st) \<and> ls_Entries st \<noteq> [] \<and>
        (\<exists>rest. key_entries (sr_sink ?r) (fa_key a) = ls_Entries st @ rest) \<and>
        (entry_bytes (received ?r (fa_key a)) < 2 ^ 63 \<longrightarrow> fa_bytes a = entry_bytes (ls_Entries st))"
      by auto
  qed
qed

text \<open>The streams a snapshot takes: those with lines, in the order of the map iteration.\<close>

definition live_streams :: "sink_env \<Rightarrow> sink \<Rightarrow> (stream_key \<times> stream_buf) list" where
  "live_streams env s = filter (\<lambda>(k, b). sb_entries b \<noteq> []) (se_order env (sk_streams s))"

abbreviation attempt_of :: "sink \<Rightarrow> stream_key \<times> stream_buf \<Rightarrow> flush_attempt" where
  "attempt_of s \<equiv> \<lambda>(k, b). \<lparr>fa_key = k, fa_entryLen = length (sb_entries b), fa_bytes = key_bytes s k\<rparr>"

abbreviation stream_of :: "stream_key \<times> stream_buf \<Rightarrow> log_stream" where
  "stream_of \<equiv> \<lambda>(k, b). \<lparr>ls_Labels = sb_labels b, ls_Entries = sb_entries b\<rparr>"

lemma snapshot_live:
  "flush_snapshot env s = (map stream_of (live_streams env s), map (attempt_of s) (live_streams env s))"
  by (simp add: flush_snapshot_def live_streams_def Let_def)

lemma live_streams_set:
  "\<forall>xs. mset (se_order env xs) = mset xs \<Longrightarrow> set (live_streams env s) = {(k, b) \<in> set (sk_streams s). sb_entries b \<noteq> []}"
  using mset_eq_setD [of "se_order env (sk_streams s)"] by (auto simp: live_streams_def)

lemma live_streams_keys:
  assumes "is_map (sk_streams s)" "\<forall>xs. mset (se_order env xs) = mset xs"
  shows "distinct (map fst (live_streams env s))"
  unfolding live_streams_def using assms keys_distinct_perm [of "se_order env (sk_streams s)"]
  by (intro distinct_map_filter) (auto simp: is_map_def)

lemma key_entries_of: "is_map (sk_streams s) \<Longrightarrow> (k, b) \<in> set (sk_streams s) \<Longrightarrow> key_entries s k = sb_entries b"
  by (simp add: is_map_def key_entries_def map_of_is_SomeI)

lemma key_entries_live: "key_entries s k \<noteq> [] \<Longrightarrow> \<exists>b. (k, b) \<in> set (sk_streams s) \<and> sb_entries b = key_entries s k"
  by (auto simp: key_entries_def split: option.splits dest: map_of_SomeD)

lemma live_keys:
  assumes "is_map (sk_streams s)" "\<forall>xs. mset (se_order env xs) = mset xs"
  shows "fst ` set (live_streams env s) = {k. key_entries s k \<noteq> []}"
proof (intro set_eqI iffI)
  fix k assume "k \<in> fst ` set (live_streams env s)"
  then obtain b where "(k, b) \<in> set (sk_streams s)" "sb_entries b \<noteq> []"
    by (auto simp: live_streams_set [OF assms(2)])
  with key_entries_of [OF assms(1)] show "k \<in> {k. key_entries s k \<noteq> []}" by simp
next
  fix k assume "k \<in> {k. key_entries s k \<noteq> []}"
  then have n: "key_entries s k \<noteq> []" by simp
  from key_entries_live [OF n] n obtain b where "(k, b) \<in> set (sk_streams s)" "sb_entries b \<noteq> []" by metis
  then have "(k, b) \<in> set (live_streams env s)" by (simp add: live_streams_set [OF assms(2)])
  then show "k \<in> fst ` set (live_streams env s)" by force
qed

lemma begin_ok:
  assumes ok: "sink_ok [] r" and order: "\<forall>xs. mset (se_order env xs) = mset xs"
    and snap: "flush_snapshot env (sr_sink r) = (streams, atts)"
  shows "sink_ok (zip atts streams) r"
proof -
  let ?s = "sr_sink r" and ?live = "live_streams env (sr_sink r)"
  have z: "zip atts streams = map (\<lambda>x. (attempt_of ?s x, stream_of x)) ?live"
    using snap by (auto simp: snapshot_live zip_map_map zip_same_conv_map)
  have im: "is_map (sk_streams ?s)" by (rule sink_ok_map [OF ok])
  have d: "distinct (map (fa_key \<circ> fst) (zip atts streams))"
    using live_streams_keys [OF im order] by (simp add: z comp_def case_prod_unfold)
  show ?thesis
  proof (rule sink_okI)
    fix a st assume "(a, st) \<in> set (zip atts streams)"
    then obtain k b where m: "(k, b) \<in> set ?live" "a = attempt_of ?s (k, b)" "st = stream_of (k, b)"
      unfolding z by auto
    with key_entries_of [OF im, of k b] sink_ok_bytes [OF ok, of k] live_streams_set [OF order, of ?s]
    show "fa_entryLen a = length (ls_Entries st) \<and> ls_Entries st \<noteq> [] \<and>
        (\<exists>rest. key_entries ?s (fa_key a) = ls_Entries st @ rest) \<and>
        (entry_bytes (received r (fa_key a)) < 2 ^ 63 \<longrightarrow> fa_bytes a = entry_bytes (ls_Entries st))"
      by auto
  qed (use im d sink_ok_queue [OF ok] sink_ok_bytes [OF ok] in blast)+
qed

lemma commit_ok:
  assumes "sink_ok (fl @ fl') r"
  shows "sink_ok fl' (r\<lparr>sr_sink := flush_commit (map fst fl) (sr_sink r),
       sr_sent := sr_sent r @ deliveries fl, sr_bumps := sr_bumps r @ cursor_bumps (map fst fl)\<rparr>)"
  using assms
proof (induction fl arbitrary: r)
  case Nil
  then show ?case by (simp add: flush_commit_def deliveries_def cursor_bumps_def)
next
  case (Cons x fl)
  obtain a st where x: "x = (a, st)" by (cases x)
  let ?es = "ls_Entries st" and ?k = "fa_key a"
  let ?r = "r\<lparr>sr_sink := commit_one a (sr_sink r), sr_sent := sr_sent r @ [(?k, ?es)],
      sr_bumps := sr_bumps r @ cursor_bumps [a]\<rparr>"
  have fl: "fa_entryLen a = length ?es" "?es \<noteq> []"
    "entry_bytes (received r ?k) < 2 ^ 63 \<longrightarrow> fa_bytes a = entry_bytes ?es"
    and dist: "distinct (map (fa_key \<circ> fst) (x # fl @ fl'))"
    using sink_ok_flight [OF Cons.prems] by (auto simp: x)
  obtain rest where rest: "key_entries (sr_sink r) ?k = ?es @ rest"
    using sink_ok_flight [OF Cons.prems] by (auto simp: x)
  have rv: "received ?r k = received r k" for k by (simp add: received_def)
  have sent: "sent_to_loki ?r k = sent_to_loki r k @ (if k = ?k then ?es else [])" for k
    by (simp add: sent_to_loki_def)
  have ent: "key_entries (sr_sink ?r) k = (if k = ?k then rest else key_entries (sr_sink r) k)" for k
    by (simp add: commit_one_effect fl(1) rest)
  have kb: "key_bytes (sr_sink ?r) k =
      (if k = ?k \<and> fa_bytes a > 0 then wrap64 (key_bytes (sr_sink r) k - fa_bytes a) else key_bytes (sr_sink r) k)" for k
    by (simp add: commit_one_effect(2))
  have bm: "bumped ?r k = bumped r k + (if k = ?k \<and> fa_bytes a > 0 then fa_bytes a else 0)" for k
    by (simp add: bumped_def cursor_bumps_def)
  have "sink_ok (fl @ fl') ?r"
  proof (rule sink_okI)
    show "is_map (sk_streams (sr_sink ?r))" using commit_one_effect(3) [OF sink_ok_map [OF Cons.prems]] by simp
    show "sent_to_loki ?r k @ key_entries (sr_sink ?r) k = received ?r k" for k
      using sink_ok_queue [OF Cons.prems, of k] unfolding rv sent ent by (cases "k = ?k") (simp_all add: rest)
    show "distinct (map (fa_key \<circ> fst) (fl @ fl'))" using dist by simp
  next
    fix k assume small: "entry_bytes (received ?r k) < 2 ^ 63"
    note old = sink_ok_bytes [OF Cons.prems small [unfolded rv]]
    have "entry_bytes rest \<le> entry_bytes (received r k)" if "k = ?k"
      using sink_ok_queue [OF Cons.prems, of k, symmetric] entry_bytes_nonneg that
      by (simp add: rest add_nonneg_nonneg)
    then have "k = ?k \<Longrightarrow> wrap64 (entry_bytes rest) = entry_bytes rest"
      using small entry_bytes_nonneg by (intro wrap64_small) (auto simp: rv)
    moreover have "k = ?k \<Longrightarrow> fa_bytes a = entry_bytes ?es \<and> 0 < fa_bytes a"
      using fl small entry_bytes_pos by (auto simp: rv)
    ultimately show "key_bytes (sr_sink ?r) k = entry_bytes (key_entries (sr_sink ?r) k) \<and>
        bumped ?r k = entry_bytes (sent_to_loki ?r k)"
      unfolding sent ent bm kb using old by (auto simp: rest)
  next
    fix b st' assume m: "(b, st') \<in> set (fl @ fl')"
    then have "fa_key b \<noteq> ?k" using dist by (force simp: x)
    moreover from m have "(b, st') \<in> set ((x # fl) @ fl')" by auto
    note sink_ok_flightD [OF Cons.prems this]
    ultimately show "fa_entryLen b = length (ls_Entries st') \<and> ls_Entries st' \<noteq> [] \<and>
        (\<exists>rest. key_entries (sr_sink ?r) (fa_key b) = ls_Entries st' @ rest) \<and>
        (entry_bytes (received ?r (fa_key b)) < 2 ^ 63 \<longrightarrow> fa_bytes b = entry_bytes (ls_Entries st'))"
      unfolding ent rv by simp
  qed
  from Cons.IH [OF this] show ?case
    by (cases "0 < fa_bytes a") (simp_all add: x flush_commit_def deliveries_def cursor_bumps_def)
qed

lemma sink_ok_any_flight: "sink_ok fl r \<Longrightarrow> sink_ok [] r"
  using sink_okI [of r "[]"] sink_ok_map sink_ok_queue sink_ok_bytes by fastforce

text \<open>A run in which flushes do not overlap.\<close>

definition run_ok :: "sink_run \<Rightarrow> bool" where
  "run_ok r \<longleftrightarrow> sr_flight r = [] \<and> sink_ok [] r \<or> (\<exists>fl. sr_flight r = [fl] \<and> sink_ok fl r)"

lemma sink_ok_flight_irrelevant: "sink_ok fl (r\<lparr>sr_flight := f\<rparr>) = sink_ok fl r"
  by (simp add: sink_ok_def sent_to_loki_def received_def bumped_def)

lemma run_ok_step:
  assumes "sink_step False env r r'" "run_ok r" "\<forall>xs. mset (se_order env xs) = mset xs"
  shows "run_ok r'"
  using assms
proof (induction rule: sink_step.induct)
  case (Append sid fid content now r full s)
  then show ?case using append_ok [OF _ Append(1)] by (auto simp: run_ok_def)
next
  case (Begin r streams atts)
  then have "sr_flight r = []" "sink_ok [] r" by (auto simp: run_ok_def)
  then show ?case using begin_ok [OF _ Begin.prems(2) Begin(2)] by (simp add: run_ok_def sink_ok_flight_irrelevant)
next
  case (Fail r f1 fl f2)
  then have "f1 = []" "f2 = []" "sink_ok fl r" by (auto simp: run_ok_def append_eq_Cons_conv)
  then show ?case using sink_ok_any_flight by (simp add: run_ok_def sink_ok_flight_irrelevant)
next
  case (Commit r f1 fl f2)
  then have f: "f1 = []" "f2 = []" and "sink_ok (fl @ []) r" by (auto simp: run_ok_def append_eq_Cons_conv)
  from commit_ok [OF this(3)] show ?case
    unfolding f run_ok_def by (auto simp: sink_ok_def sent_to_loki_def received_def bumped_def)
qed

text \<open>
  C32. As long as flushes do not overlap, however they interleave with arriving lines and whichever
  pushes fail, no log line is lost, duplicated or reordered: for every stream, what Loki
  accepted followed by what is buffered is exactly what was received, and what the cursors
  were advanced by is exactly the bytes of the accepted lines (while a stream's bytes stay within an
  \<open>int64\<close>).
\<close>

theorem flushes_deliver_once:
  assumes "(sink_step False env)\<^sup>*\<^sup>* sink_start r" "\<forall>xs. mset (se_order env xs) = mset xs"
  shows "sent_to_loki r k @ key_entries (sr_sink r) k = received r k \<and>
    (entry_bytes (received r k) < 2 ^ 63 \<longrightarrow>
       bumped r k = entry_bytes (sent_to_loki r k) \<and> key_bytes (sr_sink r) k = entry_bytes (key_entries (sr_sink r) k))"
proof -
  have "run_ok r" using assms(1)
  proof (induction rule: rtranclp_induct)
    case base
    then show ?case using sink_ok_start by (simp add: run_ok_def sink_start_def)
  next
    case (step r r')
    then show ?case using run_ok_step assms(2) by blast
  qed
  then obtain fl where "sink_ok fl r" by (auto simp: run_ok_def)
  from sink_ok_queue [OF this] sink_ok_bytes [OF this] show ?thesis by blast
qed

definition sink_env_example :: sink_env where
  "sink_env_example = \<lparr>se_cfg = \<lparr>kc_MonitorID = [], kc_FlushInterval = second, kc_MaxBatchLines = 500,
       kc_PushTimeout = second\<rparr>, se_loki = (\<lambda>n s. Inr ()), se_vm = True, se_resolver = (\<lambda>i f. Some ''/l''),
     se_sql = msg_env, se_order = (\<lambda>xs. xs), se_bump_order = (\<lambda>xs. xs), se_server_order = (\<lambda>xs. xs),
     se_lag_text = (\<lambda>d. ''0.000'')\<rparr>"

text \<open>A line for stream (1, web), and a run that appends the given lines.\<close>

definition web_line :: "string \<Rightarrow> sink \<Rightarrow> sink" where
  "web_line l s = snd (sink_append sink_env_example 1 ''web'' l 0 (int (length l) + 1) s)"

definition web_entry :: "string \<Rightarrow> log_entry" where
  "web_entry l = \<lparr>le_Time = 0, le_Line = l\<rparr>"

definition after_line :: "string \<Rightarrow> sink_run \<Rightarrow> sink_run" where
  "after_line l r = r\<lparr>sr_sink := web_line l (sr_sink r), sr_recv := sr_recv r @ [((1, ''web''), web_entry l)]\<rparr>"

lemma after_line_step: "sink_step ov sink_env_example r (after_line l r)"
  unfolding after_line_def web_line_def web_entry_def
  by (rule sink_step.Append) (rule prod.collapse [symmetric])

theorem flushes_deliver_once_witness:
  "\<exists>r. (sink_step False sink_env_example)\<^sup>*\<^sup>* sink_start r \<and> received r (1, ''web'') = [web_entry ''a''] \<and>
     sent_to_loki r (1, ''web'') @ key_entries (sr_sink r) (1, ''web'') = [web_entry ''a'']"
proof -
  have "(sink_step False sink_env_example)\<^sup>*\<^sup>* sink_start (after_line ''a'' sink_start)"
    using after_line_step by (rule r_into_rtranclp)
  moreover from this have "sent_to_loki (after_line ''a'' sink_start) (1, ''web'') @
      key_entries (sr_sink (after_line ''a'' sink_start)) (1, ''web'') = received (after_line ''a'' sink_start) (1, ''web'')"
    using flushes_deliver_once [of sink_env_example "after_line ''a'' sink_start" "(1, ''web'')"]
    by (simp add: sink_env_example_def)
  ultimately show ?thesis
    by (intro exI [of _ "after_line ''a'' sink_start"]) (simp add: after_line_def received_def sink_start_def)
qed

section \<open>Overlapping flushes\<close>

text \<open>The trace of two flushes that snapshot the same line, with another line arriving between
  their commits.\<close>

definition begun :: "sink_run \<Rightarrow> sink_run" where
  "begun r = r\<lparr>sr_flight := sr_flight r @
     [zip (snd (flush_snapshot sink_env_example (sr_sink r))) (fst (flush_snapshot sink_env_example (sr_sink r)))]\<rparr>"

definition committed :: "sink_run \<Rightarrow> sink_run" where
  "committed r = r\<lparr>sr_flight := tl (sr_flight r), sr_sink := flush_commit (map fst (hd (sr_flight r))) (sr_sink r),
     sr_sent := sr_sent r @ deliveries (hd (sr_flight r)),
     sr_bumps := sr_bumps r @ cursor_bumps (map fst (hd (sr_flight r)))\<rparr>"

lemma begun_step:
  "fst (flush_snapshot sink_env_example (sr_sink r)) \<noteq> [] \<Longrightarrow> sink_step True sink_env_example r (begun r)"
  unfolding begun_def by (rule sink_step.Begin) simp_all

lemma committed_step: "sr_flight r \<noteq> [] \<Longrightarrow> sink_step True sink_env_example r (committed r)"
  unfolding committed_def
  using sink_step.Commit [of r "[]" "hd (sr_flight r)" "tl (sr_flight r)"] by simp

definition raced :: sink_run where
  "raced = committed (after_line ''b'' (committed (begun (begun (after_line ''a'' sink_start)))))"


end
