(* ===== verification/Stream_Flow.thy ===== *)
theory Stream_Flow
  imports Stream_Sink
begin

text \<open>
  The streamed path as a whole: the lines of a session (\<open>internal/streamer/session.go\<close>) handed to
  the sink (\<open>sink.go\<close>), its flushes to Loki and the cursors in the store. One flush is
  described by what it does to the buffers, the counters and the cursors; the invariant
  \<open>tracked\<close>, indexed by the lines received so far, then carries any sequence of handler calls.
\<close>

section \<open>A flush moves the cursors\<close>

lemma bump_cursor_healthy:
  assumes "healthy db" "se_resolver env sid fid = Some path" "path \<noteq> []" "sid \<in> es_ID ` set (db_servers db)"
    "0 \<le> stored_offset get_log_cursor sid path db + delta" "stored_offset get_log_cursor sid path db + delta < 2 ^ 63"
  shows "healthy (bump_cursor env now ((sid, fid), delta) db) \<and>
    db_servers (bump_cursor env now ((sid, fid), delta) db) = db_servers db \<and>
    (\<forall>i p. stored_offset get_log_cursor i p (bump_cursor env now ((sid, fid), delta) db) =
       (if (i, p) = (sid, path) then stored_offset get_log_cursor sid path db + delta
        else stored_offset get_log_cursor i p db))"
proof -
  let ?off = "stored_offset get_log_cursor sid path db + delta"
  let ?c = "\<lparr>lc_ServerID = sid, lc_LogPath = path, lc_ByteOffset = ?off, lc_LastSeenAt = now\<rparr>"
  have w: "wrap64 ?off = ?off" using assms(5,6) by (rule wrap64_small)
  have bump: "bump_cursor env now ((sid, fid), delta) db = snd (upsert_log_cursor (se_sql env) now ?c db)"
    using w assms(2) by (auto simp: bump_cursor_def get_log_cursor_find [OF assms(1)] stored_offset_def
        is_not_found_def Let_def split: option.splits)
  have ok: "is_ok (fst (upsert_log_cursor (se_sql env) now ?c db))"
    using assms by (intro upsert_log_cursor_succeeds) auto
  show ?thesis
    unfolding bump using ent.put_inv [OF assms(1)] upsert_log_cursor_servers [OF assms(1)]
      ent.offset_put [OF assms(1) ok] by simp
qed

text \<open>The cursor a stream's bytes go to, and the bytes a list of bumps adds to one cursor.\<close>

definition stream_route :: "sink_env \<Rightarrow> stream_key \<Rightarrow> int \<times> string option" where
  "stream_route env k = (fst k, se_resolver env (fst k) (snd k))"

definition path_delta :: "sink_env \<Rightarrow> int \<times> string \<Rightarrow> (stream_key \<times> int) list \<Rightarrow> int" where
  "path_delta env c kds = sum_list (map snd (filter (\<lambda>x. stream_route env (fst x) = (fst c, Some (snd c))) kds))"

lemma path_delta_simps [simp]:
  "path_delta env c [] = 0"
  "path_delta env c (x # kds) = (if stream_route env (fst x) = (fst c, Some (snd c)) then snd x else 0) + path_delta env c kds"
  by (simp_all add: path_delta_def)

lemma path_delta_nonneg: "\<forall>x \<in> set kds. 0 \<le> snd x \<Longrightarrow> 0 \<le> path_delta env c kds"
  by (induction kds) auto

lemma path_delta_perm: "mset kds = mset kds' \<Longrightarrow> path_delta env c kds = path_delta env c kds'"
proof -
  assume "mset kds = mset kds'"
  then show ?thesis unfolding path_delta_def sum_mset_sum_list [symmetric] mset_map mset_filter by simp
qed

lemma path_delta_none: "\<forall>x \<in> set kds. stream_route env (fst x) \<noteq> (fst c, Some (snd c)) \<Longrightarrow> path_delta env c kds = 0"
  by (induction kds) auto

lemma path_delta_key:
  assumes "distinct (map fst kds)" "inj_on (stream_route env) K" "fst ` set kds \<subseteq> K" "k \<in> K"
    "se_resolver env (fst k) (snd k) = Some p"
  shows "path_delta env (fst k, p) kds = (case map_of kds k of None \<Rightarrow> 0 | Some d \<Rightarrow> d)"
  using assms(1,3)
proof (induction kds)
  case (Cons x kds)
  have r: "stream_route env k = (fst k, Some p)" using assms(5) by (simp add: stream_route_def)
  have "stream_route env (fst x) = stream_route env k \<longleftrightarrow> fst x = k"
    by (rule inj_on_eq_iff [OF assms(2) _ assms(4)]) (use Cons.prems(2) in simp)
  note head = this [unfolded r]
  have "path_delta env (fst k, p) kds = (case map_of kds k of None \<Rightarrow> 0 | Some d \<Rightarrow> d)"
    using Cons.prems by (intro Cons.IH) simp_all
  moreover have "map_of kds (fst x) = None" using Cons.prems(1) by (simp add: map_of_eq_None_iff)
  ultimately show ?case unfolding path_delta_simps fst_conv snd_conv head by (cases x) auto
qed simp

lemma bump_cursors_healthy:
  assumes "healthy db"
    "\<forall>(k, d) \<in> set kds. 0 \<le> d \<and> fst k \<in> es_ID ` set (db_servers db) \<and>
       (\<exists>path. se_resolver env (fst k) (snd k) = Some path \<and> path \<noteq> [] \<and>
          0 \<le> stored_offset get_log_cursor (fst k) path db \<and>
          stored_offset get_log_cursor (fst k) path db + path_delta env (fst k, path) kds < 2 ^ 63)"
  shows "healthy (fold (bump_cursor env now) kds db) \<and> db_servers (fold (bump_cursor env now) kds db) = db_servers db \<and>
    (\<forall>i p. stored_offset get_log_cursor i p (fold (bump_cursor env now) kds db) =
       stored_offset get_log_cursor i p db + path_delta env (i, p) kds)"
  using assms
proof (induction kds arbitrary: db)
  case Nil
  then show ?case by simp
next
  case (Cons kd kds)
  obtain sid fid d where kd: "kd = ((sid, fid), d)" by (metis surj_pair)
  obtain path where p: "se_resolver env sid fid = Some path" "path \<noteq> []" "sid \<in> es_ID ` set (db_servers db)" "0 \<le> d"
    "0 \<le> stored_offset get_log_cursor sid path db"
    "stored_offset get_log_cursor sid path db + path_delta env (sid, path) (kd # kds) < 2 ^ 63"
    using Cons.prems(2) by (auto simp: kd)
  have nn: "0 \<le> path_delta env c kds" for c using Cons.prems(2) by (intro path_delta_nonneg) auto
  let ?db = "bump_cursor env now kd db"
  have b: "healthy ?db" "db_servers ?db = db_servers db"
    "\<And>i q. stored_offset get_log_cursor i q ?db =
       (if (i, q) = (sid, path) then stored_offset get_log_cursor sid path db + d else stored_offset get_log_cursor i q db)"
    using bump_cursor_healthy [OF Cons.prems(1) p(1-3), of d now] p(1,4-) nn [of "(sid, path)"]
    by (simp_all add: kd stream_route_def)
  have off: "stored_offset get_log_cursor i q ?db + path_delta env (i, q) kds =
      stored_offset get_log_cursor i q db + path_delta env (i, q) (kd # kds)" for i q
    unfolding b(3) using p(1) by (auto simp: kd stream_route_def)
  have up: "0 \<le> stored_offset get_log_cursor i q db \<Longrightarrow> 0 \<le> stored_offset get_log_cursor i q ?db" for i q
    unfolding b(3) using p(4,5) by auto
  have "\<forall>(k', d') \<in> set kds. 0 \<le> d' \<and> fst k' \<in> es_ID ` set (db_servers ?db) \<and>
       (\<exists>q. se_resolver env (fst k') (snd k') = Some q \<and> q \<noteq> [] \<and> 0 \<le> stored_offset get_log_cursor (fst k') q ?db \<and>
          stored_offset get_log_cursor (fst k') q ?db + path_delta env (fst k', q) kds < 2 ^ 63)"
    unfolding off b(2) using Cons.prems(2) up by (fastforce simp del: path_delta_simps)
  from Cons.IH [OF b(1) this] off b(2) show ?case by simp
qed

section \<open>What a flush does\<close>

lemma commit_other: "k \<notin> fa_key ` set as \<Longrightarrow> key_entries (flush_commit as s) k = key_entries s k \<and>
    key_bytes (flush_commit as s) k = key_bytes s k"
  by (induction as arbitrary: s) (auto simp: flush_commit_def commit_one_effect)

lemma commit_mine:
  assumes "distinct (map fa_key as)" "a \<in> set as"
  shows "key_entries (flush_commit as s) (fa_key a) = drop (fa_entryLen a) (key_entries s (fa_key a)) \<and>
    key_bytes (flush_commit as s) (fa_key a) =
      (if fa_bytes a > 0 then wrap64 (key_bytes s (fa_key a) - fa_bytes a) else key_bytes s (fa_key a))"
  using assms
proof (induction as arbitrary: s)
  case (Cons x as)
  show ?case
  proof (cases "a = x")
    case True
    with Cons.prems commit_other [of "fa_key a" as "commit_one a s"] show ?thesis
      by (simp add: flush_commit_def commit_one_effect)
  next
    case False
    with Cons.prems have "a \<in> set as" "fa_key a \<noteq> fa_key x" by (auto simp: image_iff)
    with Cons show ?thesis by (simp add: flush_commit_def commit_one_effect)
  qed
qed simp

lemma commit_map: "is_map (sk_streams s) \<Longrightarrow> is_map (sk_streams (flush_commit as s))"
  by (induction as arbitrary: s) (simp_all add: flush_commit_def commit_one_effect(3))

lemma commit_streams: "is_map (sk_streams s) \<Longrightarrow> (k, b) \<in> set (sk_streams (flush_commit as s)) \<Longrightarrow>
    \<exists>b'. (k, b') \<in> set (sk_streams s) \<and> sb_labels b = sb_labels b'"
proof (induction as arbitrary: s)
  case (Cons a as)
  have "is_map (sk_streams (commit_one a s))" using Cons.prems(1) by (rule commit_one_effect(3))
  with Cons.IH [of "commit_one a s"] Cons.prems(2) obtain b' where
    b: "(k, b') \<in> set (sk_streams (commit_one a s))" "sb_labels b = sb_labels b'" by (auto simp: flush_commit_def)
  have "map_of (sk_streams (commit_one a s)) k = Some b'"
    using b(1) commit_one_effect(3) [OF Cons.prems(1), of a] by (simp add: is_map_def map_of_is_SomeI)
  then have "\<exists>b''. map_of (sk_streams s) k = Some b'' \<and> sb_labels b' = sb_labels b''"
    by (auto simp: commit_one_def split: option.splits if_splits)
  with b(2) show ?case by (metis map_of_SomeD)
qed (auto simp: flush_commit_def)

abbreviation flush_attempts :: "sink_env \<Rightarrow> sink \<Rightarrow> flush_attempt list" where
  "flush_attempts env s \<equiv> map (attempt_of s) (live_streams env s)"

lemma commit_drains:
  assumes "is_map (sk_streams s)" "\<forall>xs. mset (se_order env xs) = mset xs"
    "\<forall>k. key_entries s k \<noteq> [] \<longrightarrow> 0 < key_bytes s k"
  shows "key_entries (flush_commit (flush_attempts env s) s) k = [] \<and>
    key_bytes (flush_commit (flush_attempts env s) s) k = (if key_entries s k = [] then key_bytes s k else 0)"
proof (cases "key_entries s k = []")
  case True
  then have "k \<notin> fa_key ` set (flush_attempts env s)"
    using live_keys [OF assms(1,2)] by (force simp: image_image case_prod_unfold)
  with commit_other True show ?thesis by simp
next
  case False
  then have "k \<in> fst ` set (live_streams env s)" unfolding live_keys [OF assms(1,2)] by simp
  then obtain b where b: "(k, b) \<in> set (live_streams env s)" by force
  then have "attempt_of s (k, b) \<in> set (flush_attempts env s)" by (simp only: set_map imageI)
  moreover have "distinct (map fa_key (flush_attempts env s))"
    using live_streams_keys [OF assms(1,2)] by (simp add: comp_def case_prod_unfold)
  moreover have "key_entries s k = sb_entries b"
    using b by (intro key_entries_of [OF assms(1)]) (simp add: live_streams_set [OF assms(2)])
  moreover have "0 < key_bytes s k" using False assms(3) by blast
  ultimately show ?thesis
    using commit_mine [of "flush_attempts env s" "attempt_of s (k, b)" s] False by (simp add: wrap64_def)
qed

text \<open>The three ways a flush ends: nothing to push, a push that fails, a push that succeeds.\<close>

lemma flush_ends:
  assumes "sink_flush env now w = (err, w')"
  shows "live_streams env (sw_sink w) = [] \<and> err = None \<and> w' = w \<or>
    err \<noteq> None \<and> sw_sink w' = sw_sink w \<and> sw_db w' = sw_db w \<and>
      sw_pushes w' = sw_pushes w @ [(map stream_of (live_streams env (sw_sink w)), False)] \<or>
    err = None \<and> sw_sink w' = flush_commit (flush_attempts env (sw_sink w)) (sw_sink w) \<and>
      sw_db w' = fold (bump_cursor env now) (se_bump_order env (cursor_bumps (flush_attempts env (sw_sink w)))) (sw_db w) \<and>
      sw_pushes w' = sw_pushes w @ [(map stream_of (live_streams env (sw_sink w)), True)]"
proof -
  have lag: "sw_db (fold (\<lambda>i. emit_lag_metric env now i (f i)) is v) = sw_db v \<and>
      sw_sink (fold (\<lambda>i. emit_lag_metric env now i (f i)) is v) = sw_sink v \<and>
      sw_pushes (fold (\<lambda>i. emit_lag_metric env now i (f i)) is v) = sw_pushes v" for f "is" and v :: "'a sink_world"
    by (induction "is" arbitrary: v) (simp_all add: emit_lag_metric_def)
  show ?thesis
    using assms unfolding sink_flush_def Let_def snapshot_live by (auto simp: lag split: if_splits sum.splits)
qed

text \<open>The bytes a flush counts for the streams it takes.\<close>

definition live_bytes :: "sink_env \<Rightarrow> sink \<Rightarrow> (stream_key \<times> int) list" where
  "live_bytes env s = map (\<lambda>(k, b). (k, key_bytes s k)) (live_streams env s)"

lemma live_bytes_bumps:
  assumes "\<forall>xs. mset (se_order env xs) = mset xs" "is_map (sk_streams s)" "\<forall>k. key_entries s k \<noteq> [] \<longrightarrow> 0 < key_bytes s k"
  shows "cursor_bumps (flush_attempts env s) = live_bytes env s"
proof -
  have "0 < key_bytes s k" if "(k, b) \<in> set (live_streams env s)" for k b
  proof -
    have "key_entries s k \<noteq> []"
      using that key_entries_of [OF assms(2), of k b] by (simp add: live_streams_set [OF assms(1)])
    then show ?thesis using assms(3) by blast
  qed
  then have "filter (\<lambda>a. 0 < fa_bytes a) (flush_attempts env s) = flush_attempts env s"
    by (auto simp: filter_id_conv)
  then show ?thesis by (simp only: cursor_bumps_def) (simp add: live_bytes_def case_prod_unfold)
qed

lemma live_bytes_map:
  assumes "\<forall>xs. mset (se_order env xs) = mset xs" "is_map (sk_streams s)"
  shows "distinct (map fst (live_bytes env s))" "fst ` set (live_bytes env s) = {k. key_entries s k \<noteq> []}"
    "map_of (live_bytes env s) k = (if key_entries s k = [] then None else Some (key_bytes s k))"
    "set (live_bytes env s) = (\<lambda>k. (k, key_bytes s k)) ` {k. key_entries s k \<noteq> []}"
proof -
  have f: "map fst (live_bytes env s) = map fst (live_streams env s)"
    by (simp add: live_bytes_def comp_def case_prod_unfold)
  show d: "distinct (map fst (live_bytes env s))" using live_streams_keys [OF assms(2,1)] by (simp only: f)
  have "set (live_bytes env s) = (\<lambda>k. (k, key_bytes s k)) ` fst ` set (live_streams env s)"
    by (simp add: live_bytes_def image_image case_prod_unfold)
  then show s: "set (live_bytes env s) = (\<lambda>k. (k, key_bytes s k)) ` {k. key_entries s k \<noteq> []}"
    by (simp only: live_keys [OF assms(2,1)])
  then show "fst ` set (live_bytes env s) = {k. key_entries s k \<noteq> []}" by (simp add: image_image)
  then show "map_of (live_bytes env s) k = (if key_entries s k = [] then None else Some (key_bytes s k))"
    using d s by (auto simp: map_of_eq_None_iff)
qed

text \<open>A sink whose streams can be flushed: every one with lines has counted bytes, a path of its own on a
  known server, and a cursor that stays an \<open>int64\<close>.\<close>

definition flushable :: "sink_env \<Rightarrow> 'f sink_world \<Rightarrow> bool" where
  "flushable env w \<longleftrightarrow>
     is_map (sk_streams (sw_sink w)) \<and> inj_on (stream_route env) {k. key_entries (sw_sink w) k \<noteq> []} \<and>
     (\<forall>k. key_entries (sw_sink w) k \<noteq> [] \<longrightarrow>
        0 < key_bytes (sw_sink w) k \<and> fst k \<in> es_ID ` set (db_servers (sw_db w)) \<and>
        (\<exists>path. se_resolver env (fst k) (snd k) = Some path \<and> path \<noteq> [] \<and>
           0 \<le> stored_offset get_log_cursor (fst k) path (sw_db w) \<and>
           stored_offset get_log_cursor (fst k) path (sw_db w) + key_bytes (sw_sink w) k < 2 ^ 63))"

lemma flushable_key:
  assumes "flushable env w" "key_entries (sw_sink w) k \<noteq> []"
  obtains path where "0 < key_bytes (sw_sink w) k" "fst k \<in> es_ID ` set (db_servers (sw_db w))"
    "se_resolver env (fst k) (snd k) = Some path" "path \<noteq> []" "0 \<le> stored_offset get_log_cursor (fst k) path (sw_db w)"
    "stored_offset get_log_cursor (fst k) path (sw_db w) + key_bytes (sw_sink w) k < 2 ^ 63"
  using assms unfolding flushable_def by blast

lemma flush_effect:
  assumes "healthy (sw_db w)" "flushable env w" "\<forall>xs. mset (se_order env xs) = mset xs"
    "\<forall>xs. mset (se_bump_order env xs) = mset xs" "sink_flush env now w = (None, w')"
  shows "healthy (sw_db w')" "db_servers (sw_db w') = db_servers (sw_db w)" "is_map (sk_streams (sw_sink w'))"
    "key_entries (sw_sink w') k = []"
    "key_bytes (sw_sink w') k = (if key_entries (sw_sink w) k = [] then key_bytes (sw_sink w) k else 0)"
    "stored_offset get_log_cursor i p (sw_db w') =
       stored_offset get_log_cursor i p (sw_db w) + path_delta env (i, p) (live_bytes env (sw_sink w))"
proof -
  let ?s = "sw_sink w"
  have im: "is_map (sk_streams ?s)" and inj: "inj_on (stream_route env) {k. key_entries ?s k \<noteq> []}"
    and pos: "\<forall>k. key_entries ?s k \<noteq> [] \<longrightarrow> 0 < key_bytes ?s k"
    using assms(2) unfolding flushable_def by blast+
  note lb = live_bytes_map [OF assms(3) im]
  let ?kds = "se_bump_order env (live_bytes env ?s)"
  have perm: "mset ?kds = mset (live_bytes env ?s)" using assms(4) by blast
  have each: "0 \<le> key_bytes ?s k \<and> fst k \<in> es_ID ` set (db_servers (sw_db w)) \<and>
       (\<exists>path. se_resolver env (fst k) (snd k) = Some path \<and> path \<noteq> [] \<and>
          0 \<le> stored_offset get_log_cursor (fst k) path (sw_db w) \<and>
          stored_offset get_log_cursor (fst k) path (sw_db w) + path_delta env (fst k, path) (live_bytes env ?s) < 2 ^ 63)"
    if n: "key_entries ?s k \<noteq> []" for k
  proof -
    obtain path where p: "0 < key_bytes ?s k" "fst k \<in> es_ID ` set (db_servers (sw_db w))"
      "se_resolver env (fst k) (snd k) = Some path" "path \<noteq> []" "0 \<le> stored_offset get_log_cursor (fst k) path (sw_db w)"
      "stored_offset get_log_cursor (fst k) path (sw_db w) + key_bytes ?s k < 2 ^ 63"
      by (rule flushable_key [OF assms(2) n])
    have "path_delta env (fst k, path) (live_bytes env ?s) = key_bytes ?s k"
      using path_delta_key [OF lb(1) inj _ _ p(3)] n lb(2,3) by simp
    with p show ?thesis by auto
  qed
  have "\<forall>(k, d) \<in> set ?kds. 0 \<le> d \<and> fst k \<in> es_ID ` set (db_servers (sw_db w)) \<and>
       (\<exists>path. se_resolver env (fst k) (snd k) = Some path \<and> path \<noteq> [] \<and>
          0 \<le> stored_offset get_log_cursor (fst k) path (sw_db w) \<and>
          stored_offset get_log_cursor (fst k) path (sw_db w) + path_delta env (fst k, path) ?kds < 2 ^ 63)"
    unfolding mset_eq_setD [OF perm] lb(4) path_delta_perm [OF perm] ball_simps prod.case mem_Collect_eq
    using each by blast
  note bump = bump_cursors_healthy [OF assms(1) this, of now, unfolded path_delta_perm [OF perm]]
  note drain = commit_drains [OF im assms(3) pos]
  have empty: "live_bytes env ?s = [] \<and> key_entries ?s k = []" if "live_streams env ?s = []" for k
    using live_keys [OF im assms(3)] that by (auto simp: live_bytes_def simp del: split_paired_All)
  from flush_ends [OF assms(5)] consider "live_streams env ?s = []" "w' = w"
    | "sw_sink w' = flush_commit (flush_attempts env ?s) ?s" "sw_db w' = fold (bump_cursor env now) ?kds (sw_db w)"
    unfolding live_bytes_bumps [OF assms(3) im pos] by blast
  note ends = this
  show "healthy (sw_db w')" "db_servers (sw_db w') = db_servers (sw_db w)"
    by (rule ends; use assms(1) bump in simp)+
  show "is_map (sk_streams (sw_sink w'))" by (rule ends) (use im commit_map [OF im] in simp_all)
  show "key_entries (sw_sink w') k = []"
    "key_bytes (sw_sink w') k = (if key_entries (sw_sink w) k = [] then key_bytes (sw_sink w) k else 0)"
    by (rule ends; use empty drain in simp)+
  show "stored_offset get_log_cursor i p (sw_db w') =
       stored_offset get_log_cursor i p (sw_db w) + path_delta env (i, p) (live_bytes env (sw_sink w))"
    by (rule ends) (use empty bump in simp_all)
qed

lemma flush_fails:
  assumes "sink_flush env now w = (Some e, w')"
  shows "sw_sink w' = sw_sink w" "sw_db w' = sw_db w"
  using flush_ends [OF assms] by auto

text \<open>
  One flush on a healthy store. When the push fails it reports the failure and keeps every
  buffer, counter and cursor for the next attempt. When it succeeds, every buffer is
  empty, every counter of a flushed stream is zero, and each flushed stream's cursor has moved
  forward by exactly the bytes that were buffered for it.
\<close>

lemma flush_moves_cursors:
  assumes "healthy (sw_db w)" "flushable env w" "\<forall>xs. mset (se_order env xs) = mset xs"
    "\<forall>xs. mset (se_bump_order env xs) = mset xs"
  shows "case sink_flush env now w of (err, w') \<Rightarrow>
    (case err of
       Some e \<Rightarrow> sw_sink w' = sw_sink w \<and> sw_db w' = sw_db w
     | None \<Rightarrow> healthy (sw_db w') \<and> (\<forall>k. key_entries (sw_sink w') k = []) \<and>
         (\<forall>k. key_entries (sw_sink w) k \<noteq> [] \<longrightarrow>
            key_bytes (sw_sink w') k = 0 \<and>
            stored_offset get_log_cursor (fst k) (the (se_resolver env (fst k) (snd k))) (sw_db w') =
              stored_offset get_log_cursor (fst k) (the (se_resolver env (fst k) (snd k))) (sw_db w) +
              key_bytes (sw_sink w) k))"
proof -
  obtain err w' where f: "sink_flush env now w = (err, w')" by (metis surj_pair)
  show ?thesis
  proof (cases err)
    case None
    note eff = flush_effect [OF assms f [unfolded None]]
    have im: "is_map (sk_streams (sw_sink w))" and inj: "inj_on (stream_route env) {k. key_entries (sw_sink w) k \<noteq> []}"
      using assms(2) unfolding flushable_def by blast+
    have "stored_offset get_log_cursor (fst k) (the (se_resolver env (fst k) (snd k))) (sw_db w') =
        stored_offset get_log_cursor (fst k) (the (se_resolver env (fst k) (snd k))) (sw_db w) + key_bytes (sw_sink w) k"
      if n: "key_entries (sw_sink w) k \<noteq> []" for k
    proof -
      obtain path where p: "se_resolver env (fst k) (snd k) = Some path" by (rule flushable_key [OF assms(2) n])
      show ?thesis
        using path_delta_key [OF live_bytes_map(1) [OF assms(3) im] inj _ _ p] n live_bytes_map(2,3) [OF assms(3) im]
        by (simp add: eff(6) p)
    qed
    with eff(1,4,5) show ?thesis by (simp add: f None del: split_paired_All)
  next
    case (Some e)
    with flush_fails [OF f [unfolded Some]] show ?thesis by (simp add: f)
  qed
qed

definition sink_world_example :: "unit sink_world" where
  "sink_world_example = \<lparr>sw_sink = web_line ''a'' new_sink, sw_db = db1, sw_pushes = [], sw_metrics = []\<rparr>"

lemma db1_healthy_now: "healthy db1" "es_ID ` set (db_servers db1) = {1}" "stored_offset get_log_cursor i p db1 = 0"
proof -
  show h: "healthy db1" using db1_healthy by (simp add: healthy_def)
  show "es_ID ` set (db_servers db1) = {1}" by (simp add: db1_eq)
  show "stored_offset get_log_cursor i p db1 = 0"
    using get_log_cursor_find [OF h, of i p] by (simp add: stored_offset_def db1_eq empty_db_def)
qed

lemma flush_moves_cursors_witness:
  "fst (sink_flush sink_env_example 0 sink_world_example) = None \<and>
   stored_offset get_log_cursor 1 ''/l'' (sw_db (snd (sink_flush sink_env_example 0 sink_world_example))) = 2"
proof -
  let ?w = "sink_world_example" and ?env = "sink_env_example"
  have ent: "key_entries (sw_sink ?w) k = (if k = (1, ''web'') then [web_entry ''a''] else [])"
    "key_bytes (sw_sink ?w) k = (if k = (1, ''web'') then 2 else 0)" for k
    by (auto simp: sink_world_example_def web_line_def sink_append_def new_sink_def sink_env_example_def
        Let_def key_bytes_def key_entries_def web_entry_def wrap64_def)
  have db: "sw_db ?w = db1" "se_resolver ?env i f = Some ''/l''" for i f
    by (simp_all add: sink_world_example_def sink_env_example_def)
  have im: "is_map (sk_streams (sw_sink ?w))"
    by (simp add: sink_world_example_def web_line_def sink_append_def new_sink_def Let_def is_map_def)
  have fl: "flushable ?env ?w"
    unfolding flushable_def ent db db1_healthy_now(2,3) using im by (simp add: web_entry_def inj_on_def)
  have ok: "fst (sink_flush ?env 0 ?w) = None"
    by (simp add: sink_flush_def sink_env_example_def sink_world_example_def flush_snapshot_def web_line_def
        sink_append_def new_sink_def Let_def)
  then obtain w' where w': "sink_flush ?env 0 ?w = (None, w')" by (metis prod.collapse)
  have "healthy (sw_db ?w)" using db1_healthy_now(1) by (simp only: db)
  from flush_moves_cursors [OF this fl, of 0]
  have "\<forall>k. key_entries (sw_sink ?w) k \<noteq> [] \<longrightarrow>
      stored_offset get_log_cursor (fst k) ''/l'' (sw_db w') = key_bytes (sw_sink ?w) k"
    unfolding w' db db1_healthy_now(3) by (simp add: sink_env_example_def)
  from spec [OF this, of "(1, ''web'')"] show ?thesis unfolding w' ent by simp
qed

section \<open>Following the lines through the sink\<close>

text \<open>What Loki accepted for a stream, told by its labels, and the cursor the stream's bytes go to.\<close>

definition accepted :: "sink_env \<Rightarrow> 'f sink_world \<Rightarrow> stream_key \<Rightarrow> log_entry list" where
  "accepted env w k = concat (map ls_Entries (filter (\<lambda>st. ls_Labels st = labels_for env (fst k) (snd k))
     (concat (map fst (filter snd (sw_pushes w))))))"

definition cursor_of :: "sink_env \<Rightarrow> 'f db \<Rightarrow> stream_key \<Rightarrow> int" where
  "cursor_of env db k = stored_offset get_log_cursor (fst k) (the (se_resolver env (fst k) (snd k))) db"

definition routed :: "sink_env \<Rightarrow> stream_key set \<Rightarrow> bool" where
  "routed env K \<longleftrightarrow> inj_on (stream_route env) K \<and>
     (\<forall>k \<in> K. is_int64 (fst k) \<and> (\<exists>path. se_resolver env (fst k) (snd k) = Some path \<and> path \<noteq> []))"

text \<open>The state of the sink and the store after the lines \<open>recv\<close>, from cursors at \<open>start\<close>.\<close>

definition tracked ::
  "sink_env \<Rightarrow> stream_key set \<Rightarrow> (stream_key \<Rightarrow> int) \<Rightarrow> (stream_key \<Rightarrow> log_entry list) \<Rightarrow> 'f sink_world \<Rightarrow> bool" where
  "tracked env K start recv w \<longleftrightarrow>
     healthy (sw_db w) \<and> is_map (sk_streams (sw_sink w)) \<and> fst ` K \<subseteq> es_ID ` set (db_servers (sw_db w)) \<and>
     (\<forall>(k, b) \<in> set (sk_streams (sw_sink w)). k \<in> K \<and> sb_labels b = labels_for env (fst k) (snd k)) \<and>
     (\<forall>k \<in> K. accepted env w k @ key_entries (sw_sink w) k = recv k \<and>
        key_bytes (sw_sink w) k = entry_bytes (key_entries (sw_sink w) k) \<and>
        cursor_of env (sw_db w) k = start k + entry_bytes (accepted env w k))"

definition fits :: "stream_key set \<Rightarrow> (stream_key \<Rightarrow> int) \<Rightarrow> (stream_key \<Rightarrow> log_entry list) \<Rightarrow> bool" where
  "fits K start recv \<longleftrightarrow> (\<forall>k \<in> K. 0 \<le> start k \<and> start k + entry_bytes (recv k) < 2 ^ 63)"

lemma trackedD:
  assumes "tracked env K start recv w"
  shows "healthy (sw_db w)" "is_map (sk_streams (sw_sink w))" "fst ` K \<subseteq> es_ID ` set (db_servers (sw_db w))"
    "(k, b) \<in> set (sk_streams (sw_sink w)) \<Longrightarrow> k \<in> K \<and> sb_labels b = labels_for env (fst k) (snd k)"
    "k \<in> K \<Longrightarrow> accepted env w k @ key_entries (sw_sink w) k = recv k"
    "k \<in> K \<Longrightarrow> key_bytes (sw_sink w) k = entry_bytes (key_entries (sw_sink w) k)"
    "k \<in> K \<Longrightarrow> cursor_of env (sw_db w) k = start k + entry_bytes (accepted env w k)"
  using assms unfolding tracked_def by blast+

lemma tracked_entries:
  assumes "tracked env K start recv w" "k \<in> K"
  shows "entry_bytes (accepted env w k) + entry_bytes (key_entries (sw_sink w) k) = entry_bytes (recv k)"
  using trackedD(5) [OF assms, symmetric] by simp

lemma tracked_inside: "tracked env K start recv w \<Longrightarrow> key_entries (sw_sink w) k \<noteq> [] \<Longrightarrow> k \<in> K"
  using key_entries_live [of "sw_sink w" k] trackedD(4) by metis

lemma labels_for_inj:
  "is_int64 sid \<Longrightarrow> is_int64 sid' \<Longrightarrow> labels_for env sid fid = labels_for env sid' fid' \<longleftrightarrow> sid = sid' \<and> fid = fid'"
  by (auto simp: labels_for_def server_id_label_def format_int_inj)

section \<open>Each operation keeps it\<close>

lemma append_labels:
  assumes "sink_append env sid fid content now n s = (full, s')" "(k, b) \<in> set (sk_streams s')" "is_map (sk_streams s)"
    "\<And>k b. (k, b) \<in> set (sk_streams s) \<Longrightarrow> k \<in> K \<and> sb_labels b = labels_for env (fst k) (snd k)" "(sid, fid) \<in> K"
  shows "k \<in> K \<and> sb_labels b = labels_for env (fst k) (snd k)"
proof -
  obtain buf where buf: "map_of (sk_streams s') = (map_of (sk_streams s))((sid, fid) \<mapsto> buf)"
    "sb_labels buf = labels_for env sid fid"
    using assms(1,4) by (auto simp: sink_append_def Let_def split: option.splits dest: map_of_SomeD)
  have "is_map (sk_streams s')" using sink_append_effect(3) [OF assms(1,3)] .
  then have "map_of (sk_streams s') k = Some b" using assms(2) by (simp add: is_map_def map_of_is_SomeI)
  note found = this
  show ?thesis
  proof (cases "k = (sid, fid)")
    case True
    then show ?thesis using buf found assms(5) by simp
  next
    case False
    then have "(k, b) \<in> set (sk_streams s)" using buf found by (simp add: map_of_SomeD)
    then show ?thesis by (rule assms(4))
  qed
qed

lemma tracked_append:
  assumes "tracked env K start recv w" "(sid, fid) \<in> K"
    "sink_append env sid fid content now (int (length content) + 1) (sw_sink w) = (full, s)"
    "fits K start (recv((sid, fid) := recv (sid, fid) @ [\<lparr>le_Time = now, le_Line = content\<rparr>]))"
  shows "tracked env K start (recv((sid, fid) := recv (sid, fid) @ [\<lparr>le_Time = now, le_Line = content\<rparr>]))
    (w\<lparr>sw_sink := s\<rparr>)"
proof -
  note tr = trackedD [OF assms(1)]
  note eff = sink_append_effect [OF assms(3)]
  have acc: "accepted env (w\<lparr>sw_sink := s\<rparr>) k = accepted env w k" for k by (simp add: accepted_def)
  have "key_bytes s k = entry_bytes (key_entries s k)" if k: "k \<in> K" for k
  proof (cases "k = (sid, fid)")
    case True
    have "entry_bytes (key_entries s k) + start k < 2 ^ 63" "0 \<le> start k"
      using assms(4) assms(2) tracked_entries [OF assms(1) k] entry_bytes_nonneg [of "accepted env w k"]
      by (auto simp: fits_def eff(1) True)
    then have "wrap64 (entry_bytes (key_entries s k)) = entry_bytes (key_entries s k)"
      using entry_bytes_nonneg by (intro wrap64_small) auto
    then show ?thesis using tr(6) [OF k] by (simp add: eff(1,2) True add.assoc)
  next
    case False
    then show ?thesis using tr(6) [OF k] by (simp add: eff(1,2))
  qed
  moreover have "\<forall>(k, b) \<in> set (sk_streams s). k \<in> K \<and> sb_labels b = labels_for env (fst k) (snd k)"
    using append_labels [OF assms(3) _ tr(2) tr(4) assms(2)] by blast
  moreover have "accepted env w k @ key_entries s k =
      (recv((sid, fid) := recv (sid, fid) @ [\<lparr>le_Time = now, le_Line = content\<rparr>])) k" if "k \<in> K" for k
    using tr(5) [OF that] by (auto simp: eff(1))
  ultimately show ?thesis
    unfolding tracked_def using tr(1,3,7) eff(3) [OF tr(2)] by (simp add: acc cong: ball_cong)
qed

lemma entries_of_key:
  "distinct (map fst xs) \<Longrightarrow>
     concat (map (\<lambda>x. sb_entries (snd x)) (filter (\<lambda>x. fst x = k) xs)) = (case map_of xs k of None \<Rightarrow> [] | Some b \<Rightarrow> sb_entries b)"
proof (induction xs)
  case (Cons x xs)
  have "k \<notin> fst ` set xs \<Longrightarrow> filter (\<lambda>x. fst x = k) xs = [] \<and> map_of xs k = None"
    by (auto simp: filter_empty_conv map_of_eq_None_iff)
  with Cons show ?case by (cases x) auto
qed simp

lemma live_entries:
  assumes "is_map (sk_streams s)" "\<forall>xs. mset (se_order env xs) = mset xs"
  shows "(case map_of (live_streams env s) k of None \<Rightarrow> [] | Some b \<Rightarrow> sb_entries b) = key_entries s k"
proof (cases "map_of (live_streams env s) k")
  case None
  then have "k \<notin> {k. key_entries s k \<noteq> []}" unfolding live_keys [OF assms, symmetric] by (simp add: map_of_eq_None_iff)
  then show ?thesis using None by simp
next
  case (Some b)
  then have "(k, b) \<in> set (sk_streams s)" using map_of_SomeD [OF Some] by (simp add: live_streams_set [OF assms(2)])
  then show ?thesis using key_entries_of [OF assms(1)] Some by simp
qed

lemma accepted_push:
  assumes "tracked env K start recv w" "routed env K" "\<forall>xs. mset (se_order env xs) = mset xs" "k \<in> K"
    "sw_pushes w' = sw_pushes w @ [(map stream_of (live_streams env (sw_sink w)), ok)]"
  shows "accepted env w' k = accepted env w k @ (if ok then key_entries (sw_sink w) k else [])"
proof -
  note tr = trackedD [OF assms(1)]
  let ?live = "live_streams env (sw_sink w)"
  have mine: "sb_labels (snd x) = labels_for env (fst k) (snd k) \<longleftrightarrow> fst x = k" if "x \<in> set ?live" for x
  proof -
    have "fst x \<in> K" "sb_labels (snd x) = labels_for env (fst (fst x)) (snd (fst x))"
      using that tr(4) [of "fst x" "snd x"] by (auto simp: live_streams_set [OF assms(3)])
    then show ?thesis
      using assms(2,4) labels_for_inj [of "fst (fst x)" "fst k" env "snd (fst x)" "snd k"]
      by (auto simp: routed_def prod_eq_iff)
  qed
  have "filter (\<lambda>st. ls_Labels st = labels_for env (fst k) (snd k)) (map stream_of ?live) =
      map stream_of (filter (\<lambda>x. fst x = k) ?live)"
    unfolding filter_map comp_def case_prod_unfold log_stream.simps
    by (rule arg_cong [where f = "map _"], rule filter_cong [OF refl]) (rule mine)
  moreover have "concat (map ls_Entries (map stream_of (filter (\<lambda>x. fst x = k) ?live))) = key_entries (sw_sink w) k"
    using entries_of_key [OF live_streams_keys [OF tr(2) assms(3)], of k] live_entries [OF tr(2) assms(3), of k]
    by (simp add: comp_def case_prod_unfold)
  ultimately show ?thesis by (simp add: accepted_def assms(5))
qed

lemma tracked_flushable:
  assumes "tracked env K start recv w" "routed env K" "fits K start recv"
  shows "flushable env w"
proof -
  note tr = trackedD [OF assms(1)]
  have sub: "{k. key_entries (sw_sink w) k \<noteq> []} \<subseteq> K" using tracked_inside [OF assms(1)] by blast
  have "0 < key_bytes (sw_sink w) k \<and> fst k \<in> es_ID ` set (db_servers (sw_db w)) \<and>
        (\<exists>path. se_resolver env (fst k) (snd k) = Some path \<and> path \<noteq> [] \<and>
           0 \<le> stored_offset get_log_cursor (fst k) path (sw_db w) \<and>
           stored_offset get_log_cursor (fst k) path (sw_db w) + key_bytes (sw_sink w) k < 2 ^ 63)"
    if n: "key_entries (sw_sink w) k \<noteq> []" for k
  proof -
    have k: "k \<in> K" by (rule tracked_inside [OF assms(1) n])
    obtain path where p: "se_resolver env (fst k) (snd k) = Some path" "path \<noteq> []"
      using assms(2) k by (auto simp: routed_def)
    have "stored_offset get_log_cursor (fst k) path (sw_db w) = start k + entry_bytes (accepted env w k)"
      using tr(7) [OF k] p by (simp add: cursor_of_def)
    moreover have "0 \<le> start k" "start k + entry_bytes (recv k) < 2 ^ 63" using assms(3) k by (auto simp: fits_def)
    moreover have "fst k \<in> es_ID ` set (db_servers (sw_db w))" using tr(3) k by blast
    ultimately show ?thesis
      using p tr(6) [OF k] entry_bytes_pos [OF n] entry_bytes_nonneg [of "accepted env w k"] tracked_entries [OF assms(1) k]
      by simp
  qed
  then show ?thesis
    unfolding flushable_def using tr(2) inj_on_subset [OF _ sub] assms(2) unfolding routed_def by blast
qed

text \<open>A flush, whether its push fails or not, keeps the account; when it reports no failure nothing is left.\<close>

lemma tracked_flush:
  assumes "tracked env K start recv w" "routed env K" "fits K start recv" "\<forall>xs. mset (se_order env xs) = mset xs"
    "\<forall>xs. mset (se_bump_order env xs) = mset xs" "sink_flush env now w = (err, w')"
  shows "tracked env K start recv w'" "err = None \<Longrightarrow> key_entries (sw_sink w') k = []"
proof -
  note tr = trackedD [OF assms(1)] and fl = tracked_flushable [OF assms(1-3)]
  have im: "is_map (sk_streams (sw_sink w))" and inj: "inj_on (stream_route env) K" 
    using tr(2) assms(2) by (auto simp: routed_def)
  note lb = live_bytes_map [OF assms(4) im]
  have sub: "fst ` set (live_bytes env (sw_sink w)) \<subseteq> K" unfolding lb(2) using tracked_inside [OF assms(1)] by blast
  show "err = None \<Longrightarrow> key_entries (sw_sink w') k = []"
    using flush_effect(4) [OF tr(1) fl assms(4,5)] assms(6) by simp
  from flush_ends [OF assms(6)] consider "w' = w"
    | "sw_sink w' = sw_sink w" "sw_db w' = sw_db w" "sw_pushes w' = sw_pushes w @ [(map stream_of (live_streams env (sw_sink w)), False)]"
    | "err = None" "sw_pushes w' = sw_pushes w @ [(map stream_of (live_streams env (sw_sink w)), True)]"
      "sw_sink w' = flush_commit (flush_attempts env (sw_sink w)) (sw_sink w)"
    by blast
  then show "tracked env K start recv w'"
  proof cases
    case 1
    then show ?thesis using assms(1) by simp
  next
    case 2
    have "\<forall>k \<in> K. accepted env w' k = accepted env w k"
      using accepted_push [OF assms(1,2,4) _ 2(3)] by simp
    with assms(1) 2(1,2) show ?thesis unfolding tracked_def by (simp cong: ball_cong)
  next
    case 3
    note eff = flush_effect [OF tr(1) fl assms(4,5) assms(6) [unfolded 3(1)]]
    have acc: "accepted env w' k = recv k" if "k \<in> K" for k
      using accepted_push [OF assms(1,2,4) that 3(2)] tr(5) [OF that] by simp
    have cur: "cursor_of env (sw_db w') k = start k + entry_bytes (recv k)" if k: "k \<in> K" for k
    proof -
      obtain path where p: "se_resolver env (fst k) (snd k) = Some path" using assms(2) k by (auto simp: routed_def)
      show ?thesis
        using path_delta_key [OF lb(1) inj sub k p] lb(3) [of k] tr(6,7) [OF k] tracked_entries [OF assms(1) k]
        by (cases "key_entries (sw_sink w) k = []") (simp_all add: cursor_of_def p eff(6))
    qed
    have zero: "key_bytes (sw_sink w') k = 0" if "k \<in> K" for k using tr(6) [OF that] by (simp add: eff(5))
    have "\<forall>(k, b) \<in> set (sk_streams (sw_sink w')). k \<in> K \<and> sb_labels b = labels_for env (fst k) (snd k)"
      unfolding 3(3) using commit_streams [OF im] tr(4) by fastforce
    with eff(1-4) tr(3) acc cur zero show ?thesis unfolding tracked_def by (simp cong: ball_cong)
  qed
qed

section \<open>The calls of sessions\<close>

text \<open>The entries a sequence of handler calls carries for a stream, and the calls made in turn.\<close>

fun call_entries :: "stream_key \<Rightarrow> handler_call \<Rightarrow> log_entry list" where
  "call_entries k (OnLine sid fid content t n) = (if (sid, fid) = k then [\<lparr>le_Time = t, le_Line = content\<rparr>] else [])"
| "call_entries k (OnVersion sid v) = []"
| "call_entries k (OnFileError sid fid token) = []"
| "call_entries k (OnSessionState sid connected reason) = []"

definition calls_entries :: "handler_call list \<Rightarrow> stream_key \<Rightarrow> log_entry list" where
  "calls_entries calls k = concat (map (call_entries k) calls)"

fun counted :: "stream_key set \<Rightarrow> handler_call \<Rightarrow> bool" where
  "counted K (OnLine sid fid content t n) \<longleftrightarrow> (sid, fid) \<in> K \<and> n = int (length content) + 1"
| "counted K (OnVersion sid v) \<longleftrightarrow> True"
| "counted K (OnFileError sid fid token) \<longleftrightarrow> True"
| "counted K (OnSessionState sid connected reason) \<longleftrightarrow> True"

fun handle_calls :: "sink_env \<Rightarrow> (nat \<Rightarrow> time) \<Rightarrow> handler_call list \<Rightarrow> 'f sink_world \<Rightarrow> 'f sink_world" where
  "handle_calls env clock [] w = w"
| "handle_calls env clock (c # cs) w = handle_calls env (\<lambda>i. clock (Suc i)) cs (sink_handle env (clock 0) c w)"

lemma calls_entries_simps [simp]:
  "calls_entries [] k = []" "calls_entries (c # cs) k = call_entries k c @ calls_entries cs k"
  "calls_entries (cs @ ds) k = calls_entries cs k @ calls_entries ds k"
  by (simp_all add: calls_entries_def)

lemma tracked_frame:
  "sk_streams (sw_sink w') = sk_streams (sw_sink w) \<Longrightarrow> sk_bytes (sw_sink w') = sk_bytes (sw_sink w) \<Longrightarrow>
     sw_db w' = sw_db w \<Longrightarrow> sw_pushes w' = sw_pushes w \<Longrightarrow> tracked env K start recv w' = tracked env K start recv w"
  by (simp add: tracked_def accepted_def key_entries_def key_bytes_def)

lemma fits_less: "fits K start (\<lambda>k. recv k @ rest k) \<Longrightarrow> fits K start recv"
  unfolding fits_def entry_bytes_simps using entry_bytes_nonneg [of "rest _"] by (meson add_increasing2 le_less_trans add_left_mono order_refl)

lemma tracked_handle:
  assumes "tracked env K start recv w" "routed env K" "fits K start (\<lambda>k. recv k @ call_entries k c)" "counted K c"
    "\<forall>xs. mset (se_order env xs) = mset xs" "\<forall>xs. mset (se_bump_order env xs) = mset xs"
  shows "tracked env K start (\<lambda>k. recv k @ call_entries k c) (sink_handle env now c w)"
proof (cases c)
  case (OnLine sid fid content t n)
  obtain full s where ap: "sink_append env sid fid content t n (sw_sink w) = (full, s)" by (metis surj_pair)
  have more: "(\<lambda>k. recv k @ call_entries k c) =
      recv((sid, fid) := recv (sid, fid) @ [\<lparr>le_Time = t, le_Line = content\<rparr>])"
    by (auto simp: OnLine)
  have k: "(sid, fid) \<in> K" and n: "n = int (length content) + 1" using assms(4) by (simp_all add: OnLine)
  note tr = tracked_append [OF assms(1) k ap [unfolded n] assms(3) [unfolded more], folded more]
  show ?thesis
    using tr tracked_flush(1) [OF tr assms(2,3,5,6)]
    by (cases "sink_flush env now (w\<lparr>sw_sink := s\<rparr>)") (simp add: OnLine sink_on_line_def ap Let_def)
next
  case (OnSessionState sid connected reason)
  have "tracked env K start recv (sink_on_session_state env now sid connected w) = tracked env K start recv w"
    by (rule tracked_frame) (simp_all add: sink_on_session_state_def emit_health_metric_def Let_def)
  then show ?thesis using assms(1) by (simp add: OnSessionState)
qed (use assms(1) in simp_all)

lemma tracked_calls:
  assumes "tracked env K start recv w" "routed env K" "fits K start (\<lambda>k. recv k @ calls_entries cs k)" "\<forall>c \<in> set cs. counted K c"
    "\<forall>xs. mset (se_order env xs) = mset xs" "\<forall>xs. mset (se_bump_order env xs) = mset xs"
  shows "tracked env K start (\<lambda>k. recv k @ calls_entries cs k) (handle_calls env clock cs w)"
  using assms(1,3,4)
proof (induction cs arbitrary: recv w clock)
  case (Cons c cs)
  have "fits K start (\<lambda>k. recv k @ call_entries k c)"
    using fits_less [of K start "\<lambda>k. recv k @ call_entries k c" "calls_entries cs"] Cons.prems(2) by simp
  then have "tracked env K start (\<lambda>k. recv k @ call_entries k c) (sink_handle env (clock 0) c w)"
    using tracked_handle [OF Cons.prems(1) assms(2) _ _ assms(5,6)] Cons.prems(3) by simp
  from Cons.IH [OF this] Cons.prems(2,3) show ?case by simp
qed simp

section \<open>A session into a fresh sink\<close>

text \<open>What the bench-side script prints for the given lines: its version, then one line for each.\<close>

definition script_output :: "(string \<times> string) list \<Rightarrow> string" where
  "script_output fls = ''##V=8.0.0'' @ [newline] @ concat (map (\<lambda>fl. line_text (fst fl) (snd fl) @ [newline]) fls)"

definition stream_fresh :: "sink_env \<Rightarrow> int \<Rightarrow> string set \<Rightarrow> 'f sink_world \<Rightarrow> bool" where
  "stream_fresh env sid fids w \<longleftrightarrow>
     healthy (sw_db w) \<and> sid \<in> es_ID ` set (db_servers (sw_db w)) \<and> sw_sink w = new_sink \<and> sw_pushes w = [] \<and>
     routed env ((\<lambda>fid. (sid, fid)) ` fids) \<and>
     (\<forall>xs. mset (se_order env xs) = mset xs) \<and> (\<forall>xs. mset (se_bump_order env xs) = mset xs)"

lemma fresh_tracked:
  assumes "stream_fresh env sid fids w"
  shows "tracked env (Pair sid ` fids) (cursor_of env (sw_db w)) (\<lambda>k. []) w"
  using assms by (auto simp: stream_fresh_def tracked_def new_sink_def accepted_def key_entries_def key_bytes_def)

lemma script_calls:
  assumes "sc_RemoteCommand c \<noteq> []" "is_ok (at_open a)" "\<forall>fl \<in> set fls. sendable (sc_MaxLineBytes c) fl"
    "at_bytes a = script_output fls"
  shows "run_once c a =
    (map_option (wrap_error ''scan: '') (at_err a),
     OnSessionState (sc_ServerID c) True [] # OnVersion (sc_ServerID c) ''8.0.0'' #
       map (\<lambda>(i, fl). delivered (sc_ServerID c) (at_clock a i) fl) (enumerate 1 fls))"
proof -
  let ?text = "\<lambda>fl. line_text (fst fl) (snd fl)" and ?v = "''##V=8.0.0''"
  have "\<forall>l \<in> set (?v # map ?text fls). newline \<notin> set l \<and> int (length l) < max 65536 (sc_MaxLineBytes c)"
    using sendable_fits [OF assms(3)] by simp
  moreover have "at_bytes a = concat (map (\<lambda>l. l @ [newline]) (?v # map ?text fls))"
    using assms(4) by (simp add: script_output_def comp_def)
  ultimately have "scan_lines (sc_MaxLineBytes c) (at_bytes a) = (map drop_cr (?v # map ?text fls), False)"
    by (simp only: scan_terminated)
  moreover have "drop_cr ?v = ?v" by (simp add: drop_cr_def)
  moreover have "event_calls sid now ?v = [OnVersion sid ''8.0.0'']" for sid now
    by (simp add: event_calls_def parse_line_def cut_prefix_def version_prefix_def has_prefix_def trim_space_id space_edge_def no_event_def)
  moreover note event_calls_lines [OF assms(3), of "sc_ServerID c" "at_clock a" 1]
  ultimately show ?thesis using assms(1,2) by (auto simp: run_once_def elim!: is_okE)
qed

text \<open>The entries the lines of one file become, and a session's calls seen as entries.\<close>

definition line_entries :: "(nat \<Rightarrow> time) \<Rightarrow> (string \<times> string) list \<Rightarrow> string \<Rightarrow> log_entry list" where
  "line_entries clock fls fid = map (\<lambda>(i, fl). \<lparr>le_Time = clock i, le_Line = drop_cr (snd fl)\<rparr>)
     (filter (\<lambda>(i, fl). fst fl = fid) (enumerate 1 fls))"

lemma delivered_entries:
  "calls_entries (map (\<lambda>(i, fl). delivered sid (clock i) fl) (enumerate n fls)) (sid, fid) =
     map (\<lambda>(i, fl). \<lparr>le_Time = clock i, le_Line = drop_cr (snd fl)\<rparr>)
       (filter (\<lambda>(i, fl). fst fl = fid) (enumerate n fls))"
  by (induction fls arbitrary: n) (auto simp: delivered_def)

lemma delivered_counted:
  "fst ` set fls \<subseteq> fids \<Longrightarrow> \<forall>c \<in> set (map (\<lambda>(i, fl). delivered sid (clock i) fl) (enumerate n fls)). counted (Pair sid ` fids) c"
  by (induction fls arbitrary: n) (auto simp: delivered_def)

text \<open>The bytes of one file's lines as the sink counts them.\<close>

definition line_bytes :: "(string \<times> string) list \<Rightarrow> string \<Rightarrow> int" where
  "line_bytes fls fid = sum_list (map (\<lambda>fl. int (length (drop_cr (snd fl))) + 1) (filter (\<lambda>fl. fst fl = fid) fls))"

lemma line_entries_bytes: "entry_bytes (line_entries clock fls fid) = line_bytes fls fid"
proof -
  have "entry_bytes (map (\<lambda>(i, fl). \<lparr>le_Time = clock i, le_Line = drop_cr (snd fl)\<rparr>)
      (filter (\<lambda>(i, fl). fst fl = fid) (enumerate n fls))) = line_bytes fls fid" for n
    by (induction fls arbitrary: n) (auto simp: line_bytes_def)
  then show ?thesis by (simp add: line_entries_def)
qed

text \<open>Whatever calls reach a fresh sink, the account holds, and a flush without error settles it.\<close>

lemma fresh_calls_tracked:
  assumes "stream_fresh env sid fids w" "\<forall>c \<in> set cs. counted (Pair sid ` fids) c"
    "\<forall>fid \<in> fids. 0 \<le> cursor_of env (sw_db w) (sid, fid) \<and>
       cursor_of env (sw_db w) (sid, fid) + entry_bytes (calls_entries cs (sid, fid)) < 2 ^ 63"
  shows "tracked env (Pair sid ` fids) (cursor_of env (sw_db w)) (calls_entries cs) (handle_calls env clock cs w)"
    and "sink_flush env now (handle_calls env clock cs w) = (None, w') \<Longrightarrow>
      tracked env (Pair sid ` fids) (cursor_of env (sw_db w)) (calls_entries cs) w' \<and> key_entries (sw_sink w') k = []"
proof -
  let ?K = "Pair sid ` fids" and ?start = "cursor_of env (sw_db w)" and ?w = "handle_calls env clock cs w"
  have r: "routed env ?K" and perm: "\<forall>xs. mset (se_order env xs) = mset xs" "\<forall>xs. mset (se_bump_order env xs) = mset xs"
    using assms(1) by (simp_all add: stream_fresh_def)
  have f: "fits ?K ?start (calls_entries cs)" using assms(3) by (auto simp: fits_def)
  show tr: "tracked env ?K ?start (calls_entries cs) ?w"
    using tracked_calls [OF fresh_tracked [OF assms(1)] r _ assms(2) perm, of clock] f by simp
  assume fl: "sink_flush env now ?w = (None, w')"
  from tracked_flush [OF tr r f perm fl] show "tracked env ?K ?start (calls_entries cs) w' \<and> key_entries (sw_sink w') k = []"
    by simp
qed

lemma fresh_account:
  assumes "stream_fresh env sid fids w" "\<forall>c \<in> set cs. counted (Pair sid ` fids) c"
    "\<forall>fid \<in> fids. 0 \<le> cursor_of env (sw_db w) (sid, fid) \<and>
       cursor_of env (sw_db w) (sid, fid) + entry_bytes (calls_entries cs (sid, fid)) < 2 ^ 63" "fid \<in> fids"
  shows "accepted env (handle_calls env clock cs w) (sid, fid) @ key_entries (sw_sink (handle_calls env clock cs w)) (sid, fid) =
      calls_entries cs (sid, fid)"
    and "cursor_of env (sw_db (handle_calls env clock cs w)) (sid, fid) + key_bytes (sw_sink (handle_calls env clock cs w)) (sid, fid) =
      cursor_of env (sw_db w) (sid, fid) + entry_bytes (calls_entries cs (sid, fid))"
    and "sink_flush env now (handle_calls env clock cs w) = (None, w') \<Longrightarrow>
      accepted env w' (sid, fid) = calls_entries cs (sid, fid) \<and>
      cursor_of env (sw_db w') (sid, fid) = cursor_of env (sw_db w) (sid, fid) + entry_bytes (calls_entries cs (sid, fid))"
proof -
  have k: "(sid, fid) \<in> Pair sid ` fids" using assms(4) by simp
  note tr = fresh_calls_tracked [OF assms(1-3)]
  show "accepted env (handle_calls env clock cs w) (sid, fid) @ key_entries (sw_sink (handle_calls env clock cs w)) (sid, fid) =
      calls_entries cs (sid, fid)"
    by (rule trackedD(5) [OF tr(1) k])
  show "cursor_of env (sw_db (handle_calls env clock cs w)) (sid, fid) + key_bytes (sw_sink (handle_calls env clock cs w)) (sid, fid) =
      cursor_of env (sw_db w) (sid, fid) + entry_bytes (calls_entries cs (sid, fid))"
    using trackedD(6,7) [OF tr(1) [of clock] k] tracked_entries [OF tr(1) [of clock] k] by simp
  assume "sink_flush env now (handle_calls env clock cs w) = (None, w')"
  note settled = conjunct1 [OF tr(2) [OF this]] conjunct2 [OF tr(2) [OF this]]
  show "accepted env w' (sid, fid) = calls_entries cs (sid, fid) \<and>
      cursor_of env (sw_db w') (sid, fid) = cursor_of env (sw_db w) (sid, fid) + entry_bytes (calls_entries cs (sid, fid))"
    using trackedD(5,7) [OF settled(1) k] settled(2) [of "(sid, fid)"] by simp
qed

lemma script_call_facts:
  assumes "sc_RemoteCommand c \<noteq> []" "is_ok (at_open a)" "\<forall>fl \<in> set fls. sendable (sc_MaxLineBytes c) fl"
    "at_bytes a = script_output fls" "fst ` set fls \<subseteq> fids"
  shows "calls_entries (snd (run_once c a)) (sc_ServerID c, fid) = line_entries (at_clock a) fls fid"
    and "\<forall>x \<in> set (snd (run_once c a)). counted (Pair (sc_ServerID c) ` fids) x"
  unfolding script_calls [OF assms(1-4)] using delivered_counted [OF assms(5), of "sc_ServerID c" "at_clock a" 1]
  by (simp_all add: delivered_entries line_entries_def)

text \<open>
  C8. From a script's output to Loki and the database. Whatever lines a session reads for the configured
  files and whichever of the flushes on full buffers fail, every stream's lines are accounted for
  at its end: what Loki accepted followed by what is buffered is the file's lines, in order and once,
  and the stored cursor plus the counted bytes is the start plus the lines' bytes. The next flush either
  fails and changes neither, or leaves Loki with exactly the lines and the cursor at their end.
\<close>

theorem streamed_lines_accounted:
  assumes "sc_RemoteCommand c \<noteq> []" "is_ok (at_open a)" "\<forall>fl \<in> set fls. sendable (sc_MaxLineBytes c) fl"
    "at_bytes a = script_output fls" "fst ` set fls \<subseteq> fids" "stream_fresh env (sc_ServerID c) fids w"
    "\<forall>fid \<in> fids. 0 \<le> cursor_of env (sw_db w) (sc_ServerID c, fid) \<and>
       cursor_of env (sw_db w) (sc_ServerID c, fid) + line_bytes fls fid < 2 ^ 63"
    "w1 = handle_calls env clock (snd (run_once c a)) w" "fid \<in> fids" "k = (sc_ServerID c, fid)"
  shows "accepted env w1 k @ key_entries (sw_sink w1) k = line_entries (at_clock a) fls fid \<and>
    cursor_of env (sw_db w1) k + key_bytes (sw_sink w1) k = cursor_of env (sw_db w) k + line_bytes fls fid \<and>
    (case sink_flush env now w1 of
       (Some e, w2) \<Rightarrow> sw_sink w2 = sw_sink w1 \<and> sw_db w2 = sw_db w1
     | (None, w2) \<Rightarrow> accepted env w2 k = line_entries (at_clock a) fls fid \<and>
         cursor_of env (sw_db w2) k = cursor_of env (sw_db w) k + line_bytes fls fid)"
proof -
  note calls = script_call_facts [OF assms(1-5)]
  have fit: "\<forall>fid \<in> fids. 0 \<le> cursor_of env (sw_db w) (sc_ServerID c, fid) \<and> cursor_of env (sw_db w) (sc_ServerID c, fid) +
      entry_bytes (calls_entries (snd (run_once c a)) (sc_ServerID c, fid)) < 2 ^ 63"
    unfolding calls(1) line_entries_bytes by (rule assms(7))
  note account = fresh_account [OF assms(6) calls(2) fit assms(9), where clock = clock, unfolded calls(1) line_entries_bytes]
  obtain err w2 where f: "sink_flush env now w1 = (err, w2)" by (metis surj_pair)
  show ?thesis
  proof (cases err)
    case None
    with account f show ?thesis by (simp add: assms(8,10))
  next
    case (Some e)
    with account(1,2) flush_fails [OF f [unfolded Some]] f show ?thesis by (simp add: assms(8,10))
  qed
qed

text \<open>A session that reads \<open>GET /\<close> and \<open>POST /\<close> of one file, twice connected.\<close>

definition fresh_example :: "unit sink_world" where
  "fresh_example = \<lparr>sw_sink = new_sink, sw_db = db1, sw_pushes = [], sw_metrics = []\<rparr>"

definition read_example :: "(string \<times> string) list \<Rightarrow> attempt" where
  "read_example fls = refused\<lparr>at_open := Inr (), at_bytes := script_output fls\<rparr>"

abbreviation get_line :: "string \<times> string" where "get_line \<equiv> (''web'', ''GET /'')"
abbreviation post_line :: "string \<times> string" where "post_line \<equiv> (''web'', ''POST /'')"

lemma example_sendable: "\<forall>fl \<in> set [get_line, post_line]. sendable (sc_MaxLineBytes session_example) fl"
  by (simp add: sendable_def file_id_ok_def line_text_def fline_prefix_def contains_def has_prefix_def error_marker_def
      session_example_def)

lemma fresh_example_ok: "stream_fresh sink_env_example 1 {''web''} fresh_example" "cursor_of sink_env_example db1 k = 0"
  "sw_db fresh_example = db1"
  using db1_healthy_now
  by (simp_all add: stream_fresh_def fresh_example_def routed_def sink_env_example_def is_int64_def cursor_of_def)

theorem streamed_lines_accounted_witness:
  "accepted sink_env_example (handle_calls sink_env_example (\<lambda>i. 0) (snd (run_once session_example (read_example [get_line, post_line])))
     fresh_example) (1, ''web'') @
   key_entries (sw_sink (handle_calls sink_env_example (\<lambda>i. 0)
     (snd (run_once session_example (read_example [get_line, post_line]))) fresh_example)) (1, ''web'') =
   [web_entry ''GET /'', web_entry ''POST /'']"
proof -
  have ok: "sc_RemoteCommand session_example \<noteq> []" "is_ok (at_open (read_example fls))"
    "at_bytes (read_example fls) = script_output fls" "at_clock (read_example fls) = (\<lambda>i. 0)" for fls
    by (simp_all add: session_example_def read_example_def refused_def)
  have files: "fst ` set [get_line, post_line] \<subseteq> {''web''}" by simp
  have sid: "sc_ServerID session_example = 1" by (simp add: session_example_def)
  have room: "\<forall>fid \<in> {''web''}. 0 \<le> cursor_of sink_env_example (sw_db fresh_example) (sc_ServerID session_example, fid) \<and>
      cursor_of sink_env_example (sw_db fresh_example) (sc_ServerID session_example, fid) +
        line_bytes [get_line, post_line] fid < 2 ^ 63"
    by (simp add: fresh_example_ok line_bytes_def drop_cr_def)
  have l: "line_entries (\<lambda>i. 0) [get_line, post_line] ''web'' = [web_entry ''GET /'', web_entry ''POST /'']"
    by (simp add: line_entries_def web_entry_def drop_cr_def)
  from streamed_lines_accounted [OF ok(1,2) example_sendable ok(3) files fresh_example_ok(1) [folded sid] room refl _ refl,
      of "''web''" "\<lambda>i. 0" 0]
  show ?thesis by (simp add: sid ok(4) l)
qed

section \<open>Reconnecting\<close>


text \<open>A sink on a store with a cursor of five bytes.\<close>

definition resumed_example :: "unit sink_world" where
  "resumed_example = fresh_example\<lparr>sw_db := snd (upsert_log_cursor msg_env 0
     \<lparr>lc_ServerID = 1, lc_LogPath = ''/l'', lc_ByteOffset = 5, lc_LastSeenAt = 0\<rparr> db1)\<rparr>"

lemma resumed_example_ok:
  "stream_fresh sink_env_example 1 {''web''} resumed_example"
  "cursor_of sink_env_example (sw_db resumed_example) (1, ''web'') = 5"
proof -
  let ?c = "\<lparr>lc_ServerID = 1, lc_LogPath = ''/l'', lc_ByteOffset = 5, lc_LastSeenAt = 0\<rparr>"
  note h = db1_healthy_now(1)
  have ok: "is_ok (fst (upsert_log_cursor msg_env 0 ?c db1))"
    by (rule upsert_log_cursor_succeeds) (use h db1_healthy_now(2) in auto)
  show "cursor_of sink_env_example (sw_db resumed_example) (1, ''web'') = 5"
    using ent.offset_put [OF h ok] by (simp add: cursor_of_def resumed_example_def sink_env_example_def)
  have "healthy (sw_db resumed_example)" "db_servers (sw_db resumed_example) = db_servers db1"
    using ent.put_inv [OF h] upsert_log_cursor_servers [OF h] by (simp_all add: resumed_example_def)
  then show "stream_fresh sink_env_example 1 {''web''} resumed_example"
    using fresh_example_ok(1) by (simp add: stream_fresh_def resumed_example_def fresh_example_def db1_healthy_now)
qed


end
