(* ===== verification/Stream_Manager.thy ===== *)
theory Stream_Manager
  imports Stream_Sink
begin

text \<open>
  internal/streamer/manager.go: the owner of the sessions. Started sessions are kept in the order
  they were started, each with the context it runs under and whether it has been told to
  stop; a session's handle is its position. The map from servers to handles is absent once
  \<open>Stop\<close> has set it to nil: reading it then finds nothing and writing to it panics.
\<close>

datatype 'a outcome = Returned 'a | Panicked string

section \<open>Configuration\<close>

record file_spec_config =
  fc_ID :: string
  fc_Path :: string

record stream_config =
  tc_Enabled :: bool
  tc_MonitorID :: string
  tc_ScriptPath :: string
  tc_Files :: "file_spec_config list"
  tc_FlushIntervalSeconds :: int
  tc_MaxBatchLines :: int
  tc_PushTimeoutSeconds :: int
  tc_MinBackoffSeconds :: int
  tc_MaxBackoffSeconds :: int

fun first_bad_file :: "int \<Rightarrow> file_spec_config list \<Rightarrow> go_error option" where
  "first_bad_file i [] = None"
| "first_bad_file i (f # fs) =
     (if trim_space (fc_ID f) = [] then
        Some (new_error (''streaming.files['' @ format_int i @ ''].id is required''))
      else if trim_space (fc_Path f) = [] then
        Some (new_error (''streaming.files['' @ format_int i @ ''].path is required''))
      else first_bad_file (i + 1) fs)"

definition stream_config_validate :: "stream_config \<Rightarrow> go_error option" where
  "stream_config_validate c =
     (if \<not> tc_Enabled c then None
      else if trim_space (tc_ScriptPath c) = [] then
        Some (new_error ''streaming.script_path is required when streaming.enabled is true'')
      else if tc_Files c = [] then
        Some (new_error ''streaming.files must contain at least one entry when streaming.enabled is true'')
      else first_bad_file 0 (tc_Files c))"

definition file_specs :: "stream_config \<Rightarrow> file_spec list" where
  "file_specs c = map (\<lambda>f. \<lparr>fs_ID = fc_ID f, fs_Path = fc_Path f\<rparr>) (tc_Files c)"

definition seconds :: "int \<Rightarrow> duration" where
  "seconds n = wrap64 (n * second)"

section \<open>The manager\<close>

record stream_session =
  ss_cfg :: session_config
  ss_ctx :: nat
  ss_stopped :: bool

record manager =
  mg_cfg :: stream_config
  mg_sink_cfg :: sink_config
  mg_pathByID :: "string go_map"
  mg_sessions :: "(int \<times> nat) list option"
  mg_started :: "stream_session list"
  mg_stopped :: bool
  mg_tick :: "duration option"

definition path_by_id :: "stream_config \<Rightarrow> string go_map" where
  "path_by_id c = fold (\<lambda>f m. map_put m (fc_ID f) (fc_Path f)) (tc_Files c) []"

definition new_manager :: "stream_config \<Rightarrow> manager option result" where
  "new_manager c =
     (case stream_config_validate c of
        Some e \<Rightarrow> Inl e
      | None \<Rightarrow>
          if \<not> tc_Enabled c then Inr None
          else Inr (Some
            \<lparr>mg_cfg = c,
             mg_sink_cfg = new_sink_config
               \<lparr>kc_MonitorID = tc_MonitorID c,
                kc_FlushInterval =
                  (if tc_FlushIntervalSeconds c \<le> 0 then second else seconds (tc_FlushIntervalSeconds c)),
                kc_MaxBatchLines = (if tc_MaxBatchLines c \<le> 0 then 500 else tc_MaxBatchLines c),
                kc_PushTimeout =
                  (if tc_PushTimeoutSeconds c \<le> 0 then 10 * second else seconds (tc_PushTimeoutSeconds c))\<rparr>,
             mg_pathByID = path_by_id c, mg_sessions = Some [], mg_started = [], mg_stopped = False,
             mg_tick = None\<rparr>))"

definition manager_resolver :: "manager \<Rightarrow> int \<Rightarrow> string \<Rightarrow> string option" where
  "manager_resolver m sid fid = map_of (mg_pathByID m) fid"

definition session_map :: "manager \<Rightarrow> (int \<times> nat) list" where
  "session_map m = (case mg_sessions m of None \<Rightarrow> [] | Some ss \<Rightarrow> ss)"

fun read_resume ::
  "int \<Rightarrow> file_spec list \<Rightarrow> (string \<times> int) list \<Rightarrow> 'f db \<Rightarrow> (string \<times> int) list \<times> 'f db" where
  "read_resume sid [] acc db = (acc, db)"
| "read_resume sid (f # fs) acc db =
     (case get_log_cursor sid (fs_Path f) db of
        (Inr cur, dbr) \<Rightarrow> read_resume sid fs (map_put acc (fs_ID f) (lc_ByteOffset cur)) dbr
      | (Inl e, dbr) \<Rightarrow> read_resume sid fs acc dbr)"

definition launch_config ::
  "stream_config \<Rightarrow> int \<Rightarrow> server \<Rightarrow> file_spec list \<Rightarrow> string \<Rightarrow> (string \<times> int) list \<Rightarrow> session_config" where
  "launch_config c sid srv files cmd resume =
     \<lparr>sc_ServerID = sid,
      sc_Target = \<lparr>tg_Host = sv_Hostname srv, tg_Port = sv_SSHPort srv, tg_User = sv_SSHUser srv,
        tg_KeyPath = sv_SSHKeyPath srv\<rparr>,
      sc_Files = files, sc_RemoteCommand = cmd, sc_ResumeOffsets = resume,
      sc_MinBackoff = seconds (tc_MinBackoffSeconds c), sc_MaxBackoff = seconds (tc_MaxBackoffSeconds c),
      sc_MaxLineBytes = 0\<rparr>"

text \<open>\<open>NewSession\<close> and \<open>Run\<close>: the session's goroutine starts under the given context.\<close>

definition start_session :: "nat \<Rightarrow> session_config \<Rightarrow> manager \<Rightarrow> manager" where
  "start_session ctx cfg m =
     m\<lparr>mg_started := mg_started m @ [\<lparr>ss_cfg = new_session_config cfg, ss_ctx = ctx, ss_stopped = False\<rparr>]\<rparr>"

definition launch_one ::
  "nat \<Rightarrow> int \<Rightarrow> file_spec list \<Rightarrow> manager \<times> 'f db \<Rightarrow> unit result outcome \<times> manager \<times> 'f db" where
  "launch_one ctx sid files md =
     (case md of (m, db) \<Rightarrow>
        if map_of (session_map m) sid \<noteq> None then (Returned (Inr ()), m, db)
        else
          (case get_server sid db of
             (Inl e, dbr) \<Rightarrow> (Returned (Inl (wrap_error ''get server: '' e)), m, dbr)
           | (Inr srv, dbr) \<Rightarrow>
               (case read_resume sid files [] dbr of
                  (resume, dbs) \<Rightarrow>
                    (case build_remote_command (tc_ScriptPath (mg_cfg m)) files resume of
                       Inl e \<Rightarrow> (Returned (Inl (wrap_error ''build remote command: '' e)), m, dbs)
                     | Inr cmd \<Rightarrow>
                         (let m1 = start_session ctx (launch_config (mg_cfg m) sid srv files cmd resume) m in
                          case mg_sessions m of
                            None \<Rightarrow> (Panicked ''assignment to entry in nil map'', m1, dbs)
                          | Some ss \<Rightarrow>
                              (Returned (Inr ()),
                               m1\<lparr>mg_sessions := Some (map_put ss sid (length (mg_started m)))\<rparr>, dbs))))))"

fun launch_all ::
  "nat \<Rightarrow> file_spec list \<Rightarrow> int list \<Rightarrow> manager \<times> 'f db \<Rightarrow> unit outcome \<times> manager \<times> 'f db" where
  "launch_all ctx files [] md = (Returned (), md)"
| "launch_all ctx files (sid # sids) md =
     (case launch_one ctx sid files md of
        (Panicked p, md') \<Rightarrow> (Panicked p, md')
      | (Returned r, md') \<Rightarrow> launch_all ctx files sids md')"

definition manager_start ::
  "nat \<Rightarrow> manager \<times> 'f db \<Rightarrow> unit result outcome \<times> manager \<times> 'f db" where
  "manager_start ctx md =
     (case md of (m, db) \<Rightarrow>
        case list_servers db of
          (Inl e, dbr) \<Rightarrow> (Returned (Inl (wrap_error ''streamer: list servers: '' e)), m, dbr)
        | (Inr servers, dbr) \<Rightarrow>
            (case launch_all ctx (file_specs (mg_cfg m)) (map sv_ID servers) (m, dbr) of
               (Panicked p, md') \<Rightarrow> (Panicked p, md')
             | (Returned _, m1, dbs) \<Rightarrow>
                 (let secs = tc_FlushIntervalSeconds (mg_cfg m); d = seconds secs in
                  if d \<le> 0 then (Panicked ''non-positive interval for NewTicker'', m1, dbs)
                  else (Returned (Inr ()), m1\<lparr>mg_tick := Some (if secs \<le> 0 then second else d)\<rparr>, dbs))))"

definition launch_server ::
  "nat \<Rightarrow> int \<Rightarrow> manager \<times> 'f db \<Rightarrow> unit result outcome \<times> manager \<times> 'f db" where
  "launch_server ctx sid md = launch_one ctx sid (file_specs (mg_cfg (fst md))) md"

definition stop_session :: "nat \<Rightarrow> manager \<Rightarrow> manager" where
  "stop_session h m = m\<lparr>mg_started := (mg_started m)[h := (mg_started m ! h)\<lparr>ss_stopped := True\<rparr>]\<rparr>"

definition remove_server :: "int \<Rightarrow> manager \<Rightarrow> manager" where
  "remove_server sid m =
     (case map_of (session_map m) sid of
        None \<Rightarrow> m
      | Some h \<Rightarrow> stop_session h (m\<lparr>mg_sessions := map_option (AList.delete sid) (mg_sessions m)\<rparr>))"

section \<open>Stopping\<close>

abbreviation stop_floor :: duration where "stop_floor \<equiv> 100000000"

text \<open>The waits of \<open>Stop\<close> for sessions that wind down after the given times (\<open>None\<close>: never), when
  \<open>elapsed\<close> has already passed.\<close>

fun stop_waits :: "duration \<Rightarrow> duration \<Rightarrow> duration option list \<Rightarrow> duration list" where
  "stop_waits timeout elapsed [] = []"
| "stop_waits timeout elapsed (d # ds) =
     (let remain = max (timeout - elapsed) stop_floor;
          waited = (case d of None \<Rightarrow> remain | Some x \<Rightarrow> min x remain)
      in waited # stop_waits timeout (elapsed + waited) ds)"

text \<open>\<open>Stop\<close>: the manager after it, the waits, and whether it runs a last flush. The order is that
  of the map iteration.\<close>

definition manager_stop ::
  "(nat list \<Rightarrow> nat list) \<Rightarrow> (nat \<Rightarrow> duration option) \<Rightarrow> duration \<Rightarrow> manager \<Rightarrow> manager \<times> duration list \<times> bool" where
  "manager_stop order wind timeout m =
     (if mg_stopped m then (m, [], False)
      else
        (let hs = order (map snd (session_map m)) in
         (fold stop_session hs (m\<lparr>mg_stopped := True, mg_sessions := None\<rparr>),
          stop_waits timeout 0 (map wind hs), mg_tick m \<noteq> None)))"

datatype flush_event = FlushTick time | FlushCtxDone

fun flush_loop :: "sink_env \<Rightarrow> flush_event list \<Rightarrow> 'f sink_world \<Rightarrow> 'f sink_world" where
  "flush_loop env [] w = w"
| "flush_loop env (FlushCtxDone # es) w = w"
| "flush_loop env (FlushTick now # es) w = flush_loop env es (snd (sink_flush env now w))"

section \<open>Calls of the manager\<close>

datatype manager_call =
    MStart nat
  | MLaunch nat int
  | MRemove int
  | MStop duration

fun manager_step ::
  "(nat list \<Rightarrow> nat list) \<Rightarrow> manager_call \<Rightarrow> manager \<times> 'f db \<Rightarrow> unit result outcome \<times> manager \<times> 'f db" where
  "manager_step order (MStart ctx) md = manager_start ctx md"
| "manager_step order (MLaunch ctx sid) md = launch_server ctx sid md"
| "manager_step order (MRemove sid) md = (Returned (Inr ()), remove_server sid (fst md), snd md)"
| "manager_step order (MStop t) md = (Returned (Inr ()), fst (manager_stop order (\<lambda>h. None) t (fst md)), snd md)"

text \<open>The calls in turn, \<open>None\<close> when one of them panics.\<close>

fun manager_run ::
  "(nat list \<Rightarrow> nat list) \<Rightarrow> manager_call list \<Rightarrow> manager \<times> 'f db \<Rightarrow> (manager \<times> 'f db) option" where
  "manager_run order [] md = Some md"
| "manager_run order (c # cs) md =
     (case manager_step order c md of
        (Panicked p, md') \<Rightarrow> None
      | (Returned r, md') \<Rightarrow> manager_run order cs md')"

section \<open>One session per server\<close>

definition unsignalled :: "manager \<Rightarrow> int \<Rightarrow> nat list" where
  "unsignalled m sid = filter (\<lambda>h. \<not> ss_stopped (mg_started m ! h) \<and>
     sc_ServerID (ss_cfg (mg_started m ! h)) = sid) [0..<length (mg_started m)]"

definition manager_ok :: "manager \<Rightarrow> bool" where
  "manager_ok m \<longleftrightarrow> is_map (session_map m) \<and> (mg_stopped m \<longrightarrow> mg_sessions m = None) \<and>
     (\<forall>sid h. map_of (session_map m) sid = Some h \<longleftrightarrow> h < length (mg_started m) \<and>
        \<not> ss_stopped (mg_started m ! h) \<and> sc_ServerID (ss_cfg (mg_started m ! h)) = sid)"

lemma manager_okD:
  assumes "manager_ok m"
  shows "is_map (session_map m)" "mg_stopped m \<Longrightarrow> mg_sessions m = None"
    "map_of (session_map m) sid = Some h \<longleftrightarrow> h < length (mg_started m) \<and>
       \<not> ss_stopped (mg_started m ! h) \<and> sc_ServerID (ss_cfg (mg_started m ! h)) = sid"
  using assms unfolding manager_ok_def by blast+

lemma filter_upt_unique: "(\<And>i. i < n \<Longrightarrow> P i \<longleftrightarrow> i = h) \<Longrightarrow> h < n \<Longrightarrow> filter P [0..<n] = [h]"
proof (induction n)
  case (Suc n)
  show ?case
  proof (cases "h = n")
    case True
    with Suc.prems(1) have "filter P [0..<n] = []" by (auto simp: filter_empty_conv)
    with True Suc.prems show ?thesis by simp
  next
    case False
    with Suc show ?thesis by (simp add: less_Suc_eq)
  qed
qed simp

lemma unsignalled_map:
  assumes "manager_ok m"
  shows "unsignalled m sid = (case map_of (session_map m) sid of None \<Rightarrow> [] | Some h \<Rightarrow> [h])"
proof (cases "map_of (session_map m) sid")
  case None
  with manager_okD(3) [OF assms, of sid] show ?thesis by (simp add: unsignalled_def filter_empty_conv)
next
  case (Some h)
  let ?P = "\<lambda>i. \<not> ss_stopped (mg_started m ! i) \<and> sc_ServerID (ss_cfg (mg_started m ! i)) = sid"
  have iff: "?P i \<longleftrightarrow> i = h" if "i < length (mg_started m)" for i
  proof -
    from manager_okD(3) [OF assms, of sid i] that have "?P i \<longleftrightarrow> map_of (session_map m) sid = Some i" by blast
    then show ?thesis unfolding Some by auto
  qed
  have "h < length (mg_started m)" using manager_okD(3) [OF assms, of sid h] Some by blast
  with iff have "filter ?P [0..<length (mg_started m)] = [h]" by (rule filter_upt_unique)
  then show ?thesis by (simp add: unsignalled_def Some)
qed

lemma launch_keeps:
  assumes "manager_ok m" "map_of (session_map m) sid = None" "mg_sessions m = Some ss" "sc_ServerID cfg = sid"
  shows "manager_ok (start_session ctx cfg m\<lparr>mg_sessions := Some (map_put ss sid (length (mg_started m)))\<rparr>)"
proof -
  have sm: "session_map m = ss" using assms(3) by (simp add: session_map_def)
  have sid: "sc_ServerID (new_session_config cfg) = sid" using assms(4) by (simp add: new_session_config_def)
  note ok = manager_okD [OF assms(1), unfolded sm]
  have eq: "map_of (map_put ss sid (length (mg_started m))) s = Some h \<longleftrightarrow>
      h < length (mg_started (start_session ctx cfg m)) \<and> \<not> ss_stopped (mg_started (start_session ctx cfg m) ! h) \<and>
      sc_ServerID (ss_cfg (mg_started (start_session ctx cfg m) ! h)) = s" for s h
    using ok(3) [of s h] assms(2) sid by (auto simp: sm start_session_def nth_append less_Suc_eq)
  then show ?thesis
    using ok(1,2) assms(3) by (auto simp: manager_ok_def session_map_def start_session_def)
qed

lemma launch_one_keeps:
  assumes "manager_ok m" "launch_one ctx sid files (m, db) = (Returned r, m', db')"
  shows "manager_ok m' \<and> mg_stopped m' = mg_stopped m \<and> mg_cfg m' = mg_cfg m"
  using assms launch_keeps [OF assms(1), of sid]
  by (auto simp: launch_one_def Let_def launch_config_def start_session_def split: if_splits prod.splits sum.splits option.splits)

lemma launch_all_keeps:
  "launch_all ctx files sids (m, db) = (Returned r, m', db') \<Longrightarrow> manager_ok m \<Longrightarrow>
     manager_ok m' \<and> mg_stopped m' = mg_stopped m \<and> mg_cfg m' = mg_cfg m"
proof (induction sids arbitrary: m db)
  case (Cons sid sids)
  obtain x m1 dbx where l: "launch_one ctx sid files (m, db) = (Returned x, m1, dbx)"
    "launch_all ctx files sids (m1, dbx) = (Returned r, m', db')"
    using Cons.prems(1) by (auto split: prod.splits outcome.splits)
  from launch_one_keeps [OF Cons.prems(2) l(1)] Cons.IH [OF l(2)] show ?case by simp
qed simp

lemma stop_session_started:
  "h < length (mg_started m) \<Longrightarrow> length (mg_started (stop_session h m)) = length (mg_started m) \<and>
     (\<forall>i < length (mg_started m). ss_cfg (mg_started (stop_session h m) ! i) = ss_cfg (mg_started m ! i) \<and>
        (ss_stopped (mg_started (stop_session h m) ! i) \<longleftrightarrow> i = h \<or> ss_stopped (mg_started m ! i)))"
  by (simp add: stop_session_def nth_list_update)

lemma stop_sessions_started:
  "\<forall>h \<in> set hs. h < length (mg_started m) \<Longrightarrow>
     length (mg_started (fold stop_session hs m)) = length (mg_started m) \<and>
     (\<forall>i < length (mg_started m). ss_cfg (mg_started (fold stop_session hs m) ! i) = ss_cfg (mg_started m ! i) \<and>
        (ss_stopped (mg_started (fold stop_session hs m) ! i) \<longleftrightarrow> i \<in> set hs \<or> ss_stopped (mg_started m ! i)))"
proof (induction hs arbitrary: m)
  case (Cons h hs)
  with stop_session_started [of h m] show ?case by auto
qed simp

lemma stop_session_fields [simp]:
  "mg_sessions (stop_session h m) = mg_sessions m" "mg_stopped (stop_session h m) = mg_stopped m"
  by (simp_all add: stop_session_def)

lemma stop_sessions_fields [simp]:
  "mg_sessions (fold stop_session hs m) = mg_sessions m" "mg_stopped (fold stop_session hs m) = mg_stopped m"
  by (induction hs arbitrary: m) simp_all

lemma remove_keeps:
  assumes "manager_ok m"
  shows "manager_ok (remove_server sid m) \<and> mg_stopped (remove_server sid m) = mg_stopped m"
proof (cases "map_of (session_map m) sid")
  case None
  then show ?thesis using assms by (simp add: remove_server_def)
next
  case (Some h)
  let ?m = "m\<lparr>mg_sessions := map_option (AList.delete sid) (mg_sessions m)\<rparr>"
  note ok = manager_okD [OF assms]
  have sm: "session_map (stop_session h ?m) = AList.delete sid (session_map m)"
    by (simp add: session_map_def split: option.split)
  have h: "h < length (mg_started ?m)" using ok(3) [of sid h] Some by simp
  have "map_of (AList.delete sid (session_map m)) s = Some i \<longleftrightarrow> i < length (mg_started (stop_session h ?m)) \<and>
      \<not> ss_stopped (mg_started (stop_session h ?m) ! i) \<and> sc_ServerID (ss_cfg (mg_started (stop_session h ?m) ! i)) = s"
    for s i
    using ok(3) [of s i] ok(3) [of sid h] Some stop_session_started [OF h] by (auto simp: delete_conv')
  moreover have "is_map (AList.delete sid (session_map m))"
    using ok(1) by (simp add: is_map_def distinct_delete)
  ultimately show ?thesis using ok(2) Some by (auto simp: remove_server_def manager_ok_def sm)
qed

lemma stop_keeps:
  assumes "manager_ok m" "\<forall>hs. mset (order hs) = mset hs"
  shows "manager_ok (fst (manager_stop order wind t m)) \<and> mg_stopped (fst (manager_stop order wind t m))"
proof (cases "mg_stopped m")
  case True
  then show ?thesis using assms by (simp add: manager_stop_def)
next
  case False
  let ?hs = "order (map snd (session_map m))"
  let ?m = "m\<lparr>mg_stopped := True, mg_sessions := None\<rparr>"
  note ok = manager_okD [OF assms(1)]
  have hs: "set ?hs = snd ` set (session_map m)" using mset_eq_setD [OF spec [OF assms(2)]] by simp
  have "h < length (mg_started m)" if "h \<in> set ?hs" for h
    using that ok(1,3) unfolding hs by (auto simp: is_map_def)
  then have "\<forall>h \<in> set ?hs. h < length (mg_started ?m)" by simp
  note st = stop_sessions_started [OF this]
  have "i \<in> set ?hs" if "i < length (mg_started m)" "\<not> ss_stopped (mg_started m ! i)" for i
  proof -
    have "map_of (session_map m) (sc_ServerID (ss_cfg (mg_started m ! i))) = Some i" using ok(3) that by blast
    then show ?thesis unfolding hs by (force dest: map_of_SomeD)
  qed
  with st False show ?thesis
    by (auto simp: manager_stop_def Let_def manager_ok_def session_map_def)
qed

lemma tick_ok [simp]: "manager_ok (m\<lparr>mg_tick := d\<rparr>) = manager_ok m"
  by (simp add: manager_ok_def session_map_def)

lemma start_keeps:
  assumes "manager_ok m" "manager_start ctx (m, db) = (Returned r, m', db')"
  shows "manager_ok m' \<and> mg_stopped m' = mg_stopped m"
  using assms
  by (auto simp: manager_start_def Let_def split: prod.splits sum.splits outcome.splits if_splits
      dest!: launch_all_keeps)

lemma manager_step_keeps:
  assumes "manager_ok m" "\<forall>hs. mset (order hs) = mset hs" "manager_step order c (m, db) = (Returned r, m', db')"
  shows "manager_ok m' \<and> (mg_stopped m \<or> (\<exists>t. c = MStop t) \<longrightarrow> mg_stopped m')"
proof (cases c)
  case (MStart ctx)
  with assms(3) have "manager_start ctx (m, db) = (Returned r, m', db')" by simp
  from start_keeps [OF assms(1) this] show ?thesis by (simp add: MStart)
next
  case (MLaunch ctx sid)
  with assms(3) have "launch_one ctx sid (file_specs (mg_cfg m)) (m, db) = (Returned r, m', db')"
    by (simp add: launch_server_def)
  from launch_one_keeps [OF assms(1) this] show ?thesis by (simp add: MLaunch)
next
  case (MRemove sid)
  then show ?thesis using remove_keeps [OF assms(1)] assms(3) by auto
next
  case (MStop t)
  then show ?thesis using stop_keeps [OF assms(1,2)] assms(3) by auto
qed

lemma manager_run_keeps:
  "manager_run order cs (m, db) = Some (m', db') \<Longrightarrow> manager_ok m \<Longrightarrow> \<forall>hs. mset (order hs) = mset hs \<Longrightarrow>
     manager_ok m' \<and> (mg_stopped m \<or> (\<exists>t. MStop t \<in> set cs) \<longrightarrow> mg_stopped m')"
proof (induction cs arbitrary: m db)
  case (Cons c cs)
  obtain r m1 dbx where s: "manager_step order c (m, db) = (Returned r, m1, dbx)"
    "manager_run order cs (m1, dbx) = Some (m', db')"
    using Cons.prems(1) by (auto split: prod.splits outcome.splits)
  from manager_step_keeps [OF Cons.prems(2,3) s(1)] Cons.IH [OF s(2) _ Cons.prems(3)] show ?case by auto
qed simp

lemma new_manager_ok: "new_manager c = Inr (Some m) \<Longrightarrow> manager_ok m"
  by (auto simp: new_manager_def manager_ok_def session_map_def split: option.splits if_splits)

text \<open>
  C34. Whatever calls of \<open>Start\<close>, \<open>LaunchServer\<close>, \<open>RemoveServer\<close> and \<open>Stop\<close> are made in turn, as long as
  none of them panics, the sessions of a server that have not been told to stop are exactly the one the
  manager's map holds for it: never two, and none that the manager has lost track
  of. After \<open>Stop\<close> every session has been told to stop.
\<close>

theorem manager_one_session:
  assumes "new_manager c = Inr (Some m0)" "manager_run order cs (m0, db) = Some (m, db')"
    "\<forall>hs. mset (order hs) = mset hs"
  shows "unsignalled m sid = (case map_of (session_map m) sid of None \<Rightarrow> [] | Some h \<Rightarrow> [h]) \<and>
    ((\<exists>t. MStop t \<in> set cs) \<longrightarrow> unsignalled m sid = [])"
proof -
  have ok: "manager_ok m" "(\<exists>t. MStop t \<in> set cs) \<longrightarrow> mg_stopped m"
    using manager_run_keeps [OF assms(2) new_manager_ok [OF assms(1)] assms(3)] by blast+
  with unsignalled_map [OF ok(1), of sid] manager_okD(2) [OF ok(1)] show ?thesis
    by (auto simp: session_map_def)
qed

definition stream_config_example :: stream_config where
  "stream_config_example = \<lparr>tc_Enabled = True, tc_MonitorID = [], tc_ScriptPath = ''/s'',
     tc_Files = [\<lparr>fc_ID = ''web'', fc_Path = ''/l''\<rparr>], tc_FlushIntervalSeconds = 1, tc_MaxBatchLines = 500,
     tc_PushTimeoutSeconds = 10, tc_MinBackoffSeconds = 1, tc_MaxBackoffSeconds = 60\<rparr>"

definition manager_example :: manager where
  "manager_example = (case new_manager stream_config_example of Inr (Some m) \<Rightarrow> m | _ \<Rightarrow> undefined)"

lemma stream_config_example_valid: "stream_config_validate stream_config_example = None"
  by (simp add: stream_config_validate_def stream_config_example_def trim_space_id space_edge_def)

lemma manager_example_new: "new_manager stream_config_example = Inr (Some manager_example)"
  by (simp add: manager_example_def new_manager_def stream_config_example_valid)
    (simp add: stream_config_example_def)

lemma manager_example_fields [simp]:
  "mg_cfg manager_example = stream_config_example" "mg_sessions manager_example = Some []"
  "mg_started manager_example = []" "\<not> mg_stopped manager_example" "mg_tick manager_example = None"
  by (simp_all add: manager_example_def new_manager_def stream_config_example_valid)
    (simp_all add: stream_config_example_def)

section \<open>Resuming\<close>

lemma read_resume_healthy:
  assumes "healthy db"
  shows "snd (read_resume sid fs acc db) = db \<and>
    (distinct (map fs_ID fs) \<longrightarrow>
      map_of (fst (read_resume sid fs acc db)) fid =
        (case find (\<lambda>f. fs_ID f = fid) fs of
           None \<Rightarrow> map_of acc fid
         | Some f \<Rightarrow> (case fst (get_log_cursor sid (fs_Path f) db) of
             Inl e \<Rightarrow> map_of acc fid
           | Inr cur \<Rightarrow> Some (lc_ByteOffset cur))))"
proof (induction fs arbitrary: acc)
  case (Cons f fs)
  have none: "fs_ID f \<notin> set (map fs_ID fs) \<Longrightarrow> find (\<lambda>g. fs_ID g = fs_ID f) fs = None"
    by (simp add: find_None_iff image_iff) metis
  show ?case using none
    by (cases "find (\<lambda>c. cursor_key c = (sid, fs_Path f)) (db_cursors db)")
      (auto simp: get_log_cursor_find [OF assms] Cons.IH split: option.split)
qed simp

text \<open>The resume arguments that the stored offsets call for.\<close>

definition resume_args_for :: "int \<Rightarrow> file_spec list \<Rightarrow> 'f db \<Rightarrow> string list" where
  "resume_args_for sid fs db =
     map (\<lambda>f. fs_ID f @ CHR 0x3A # format_int (stored_offset get_log_cursor sid (fs_Path f) db))
       (filter (\<lambda>f. stored_offset get_log_cursor sid (fs_Path f) db > 0) fs)"

lemma find_distinct_key: "distinct (map k xs) \<Longrightarrow> x \<in> set xs \<Longrightarrow> find (\<lambda>y. k y = k x) xs = Some x"
  by (induction xs) (auto simp: image_iff)

lemma resume_parts_stored:
  assumes "healthy db" "distinct (map fs_ID fs)"
  shows "resume_parts fs (fst (read_resume sid fs [] db)) = resume_args_for sid fs db"
proof -
  have "map_of (fst (read_resume sid fs [] db)) (fs_ID f) =
      (case fst (get_log_cursor sid (fs_Path f) db) of Inl e \<Rightarrow> None | Inr cur \<Rightarrow> Some (lc_ByteOffset cur))"
    if "f \<in> set fs" for f
    using read_resume_healthy [OF assms(1), of sid fs "[]" "fs_ID f"] find_distinct_key [OF assms(2) that] assms(2)
    by (simp split: sum.split)
  then have "List.map_filter (\<lambda>f. case map_of (fst (read_resume sid fs [] db)) (fs_ID f) of
        Some off \<Rightarrow> if off > 0 then Some (fs_ID f @ CHR 0x3A # format_int off) else None | None \<Rightarrow> None) gs =
      resume_args_for sid gs db" if "set gs \<subseteq> set fs" for gs
    using that by (induction gs)
      (auto simp: resume_args_for_def stored_offset_def map_filter_simps split: sum.split option.split)
  then show ?thesis by (simp add: resume_parts_def)
qed

lemma launch_one_starts:
  assumes "healthy db" "server_of db sid = Some r" "map_of (session_map m) sid = None" "mg_sessions m = Some ss"
    "check_files fs = None" "fs \<noteq> []" "distinct (map fs_ID fs)"
    "tc_ScriptPath (mg_cfg m) \<noteq> []" "set (tc_ScriptPath (mg_cfg m)) \<inter> {single_quote, comma, newline} = {}"
  shows "\<exists>m'. launch_one ctx sid fs (m, db) = (Returned (Inr ()), m', db) \<and>
    (\<exists>s. mg_started m' = mg_started m @ [s] \<and> ss_ctx s = ctx \<and> \<not> ss_stopped s \<and>
       mg_sessions m' = Some (map_put ss sid (length (mg_started m))) \<and>
       sc_ServerID (ss_cfg s) = sid \<and>
       sc_Target (ss_cfg s) = \<lparr>tg_Host = es_Hostname r, tg_Port = es_SSHPort r, tg_User = es_SSHUser r,
         tg_KeyPath = es_SSHKeyPath r\<rparr> \<and>
       sc_RemoteCommand (ss_cfg s) = ''bash -lc '' @ single_quote # tc_ScriptPath (mg_cfg m) @ space #
         join [space] ((''--files='' @ files_arg fs) #
           (if resume_args_for sid fs db = [] then []
            else [''--resume='' @ join [comma] (resume_args_for sid fs db)])) @ [single_quote])"
proof -
  obtain resume where rr: "read_resume sid fs [] db = (resume, db)"
    using read_resume_healthy [OF assms(1), of sid fs "[]"] by (metis prod.collapse)
  have parts: "resume_parts fs resume = resume_args_for sid fs db"
    using resume_parts_stored [OF assms(1,7), of sid] rr by simp
  have srv: "get_server sid db = (Inr (ent_to_server r), db)"
    using get_server_healthy [OF assms(1), of sid] assms(2) by simp
  have cmd: "build_remote_command (tc_ScriptPath (mg_cfg m)) fs resume =
      Inr (''bash -lc '' @ single_quote # tc_ScriptPath (mg_cfg m) @ space # join [space] (remote_args fs resume) @ [single_quote])"
    using assms(5,6,8,9) by (simp add: build_remote_command_def contains_any_iff)
  have args: "remote_args fs resume = (''--files='' @ files_arg fs) #
           (if resume_args_for sid fs db = [] then [] else [''--resume='' @ join [comma] (resume_args_for sid fs db)])"
    by (simp add: remote_args_def parts)
  show ?thesis
    unfolding launch_one_def using assms(3,4) srv rr cmd args
    by (simp add: Let_def start_session_def launch_config_def new_session_config_def ent_to_server_def)
qed

lemma db1_launch:
  "\<exists>m'. launch_server 0 1 (manager_example, db1) = (Returned (Inr ()), m', db1) \<and> mg_sessions m' = Some [(1, 0)]"
proof -
  let ?fs = "[\<lparr>fs_ID = ''web'', fs_Path = ''/l''\<rparr>]"
  obtain r where "server_of db1 1 = Some r" by (simp add: server_of_def db1_eq)
  moreover have chk: "check_files ?fs = None" by (simp only: check_files_None) simp
  moreover have "healthy db1" using db1_healthy by (simp add: healthy_def)
  ultimately have "\<exists>m'. launch_one 0 1 ?fs (manager_example, db1) = (Returned (Inr ()), m', db1) \<and>
      mg_sessions m' = Some (map_put [] 1 (length (mg_started manager_example)))"
    using launch_one_starts [of db1 1 r manager_example "[]" ?fs 0]
    by (simp add: session_map_def stream_config_example_def del: check_files.simps) blast
  then show ?thesis by (simp add: launch_server_def file_specs_def stream_config_example_def)
qed

theorem manager_one_session_witness:
  "\<exists>m db m' db'. manager_run (\<lambda>hs. hs) [MLaunch 0 1] (manager_example, db1) = Some (m, db) \<and> unsignalled m 1 = [0] \<and>
     manager_run (\<lambda>hs. hs) [MLaunch 0 1, MStop 0] (manager_example, db1) = Some (m', db') \<and> unsignalled m' 1 = []"
proof -
  obtain m where m: "launch_server 0 1 (manager_example, db1) = (Returned (Inr ()), m, db1)" "mg_sessions m = Some [(1, 0)]"
    using db1_launch by blast
  have run: "manager_run (\<lambda>hs. hs) [MLaunch 0 1] (manager_example, db1) = Some (m, db1)"
    "manager_run (\<lambda>hs. hs) [MLaunch 0 1, MStop 0] (manager_example, db1) =
       Some (fst (manager_stop (\<lambda>hs. hs) (\<lambda>h. None) 0 m), db1)"
    by (simp_all add: m(1))
  from manager_one_session [OF manager_example_new run(1), of 1] have "unsignalled m 1 = [0]"
    by (simp add: session_map_def m(2))
  moreover have "\<exists>t. MStop t \<in> set [MLaunch 0 1, MStop 0]" by simp
  with manager_one_session [OF manager_example_new run(2), of 1]
  have "unsignalled (fst (manager_stop (\<lambda>hs. hs) (\<lambda>h. None) 0 m)) 1 = []" by blast
  ultimately show ?thesis using run by blast
qed

section \<open>Stopping in time\<close>

lemma stop_waits_bound:
  "\<forall>d \<in> set ds. \<forall>x. d = Some x \<longrightarrow> 0 \<le> x \<Longrightarrow>
     sum_list (stop_waits timeout elapsed ds) \<le> max 0 (timeout - elapsed) + stop_floor * int (length ds)"
proof (induction ds arbitrary: elapsed)
  case (Cons d ds)
  obtain w where w: "w = (case d of None \<Rightarrow> max (timeout - elapsed) stop_floor
      | Some x \<Rightarrow> min x (max (timeout - elapsed) stop_floor))" by blast
  then have bounds: "0 \<le> w" "w \<le> max (timeout - elapsed) stop_floor"
    using Cons.prems by (auto split: option.split)
  have "sum_list (stop_waits timeout (elapsed + w) ds) \<le>
      max 0 (timeout - (elapsed + w)) + stop_floor * int (length ds)"
    using Cons.prems by (intro Cons.IH) simp
  moreover have "sum_list (stop_waits timeout elapsed (d # ds)) = w + sum_list (stop_waits timeout (elapsed + w) ds)"
    by (simp only: stop_waits.simps Let_def w [symmetric] sum_list.Cons)
  ultimately show ?case using bounds by (simp only: length_Cons of_nat_Suc distrib_left)
qed simp

text \<open>
  \<open>Stop\<close> is bounded: however long the sessions take to wind down, it waits at most the timeout and a
  tenth of a second more per session; sessions that wind down at once cost nothing, every session of the
  map is told to stop, the last flush runs exactly if \<open>Start\<close> got to its ticker, and a
  second call does nothing.
\<close>

lemma stop_bounded:
  assumes "\<forall>h x. wind h = Some x \<longrightarrow> 0 \<le> x" "\<not> mg_stopped m" "\<forall>hs. mset (order hs) = mset hs" "manager_ok m"
  shows "case manager_stop order wind timeout m of (m', waits, flushed) \<Rightarrow>
    sum_list waits \<le> max 0 timeout + stop_floor * int (length (session_map m)) \<and>
    ((\<forall>h. wind h = Some 0) \<longrightarrow> sum_list waits = 0) \<and>
    (\<forall>h < length (mg_started m'). ss_stopped (mg_started m' ! h)) \<and> flushed = (mg_tick m \<noteq> None) \<and>
    manager_stop order wind timeout m' = (m', [], False)"
proof -
  let ?hs = "order (map snd (session_map m))"
  have len: "length ?hs = length (session_map m)" using arg_cong [OF spec [OF assms(3)], of size] by simp
  obtain m' waits flushed where st: "manager_stop order wind timeout m = (m', waits, flushed)" by (metis prod_cases3)
  then have waits: "waits = stop_waits timeout 0 (map wind ?hs)" "flushed = (mg_tick m \<noteq> None)"
    using assms(2) by (auto simp: manager_stop_def Let_def)
  have "sum_list waits \<le> max 0 timeout + stop_floor * int (length (session_map m))"
    using stop_waits_bound [of "map wind ?hs" timeout 0] assms(1) by (simp add: waits(1) len)
  moreover have "sum_list (stop_waits timeout e (map wind hs)) = 0" if "\<forall>h. wind h = Some 0" for e hs
    using that by (induction hs arbitrary: e) (simp_all add: Let_def)
  moreover have ok: "manager_ok m'" "mg_stopped m'"
    using stop_keeps [OF assms(4,3), of wind timeout] st by auto
  moreover have "ss_stopped (mg_started m' ! h)" if "h < length (mg_started m')" for h
    using manager_okD(3) [OF ok(1)] manager_okD(2) [OF ok] that by (auto simp: session_map_def)
  ultimately show ?thesis by (simp add: st waits(1)) (simp add: manager_stop_def waits(2))
qed

lemma stop_bounded_witness:
  "sum_list (fst (snd (manager_stop (\<lambda>hs. hs) (\<lambda>h. None) (5 * second) manager_example))) \<le> 5 * second"
proof -
  have "manager_ok manager_example" by (rule new_manager_ok [OF manager_example_new])
  then show ?thesis
    using stop_bounded [of "\<lambda>h. None" manager_example "\<lambda>hs. hs" "5 * second"]
    by (simp add: session_map_def split: prod.splits)
qed

section \<open>Panics\<close>

lemma launch_one_no_panic:
  "mg_sessions m \<noteq> None \<Longrightarrow> \<exists>r m' db'. launch_one ctx sid fs (m, db) = (Returned r, m', db') \<and>
     mg_sessions m' \<noteq> None \<and> mg_cfg m' = mg_cfg m"
  by (auto simp: launch_one_def Let_def start_session_def split: prod.splits sum.splits)

lemma launch_all_no_panic:
  "mg_sessions m \<noteq> None \<Longrightarrow> \<exists>m' db'. launch_all ctx fs sids (m, db) = (Returned (), m', db') \<and> mg_cfg m' = mg_cfg m"
proof (induction sids arbitrary: m db)
  case (Cons sid sids)
  obtain r m1 dbx where l: "launch_one ctx sid fs (m, db) = (Returned r, m1, dbx)" "mg_sessions m1 \<noteq> None"
    "mg_cfg m1 = mg_cfg m"
    using launch_one_no_panic [OF Cons.prems, of ctx sid fs db] by blast
  from Cons.IH [OF l(2), of dbx] l show ?case by auto
qed simp

text \<open>
  C35. Where the manager panics. The sink takes a flush interval of zero or less as one second, but starting the
  manager with it panics, on every working store, when the ticker is made: the fallback comes
  after it. And once the manager is stopped, launching a server that could be launched before panics on the
  map that \<open>Stop\<close> set to nil.
\<close>

theorem manager_panics:
  assumes "new_manager c = Inr (Some m0)" "healthy db" "\<not> mg_stopped m"
  shows "(tc_FlushIntervalSeconds c \<le> 0 \<longrightarrow> kc_FlushInterval (mg_sink_cfg m0) = second) \<and>
    fst (manager_start ctx (m0, db)) =
      (if seconds (tc_FlushIntervalSeconds c) \<le> 0 then Panicked ''non-positive interval for NewTicker''
       else Returned (Inr ())) \<and>
    (map_of (session_map m) sid = None \<and> fst (launch_one ctx sid fs (m, db)) = Returned (Inr ()) \<longrightarrow>
     fst (launch_one ctx sid fs (fst (manager_stop order wind t m), db)) = Panicked ''assignment to entry in nil map'')"
proof (intro conjI)
  show "tc_FlushIntervalSeconds c \<le> 0 \<longrightarrow> kc_FlushInterval (mg_sink_cfg m0) = second"
    using assms(1) by (auto simp: new_manager_def new_sink_config_def split: option.splits if_splits)
next
  have m0: "mg_sessions m0 \<noteq> None" "mg_cfg m0 = c"
    using assms(1) by (auto simp: new_manager_def split: option.splits if_splits)
  have ls: "list_servers db = (Inr (map ent_to_server (db_servers db)), db)"
    using assms(2) by (simp add: list_servers_def healthy_def)
  obtain m1 dbx where "launch_all ctx (file_specs c) (map sv_ID (map ent_to_server (db_servers db))) (m0, db) =
      (Returned (), m1, dbx)" "mg_cfg m1 = c"
    using launch_all_no_panic [OF m0(1)] m0(2) by metis
  then show "fst (manager_start ctx (m0, db)) =
      (if seconds (tc_FlushIntervalSeconds c) \<le> 0 then Panicked ''non-positive interval for NewTicker''
       else Returned (Inr ()))"
    by (simp add: manager_start_def ls m0(2) Let_def)
next
  let ?m = "fst (manager_stop order wind t m)"
  have fields: "mg_sessions ?m = None" "mg_cfg ?m = mg_cfg m"
  proof -
    have cfg: "mg_cfg (fold stop_session hs v) = mg_cfg v" for hs v
      by (induction hs arbitrary: v) (simp_all add: stop_session_def)
    show "mg_sessions ?m = None" "mg_cfg ?m = mg_cfg m"
      using assms(3) by (simp_all add: manager_stop_def Let_def cfg)
  qed
  then show "map_of (session_map m) sid = None \<and> fst (launch_one ctx sid fs (m, db)) = Returned (Inr ()) \<longrightarrow>
     fst (launch_one ctx sid fs (?m, db)) = Panicked ''assignment to entry in nil map''"
    by (auto simp: launch_one_def session_map_def Let_def split: prod.splits sum.splits)
qed

theorem manager_panics_witness:
  "(\<exists>m. new_manager (stream_config_example\<lparr>tc_FlushIntervalSeconds := 0\<rparr>) = Inr (Some m) \<and>
      fst (manager_start 0 (m, db1)) = Panicked ''non-positive interval for NewTicker'') \<and>
   fst (launch_server 0 1 (fst (manager_stop (\<lambda>hs. hs) (\<lambda>h. None) 0 manager_example), db1)) =
     Panicked ''assignment to entry in nil map''"
proof -
  let ?c = "stream_config_example\<lparr>tc_FlushIntervalSeconds := 0\<rparr>"
  have h: "healthy db1" using db1_healthy by (simp add: healthy_def)
  have "stream_config_validate ?c = None"
    by (simp add: stream_config_validate_def stream_config_example_def trim_space_id space_edge_def)
  then obtain m where m: "new_manager ?c = Inr (Some m)"
    by (simp add: new_manager_def) (simp add: stream_config_example_def)
  have start: "fst (manager_start 0 (m, db1)) = Panicked ''non-positive interval for NewTicker''"
    using manager_panics [OF m h, of manager_example 0] by (simp add: seconds_def wrap64_def)
  let ?stopped = "fst (manager_stop (\<lambda>hs. hs) (\<lambda>h. None) 0 manager_example)"
  have cfg: "mg_cfg ?stopped = stream_config_example" by (simp add: manager_stop_def session_map_def)
  obtain m1 where "launch_server 0 1 (manager_example, db1) = (Returned (Inr ()), m1, db1)" using db1_launch by blast
  then have "fst (launch_one 0 1 (file_specs stream_config_example) (manager_example, db1)) = Returned (Inr ())"
    by (simp add: launch_server_def)
  with manager_panics [OF manager_example_new h, of manager_example 0 1 "file_specs stream_config_example"
      "\<lambda>hs. hs" "\<lambda>h. None" 0]
  have "fst (launch_one 0 1 (file_specs stream_config_example) (?stopped, db1)) = Panicked ''assignment to entry in nil map''"
    by (simp add: session_map_def)
  with start m show ?thesis unfolding launch_server_def by (simp add: cfg)
qed

end
