(* ===== verification/Stream_Restart.thy ===== *)
theory Stream_Restart
  imports Stream_Flow Stream_Manager
begin

text \<open>
  A restart of the program after lines were streamed: the manager (\<open>internal/streamer/manager.go\<close>)
  launches a session from the cursors that the sink's flushes left in the store.
\<close>

section \<open>The manager's paths\<close>

lemma path_by_id_fold:
  "distinct (map fc_ID fs) \<Longrightarrow> f \<in> set fs \<Longrightarrow>
     map_of (fold (\<lambda>f m. map_put m (fc_ID f) (fc_Path f)) fs acc) (fc_ID f) = Some (fc_Path f)"
proof (induction fs arbitrary: acc)
  case (Cons g fs)
  have keep: "i \<notin> fc_ID ` set gs \<Longrightarrow> map_of (fold (\<lambda>f m. map_put m (fc_ID f) (fc_Path f)) gs acc) i = map_of acc i" for i gs acc
    by (induction gs arbitrary: acc) auto
  show ?case
  proof (cases "f = g")
    case True
    then show ?thesis using Cons.prems(1) by (simp add: keep)
  next
    case False
    then show ?thesis using Cons by simp
  qed
qed simp

lemma new_manager_fields:
  assumes "new_manager cfg = Inr (Some m)"
  shows "mg_cfg m = cfg" "mg_sessions m = Some []" "mg_started m = []" "mg_pathByID m = path_by_id cfg"
    "tc_ScriptPath cfg \<noteq> []" "file_specs cfg \<noteq> []"
  using assms by (auto simp: new_manager_def stream_config_validate_def file_specs_def split: option.splits if_splits)

lemma manager_resolver_path:
  assumes "new_manager cfg = Inr (Some m)" "distinct (map fs_ID (file_specs cfg))" "f \<in> set (file_specs cfg)"
  shows "manager_resolver m sid (fs_ID f) = Some (fs_Path f)"
  using assms(2,3) path_by_id_fold [of "tc_Files cfg" _ "[]"]
  by (auto simp: manager_resolver_def new_manager_fields(4) [OF assms(1)] path_by_id_def file_specs_def comp_def)

section \<open>Resuming after what was flushed\<close>

text \<open>The arguments of a session that resumes after the given lines.\<close>

definition resume_after :: "(string \<Rightarrow> int) \<Rightarrow> (string \<times> string) list \<Rightarrow> file_spec list \<Rightarrow> string list" where
  "resume_after start fls fs = map (\<lambda>f. fs_ID f @ CHR 0x3A # format_int (start (fs_ID f) + line_bytes fls (fs_ID f)))
     (filter (\<lambda>f. start (fs_ID f) + line_bytes fls (fs_ID f) > 0) fs)"

lemma resume_args_settled:
  assumes "\<And>f. f \<in> set fs \<Longrightarrow> stored_offset get_log_cursor sid (fs_Path f) db = start (fs_ID f) + line_bytes fls (fs_ID f)"
  shows "resume_args_for sid fs db = resume_after start fls fs"
  unfolding resume_args_for_def resume_after_def using assms by (auto intro!: map_cong filter_cong)

text \<open>
  C9. A restart goes on from what Loki accepted. After any session whose lines reached Loki by a successful
  flush, a manager made from the same configuration launches a session whose script is told, for every
  file, the stored cursor of before plus the bytes of the accepted lines. Where there was no cursor the
  count starts at zero, wherever the script began to read.
\<close>

theorem restart_resumes:
  assumes "sc_RemoteCommand c \<noteq> []" "is_ok (at_open a)" "\<forall>fl \<in> set fls. sendable (sc_MaxLineBytes c) fl"
    "at_bytes a = script_output fls" "fst ` set fls \<subseteq> fs_ID ` set (file_specs cfg)"
    "stream_fresh env (sc_ServerID c) (fs_ID ` set (file_specs cfg)) w"
    "\<forall>fid \<in> fs_ID ` set (file_specs cfg). 0 \<le> cursor_of env (sw_db w) (sc_ServerID c, fid) \<and>
       cursor_of env (sw_db w) (sc_ServerID c, fid) + line_bytes fls fid < 2 ^ 63"
    "sink_flush env now (handle_calls env clock (snd (run_once c a)) w) = (None, w2)"
    "new_manager cfg = Inr (Some m)" "se_resolver env = manager_resolver m" "distinct (map fs_ID (file_specs cfg))"
    "check_files (file_specs cfg) = None" "set (tc_ScriptPath cfg) \<inter> {single_quote, comma, newline} = {}"
  shows "\<exists>m' s. launch_server ctx (sc_ServerID c) (m, sw_db w2) = (Returned (Inr ()), m', sw_db w2) \<and>
    mg_started m' = [s] \<and> sc_ServerID (ss_cfg s) = sc_ServerID c \<and>
    sc_RemoteCommand (ss_cfg s) = ''bash -lc '' @ single_quote # tc_ScriptPath cfg @ space #
      join [space] ((''--files='' @ files_arg (file_specs cfg)) #
        (let rs = resume_after (\<lambda>fid. cursor_of env (sw_db w) (sc_ServerID c, fid)) fls (file_specs cfg) in
         if rs = [] then [] else [''--resume='' @ join [comma] rs])) @ [single_quote]"
proof -
  let ?sid = "sc_ServerID c" and ?fs = "file_specs cfg" and ?cs = "snd (run_once c a)"
  note man = new_manager_fields [OF assms(9)]
  note calls = script_call_facts [OF assms(1-5)]
  have fit: "\<forall>fid \<in> fs_ID ` set ?fs. 0 \<le> cursor_of env (sw_db w) (?sid, fid) \<and>
      cursor_of env (sw_db w) (?sid, fid) + entry_bytes (calls_entries ?cs (?sid, fid)) < 2 ^ 63"
    unfolding calls(1) line_entries_bytes by (rule assms(7))
  have tr: "tracked env (Pair ?sid ` fs_ID ` set ?fs) (cursor_of env (sw_db w)) (calls_entries ?cs) w2"
    using fresh_calls_tracked(2) [OF assms(6) calls(2) fit assms(8)] by blast
  have "stored_offset get_log_cursor ?sid (fs_Path f) (sw_db w2) =
      cursor_of env (sw_db w) (?sid, fs_ID f) + line_bytes fls (fs_ID f)" if f: "f \<in> set ?fs" for f
    using fresh_account(3) [OF assms(6) calls(2) fit imageI [OF f] assms(8)] manager_resolver_path [OF assms(9,11) f, of ?sid]
    unfolding calls(1) line_entries_bytes by (simp add: cursor_of_def assms(10))
  then have args: "resume_args_for ?sid ?fs (sw_db w2) = resume_after (\<lambda>fid. cursor_of env (sw_db w) (?sid, fid)) fls ?fs"
    by (rule resume_args_settled)
  have "?sid \<in> es_ID ` set (db_servers (sw_db w2))" using trackedD(3) [OF tr] man(6) by (cases ?fs) auto
  then obtain r where r: "server_of (sw_db w2) ?sid = Some r"
    by (cases "server_of (sw_db w2) ?sid") (auto simp: server_of_def find_None_iff)
  have "map_of (session_map m) ?sid = None" by (simp add: session_map_def man(2))
  note start = launch_one_starts [OF trackedD(1) [OF tr] r this man(2) assms(12) man(6) assms(11), of ctx, unfolded man(1) args,
      OF man(5) assms(13)]
  obtain m' s where "launch_one ctx ?sid ?fs (m, sw_db w2) = (Returned (Inr ()), m', sw_db w2)" "mg_started m' = mg_started m @ [s]"
    "sc_ServerID (ss_cfg s) = ?sid" and cmd: "sc_RemoteCommand (ss_cfg s) = ''bash -lc '' @ single_quote # tc_ScriptPath cfg @ space #
      join [space] ((''--files='' @ files_arg ?fs) #
        (if resume_after (\<lambda>fid. cursor_of env (sw_db w) (?sid, fid)) fls ?fs = [] then []
         else [''--resume='' @ join [comma] (resume_after (\<lambda>fid. cursor_of env (sw_db w) (?sid, fid)) fls ?fs)])) @ [single_quote]"
    using start by blast
  then have "launch_server ctx ?sid (m, sw_db w2) = (Returned (Inr ()), m', sw_db w2)" "mg_started m' = [s]"
    "sc_ServerID (ss_cfg s) = ?sid"
    by (simp_all add: launch_server_def man)
  with cmd show ?thesis unfolding Let_def by blast
qed

text \<open>The example of \<open>streamed_lines_accounted\<close>, with the manager's own paths.\<close>

definition restart_env :: sink_env where
  "restart_env = sink_env_example\<lparr>se_resolver := manager_resolver manager_example\<rparr>"

theorem restart_resumes_witness:
  "\<exists>w2 m' s. sink_flush restart_env 0 (handle_calls restart_env (\<lambda>i. 0)
       (snd (run_once session_example (read_example [get_line, post_line]))) fresh_example) = (None, w2) \<and>
     launch_server 0 1 (manager_example, sw_db w2) = (Returned (Inr ()), m', sw_db w2) \<and> mg_started m' = [s] \<and>
     sc_RemoteCommand (ss_cfg s) = ''bash -lc '' @ single_quote # ''/s --files=web:/l --resume=web:13'' @ [single_quote]"
proof -
  have ok: "sc_RemoteCommand session_example \<noteq> []" "is_ok (at_open (read_example fls))"
    "at_bytes (read_example fls) = script_output fls" for fls
    by (simp_all add: session_example_def read_example_def refused_def)
  have sid: "sc_ServerID session_example = 1" by (simp add: session_example_def)
  have fs: "file_specs stream_config_example = [\<lparr>fs_ID = ''web'', fs_Path = ''/l''\<rparr>]"
    by (simp add: file_specs_def stream_config_example_def)
  have path: "manager_resolver manager_example i ''web'' = Some ''/l''" for i
    using manager_resolver_path [OF manager_example_new, of "\<lparr>fs_ID = ''web'', fs_Path = ''/l''\<rparr>" i] by (simp add: fs)
  have files: "fst ` set [get_line, post_line] \<subseteq> fs_ID ` set (file_specs stream_config_example)" by (simp add: fs)
  have cur: "cursor_of restart_env db1 (1, ''web'') = 0" by (simp add: cursor_of_def db1_healthy_now)
  have fresh: "stream_fresh restart_env (sc_ServerID session_example) (fs_ID ` set (file_specs stream_config_example)) fresh_example"
    using db1_healthy_now
    by (simp add: sid fs stream_fresh_def fresh_example_def routed_def restart_env_def sink_env_example_def is_int64_def path)
  have bytes: "line_bytes [get_line, post_line] ''web'' = 13" by (simp add: line_bytes_def drop_cr_def)
  have room: "\<forall>fid \<in> fs_ID ` set (file_specs stream_config_example).
      0 \<le> cursor_of restart_env (sw_db fresh_example) (sc_ServerID session_example, fid) \<and>
      cursor_of restart_env (sw_db fresh_example) (sc_ServerID session_example, fid) + line_bytes [get_line, post_line] fid < 2 ^ 63"
    by (simp add: fs sid fresh_example_ok cur bytes)
  have loki: "se_loki restart_env n s = Inr ()" for n s by (simp add: restart_env_def sink_env_example_def)
  let ?w1 = "handle_calls restart_env (\<lambda>i. 0) (snd (run_once session_example (read_example [get_line, post_line]))) fresh_example"
  obtain w2 where f: "sink_flush restart_env 0 ?w1 = (None, w2)"
    by (cases "sink_flush restart_env 0 ?w1") (auto simp: sink_flush_def loki Let_def split: prod.splits if_splits)
  have res: "se_resolver restart_env = manager_resolver manager_example" by (simp add: restart_env_def)
  have d: "distinct (map fs_ID (file_specs stream_config_example))" by (simp add: fs)
  have chk: "check_files (file_specs stream_config_example) = None" unfolding fs by (simp only: check_files_None) simp
  have scr: "set (tc_ScriptPath stream_config_example) \<inter> {single_quote, comma, newline} = {}"
    "tc_ScriptPath stream_config_example = ''/s''"
    by (simp_all add: stream_config_example_def)
  have thirteen: "format_int 13 = ''13''" by (simp add: format_int_def dec_nat.simps digit_char_def) code_simp
  have rs: "resume_after (\<lambda>fid. cursor_of restart_env (sw_db fresh_example) (1, fid)) [get_line, post_line]
      (file_specs stream_config_example) = [''web:13'']"
    by (simp add: resume_after_def fs fresh_example_ok cur bytes thirteen)
  have "join [space] [''--files='' @ files_arg (file_specs stream_config_example), ''--resume='' @ join [comma] [''web:13'']] =
      ''--files=web:/l --resume=web:13''"
    by (simp add: files_arg_def fs)
  with restart_resumes [OF ok(1,2) example_sendable ok(3) files fresh room f manager_example_new res d chk scr(1), of 0] f
  show ?thesis by (simp add: sid scr(2) rs Let_def) blast
qed

end
