(* ===== verification/Scheduler.thy ===== *)
theory Scheduler
  imports Go_Prelude
begin

text \<open>
  internal/scheduler/scheduler.go: the registry of keyed cron entries and the goroutines that run the
  fired jobs behind a semaphore. The cron library is a parameter: its operations on a table of
  entries, with what its documentation says of them as \<open>cron_laws\<close>. A job's closure is a value of
  type \<open>'j\<close>. The goroutines are steps of an inductive relation.
\<close>

section \<open>The cron library\<close>

record ('j, 'c) cron_ops =
  cr_parse :: "string \<Rightarrow> unit result"
  cr_add :: "string \<Rightarrow> 'j \<Rightarrow> 'c \<Rightarrow> nat result \<times> 'c"
  cr_remove :: "nat \<Rightarrow> 'c \<Rightarrow> 'c"
  cr_table :: "'c \<Rightarrow> nat \<Rightarrow> (string \<times> 'j) option"

text \<open>Adding fails, and changes nothing, exactly for a spec that does not parse; otherwise it makes a new
  entry. Removing an entry leaves the others.\<close>

definition cron_laws :: "('j, 'c) cron_ops \<Rightarrow> bool" where
  "cron_laws ops \<longleftrightarrow>
     (\<forall>spec j c. case cr_add ops spec j c of
        (Inl e, c') \<Rightarrow> cr_parse ops spec = Inl e \<and> cr_table ops c' = cr_table ops c
      | (Inr i, c') \<Rightarrow> is_ok (cr_parse ops spec) \<and> cr_table ops c i = None \<and>
          cr_table ops c' = (cr_table ops c)(i \<mapsto> (spec, j))) \<and>
     (\<forall>i c. cr_table ops (cr_remove ops i c) = (cr_table ops c)(i := None))"

section \<open>The scheduler\<close>

record ('j, 'c) scheduler =
  sd_cron :: 'c
  sd_entries :: "(int \<times> nat) list"
  sd_slots :: int
  sd_timeout :: duration
  sd_started :: bool
  sd_cancelled :: bool
  sd_cronStopped :: bool
  sd_waiting :: "'j list"
  sd_running :: "'j list"

definition new_scheduler :: "int \<Rightarrow> duration \<Rightarrow> 'c \<Rightarrow> ('j, 'c) scheduler" where
  "new_scheduler maxParallel perJobTimeout c =
     \<lparr>sd_cron = c, sd_entries = [], sd_slots = (if maxParallel < 1 then 1 else maxParallel),
      sd_timeout = (if perJobTimeout < second then second else perJobTimeout),
      sd_started = False, sd_cancelled = False, sd_cronStopped = False, sd_waiting = [], sd_running = []\<rparr>"

definition add_error :: "string \<Rightarrow> go_error \<Rightarrow> go_error" where
  "add_error spec e = wrap_error (''scheduler: add '' @ go_quote spec @ '': '') e"

definition add_job ::
  "('j, 'c) cron_ops \<Rightarrow> string \<Rightarrow> 'j \<Rightarrow> ('j, 'c) scheduler \<Rightarrow> unit result \<times> ('j, 'c) scheduler" where
  "add_job ops spec j s =
     (case cr_add ops spec j (sd_cron s) of
        (Inl e, c) \<Rightarrow> (Inl (add_error spec e), s\<lparr>sd_cron := c\<rparr>)
      | (Inr i, c) \<Rightarrow> (Inr (), s\<lparr>sd_cron := c\<rparr>))"

definition remove_keyed :: "('j, 'c) cron_ops \<Rightarrow> int \<Rightarrow> ('j, 'c) scheduler \<Rightarrow> ('j, 'c) scheduler" where
  "remove_keyed ops key s =
     (case map_of (sd_entries s) key of
        None \<Rightarrow> s
      | Some i \<Rightarrow> s\<lparr>sd_cron := cr_remove ops i (sd_cron s), sd_entries := AList.delete key (sd_entries s)\<rparr>)"

definition add_keyed ::
  "('j, 'c) cron_ops \<Rightarrow> int \<Rightarrow> string \<Rightarrow> 'j \<Rightarrow> ('j, 'c) scheduler \<Rightarrow> unit result \<times> ('j, 'c) scheduler" where
  "add_keyed ops key spec j s =
     (let s1 = (case map_of (sd_entries s) key of
                  None \<Rightarrow> s
                | Some old \<Rightarrow> s\<lparr>sd_cron := cr_remove ops old (sd_cron s), sd_entries := AList.delete key (sd_entries s)\<rparr>)
      in case cr_add ops spec j (sd_cron s1) of
           (Inl e, c) \<Rightarrow> (Inl (add_error spec e), s1\<lparr>sd_cron := c\<rparr>)
         | (Inr i, c) \<Rightarrow> (Inr (), s1\<lparr>sd_cron := c, sd_entries := map_put (sd_entries s1) key i\<rparr>))"

definition scheduler_start :: "('j, 'c) scheduler \<Rightarrow> ('j, 'c) scheduler" where
  "scheduler_start s = s\<lparr>sd_started := True\<rparr>"

text \<open>\<open>Stop\<close> up to its wait, and what the wait then yields: done once no goroutine is left, the
  context's error when that expires first, and nothing as long as it blocks.\<close>

definition stop_begin :: "('j, 'c) scheduler \<Rightarrow> ('j, 'c) scheduler" where
  "stop_begin s = s\<lparr>sd_cancelled := True, sd_cronStopped := True\<rparr>"

definition stop_wait :: "go_error option \<Rightarrow> ('j, 'c) scheduler \<Rightarrow> unit result option" where
  "stop_wait ctx_err s =
     (if sd_waiting s = [] \<and> sd_running s = [] then Some (Inr ())
      else map_option (\<lambda>e. Inl (wrap_error ''scheduler: stop: '' e)) ctx_err)"

section \<open>Goroutines\<close>

text \<open>The steps of \<open>runOnce\<close>: a started cron loop fires an entry; a goroutine takes a free slot,
  or gives up when the scheduler is stopping; a job returns and frees its slot. A waiting goroutine may
  also take a slot while the scheduler is stopping: \<open>select\<close> picks either.\<close>

inductive job_step :: "('j, 'c) scheduler \<Rightarrow> ('j, 'c) scheduler \<Rightarrow> bool" where
  Acquire: "sd_waiting s = w1 @ j # w2 \<Longrightarrow> int (length (sd_running s)) < sd_slots s \<Longrightarrow>
     job_step s (s\<lparr>sd_waiting := w1 @ w2, sd_running := sd_running s @ [j]\<rparr>)"
| Bail: "sd_waiting s = w1 @ j # w2 \<Longrightarrow> sd_cancelled s \<Longrightarrow> job_step s (s\<lparr>sd_waiting := w1 @ w2\<rparr>)"
| Finish: "sd_running s = r1 @ j # r2 \<Longrightarrow> job_step s (s\<lparr>sd_running := r1 @ r2\<rparr>)"

inductive sched_step :: "('j, 'c) cron_ops \<Rightarrow> ('j, 'c) scheduler \<Rightarrow> ('j, 'c) scheduler \<Rightarrow> bool" for ops where
  Fire: "cr_table ops (sd_cron s) i = Some (spec, j) \<Longrightarrow> sd_started s \<Longrightarrow> \<not> sd_cronStopped s \<Longrightarrow>
     sched_step ops s (s\<lparr>sd_waiting := sd_waiting s @ [j]\<rparr>)"
| Job: "job_step s s' \<Longrightarrow> sched_step ops s s'"
| Add: "sched_step ops s (snd (add_job ops spec j s))"
| AddKeyed: "sched_step ops s (snd (add_keyed ops key spec j s))"
| RemoveKeyed: "sched_step ops s (remove_keyed ops key s)"
| Start: "sched_step ops s (scheduler_start s)"
| Cancel: "sched_step ops s (s\<lparr>sd_cancelled := True\<rparr>)"
| Stop: "sched_step ops s (stop_begin s)"

inductive_cases job_stepE: "job_step s s'"

section \<open>The registry\<close>

definition scheduled :: "('j, 'c) cron_ops \<Rightarrow> ('j, 'c) scheduler \<Rightarrow> int \<Rightarrow> (string \<times> 'j) option" where
  "scheduled ops s key = Option.bind (map_of (sd_entries s) key) (cr_table ops (sd_cron s))"

definition registry_ok :: "('j, 'c) cron_ops \<Rightarrow> ('j, 'c) scheduler \<Rightarrow> bool" where
  "registry_ok ops s \<longleftrightarrow> is_map (sd_entries s) \<and>
     (\<forall>k k' i. map_of (sd_entries s) k = Some i \<and> map_of (sd_entries s) k' = Some i \<longrightarrow> k = k') \<and>
     (\<forall>k i. map_of (sd_entries s) k = Some i \<longrightarrow> cr_table ops (sd_cron s) i \<noteq> None)"

text \<open>Every entry of the cron table belongs to a key.\<close>

definition all_keyed :: "('j, 'c) cron_ops \<Rightarrow> ('j, 'c) scheduler \<Rightarrow> bool" where
  "all_keyed ops s \<longleftrightarrow> (\<forall>i. cr_table ops (sd_cron s) i \<noteq> None \<longrightarrow> (\<exists>k. map_of (sd_entries s) k = Some i))"

lemma cron_removeD: "cron_laws ops \<Longrightarrow> cr_table ops (cr_remove ops i c) = (cr_table ops c)(i := None)"
  unfolding cron_laws_def by blast

lemma cron_addD:
  assumes "cron_laws ops" "cr_add ops spec j c = (r, c')"
  shows "case r of Inl e \<Rightarrow> cr_parse ops spec = Inl e \<and> cr_table ops c' = cr_table ops c
     | Inr i \<Rightarrow> is_ok (cr_parse ops spec) \<and> cr_table ops c i = None \<and> cr_table ops c' = (cr_table ops c)(i \<mapsto> (spec, j))"
proof -
  have "case cr_add ops spec j c of
        (Inl e, c') \<Rightarrow> cr_parse ops spec = Inl e \<and> cr_table ops c' = cr_table ops c
      | (Inr i, c') \<Rightarrow> is_ok (cr_parse ops spec) \<and> cr_table ops c i = None \<and>
          cr_table ops c' = (cr_table ops c)(i \<mapsto> (spec, j))"
    by (rule assms(1) [unfolded cron_laws_def, THEN conjunct1, THEN spec, THEN spec, THEN spec])
  then show ?thesis by (simp add: assms(2) split: sum.splits)
qed

lemma registry_okD:
  assumes "registry_ok ops s"
  shows "is_map (sd_entries s)" "map_of (sd_entries s) k = Some i \<Longrightarrow> cr_table ops (sd_cron s) i \<noteq> None"
    "map_of (sd_entries s) k = Some i \<Longrightarrow> map_of (sd_entries s) k' = Some i \<Longrightarrow> k = k'"
  using assms unfolding registry_ok_def by blast+

lemma remove_keyed_spec:
  assumes "cron_laws ops" "registry_ok ops s"
  shows "registry_ok ops (remove_keyed ops key s) \<and> scheduled ops (remove_keyed ops key s) = (scheduled ops s)(key := None) \<and>
    (all_keyed ops s \<longrightarrow> all_keyed ops (remove_keyed ops key s)) \<and> map_of (sd_entries (remove_keyed ops key s)) key = None"
proof (cases "map_of (sd_entries s) key")
  case None
  then show ?thesis using assms by (auto simp: remove_keyed_def scheduled_def fun_eq_iff)
next
  case (Some i)
  note ok = registry_okD [OF assms(2)]
  have other: "map_of (sd_entries s) k = Some i \<Longrightarrow> k = key" for k using ok(3) [OF Some, of k] by blast
  have del: "map_of (AList.delete key (sd_entries s)) k = (if k = key then None else map_of (sd_entries s) k)" for k
    by (simp add: delete_conv')
  have "is_map (AList.delete key (sd_entries s))" using ok(1) by (simp add: is_map_def distinct_delete)
  then have "registry_ok ops (remove_keyed ops key s)"
    using ok other unfolding registry_ok_def
    by (auto simp: remove_keyed_def Some del cron_removeD [OF assms(1)] split: if_splits)
  moreover have "scheduled ops (remove_keyed ops key s) k = ((scheduled ops s)(key := None)) k" for k
    using other [of k]
    by (cases "map_of (sd_entries s) k") (auto simp: remove_keyed_def Some scheduled_def del cron_removeD [OF assms(1)])
  moreover have "all_keyed ops s \<Longrightarrow> all_keyed ops (remove_keyed ops key s)"
    unfolding all_keyed_def remove_keyed_def Some by (auto simp: del cron_removeD [OF assms(1)]) (metis Some option.inject)
  ultimately show ?thesis by (auto simp: remove_keyed_def Some del)
qed

lemma add_keyed_remove:
  "add_keyed ops key spec j s =
     (let s1 = remove_keyed ops key s in
      case cr_add ops spec j (sd_cron s1) of
        (Inl e, c) \<Rightarrow> (Inl (add_error spec e), s1\<lparr>sd_cron := c\<rparr>)
      | (Inr i, c) \<Rightarrow> (Inr (), s1\<lparr>sd_cron := c, sd_entries := map_put (sd_entries s1) key i\<rparr>))"
  by (simp add: add_keyed_def remove_keyed_def)

lemma add_keyed_spec:
  assumes "cron_laws ops" "registry_ok ops s" "add_keyed ops key spec j s = (r, s')"
  shows "registry_ok ops s' \<and> is_ok r = is_ok (cr_parse ops spec) \<and>
    scheduled ops s' = (scheduled ops s)(key := if is_ok r then Some (spec, j) else None) \<and>
    (all_keyed ops s \<longrightarrow> all_keyed ops s')"
proof -
  let ?s1 = "remove_keyed ops key s"
  note rk = remove_keyed_spec [OF assms(1,2), of key]
  then have ok1: "registry_ok ops ?s1" by blast
  note ok = registry_okD [OF ok1]
  obtain x c where add: "cr_add ops spec j (sd_cron ?s1) = (x, c)" by (metis surj_pair)
  note law = cron_addD [OF assms(1) add]
  show ?thesis
  proof (cases x)
    case (Inl e)
    then have s': "s' = ?s1\<lparr>sd_cron := c\<rparr>" "r = Inl (add_error spec e)"
      using assms(3) add by (simp_all add: add_keyed_remove Let_def)
    have t: "cr_table ops c = cr_table ops (sd_cron ?s1)" "cr_parse ops spec = Inl e" using law Inl by simp_all
    then have "registry_ok ops s'" "scheduled ops s' = scheduled ops ?s1" "all_keyed ops s' = all_keyed ops ?s1"
      using ok1 by (simp_all add: s' registry_ok_def scheduled_def [abs_def] all_keyed_def)
    with rk t show ?thesis by (simp add: s')
  next
    case (Inr i)
    then have s': "s' = ?s1\<lparr>sd_cron := c, sd_entries := map_put (sd_entries ?s1) key i\<rparr>" "r = Inr ()"
      using assms(3) add by (simp_all add: add_keyed_remove Let_def)
    have t: "cr_table ops c = (cr_table ops (sd_cron ?s1))(i \<mapsto> (spec, j))" "is_ok (cr_parse ops spec)"
      "cr_table ops (sd_cron ?s1) i = None" using law Inr by simp_all
    have fresh: "map_of (sd_entries ?s1) k \<noteq> Some i" for k using ok(2) [of k i] t(3) by blast
    have "registry_ok ops s'"
      using ok fresh unfolding registry_ok_def by (auto simp: s' t split: if_splits)
    moreover have "scheduled ops s' k = ((scheduled ops s)(key := Some (spec, j))) k" for k
      using fresh [of k] rk
      by (cases "map_of (sd_entries ?s1) k") (auto simp: s' t scheduled_def fun_eq_iff split: if_splits)
    moreover have "all_keyed ops s \<Longrightarrow> all_keyed ops s'"
    proof -
      assume all: "all_keyed ops s"
      have "\<exists>k. map_of (sd_entries s') k = Some a" if "cr_table ops (sd_cron s') a \<noteq> None" for a
      proof (cases "a = i")
        case False
        with that have "cr_table ops (sd_cron ?s1) a \<noteq> None" by (simp add: s' t)
        with rk all obtain k where k: "map_of (sd_entries ?s1) k = Some a" unfolding all_keyed_def by blast
        with rk have "k \<noteq> key" by auto
        with k have "map_of (sd_entries s') k = Some a" by (simp add: s')
        then show ?thesis by blast
      qed (auto simp: s')
      then show "all_keyed ops s'" unfolding all_keyed_def by blast
    qed
    ultimately show ?thesis using t(2) by (auto simp: s')
  qed
qed

text \<open>The registry as a map from keys to jobs.\<close>

datatype 'j registry_call = RAdd int string 'j | RRemove int

fun registry_step :: "('j, 'c) cron_ops \<Rightarrow> 'j registry_call \<Rightarrow> ('j, 'c) scheduler \<Rightarrow> ('j, 'c) scheduler" where
  "registry_step ops (RAdd key spec j) s = snd (add_keyed ops key spec j s)"
| "registry_step ops (RRemove key) s = remove_keyed ops key s"

fun map_step :: "(string \<Rightarrow> bool) \<Rightarrow> 'j registry_call \<Rightarrow> (int \<rightharpoonup> string \<times> 'j) \<Rightarrow> int \<rightharpoonup> string \<times> 'j" where
  "map_step valid (RAdd key spec j) m = m(key := if valid spec then Some (spec, j) else None)"
| "map_step valid (RRemove key) m = m(key := None)"

abbreviation parses :: "('j, 'c) cron_ops \<Rightarrow> string \<Rightarrow> bool" where
  "parses ops spec \<equiv> is_ok (cr_parse ops spec)"

lemma registry_step_refines:
  assumes "cron_laws ops" "registry_ok ops s" "all_keyed ops s"
  shows "registry_ok ops (registry_step ops c s) \<and> all_keyed ops (registry_step ops c s) \<and>
    scheduled ops (registry_step ops c s) = map_step (parses ops) c (scheduled ops s)"
proof (cases c)
  case (RAdd key spec j)
  obtain r s' where "add_keyed ops key spec j s = (r, s')" by (metis surj_pair)
  with add_keyed_spec [OF assms(1,2) this] assms(3) show ?thesis by (simp add: RAdd)
next
  case (RRemove key)
  then show ?thesis using remove_keyed_spec [OF assms(1,2), of key] assms(3) by simp
qed

lemma registry_run_refines:
  assumes "cron_laws ops"
  shows "registry_ok ops s \<Longrightarrow> all_keyed ops s \<Longrightarrow>
    registry_ok ops (fold (registry_step ops) cs s) \<and> all_keyed ops (fold (registry_step ops) cs s) \<and>
    scheduled ops (fold (registry_step ops) cs s) = fold (map_step (parses ops)) cs (scheduled ops s)"
proof (induction cs arbitrary: s)
  case (Cons c cs)
  note step = registry_step_refines [OF assms Cons.prems, of c]
  with Cons.IH [of "registry_step ops c s"] show ?case by simp
qed simp

lemma new_scheduler_registry:
  "cr_table ops c = Map.empty \<Longrightarrow> registry_ok ops (new_scheduler n t c) \<and> all_keyed ops (new_scheduler n t c) \<and>
     scheduled ops (new_scheduler n t c) = Map.empty"
  by (auto simp: registry_ok_def all_keyed_def scheduled_def [abs_def] new_scheduler_def)

text \<open>
  C13. The registry refines a map from keys to jobs. After any sequence of keyed adds and removals on a
  library that obeys its documentation, the job a key fires is the one last added for it,
  unless it was removed since or its re-adding failed, which drops the old entry too; and the cron
  table holds exactly one entry for each key of that map and nothing else, so that no server
  is polled twice and no removed one is polled at all.
\<close>

theorem registry_refines_map:
  assumes "cron_laws ops" "cr_table ops c = Map.empty"
  shows "let s = fold (registry_step ops) cs (new_scheduler n t c) in
    scheduled ops s = fold (map_step (parses ops)) cs Map.empty \<and>
    (\<forall>i p. cr_table ops (sd_cron s) i = Some p \<longleftrightarrow> (\<exists>!key. map_of (sd_entries s) key = Some i) \<and>
       (\<exists>key. map_of (sd_entries s) key = Some i \<and> scheduled ops s key = Some p))"
proof -
  let ?s = "fold (registry_step ops) cs (new_scheduler n t c)"
  note new = new_scheduler_registry [OF assms(2), of n t]
  have run: "registry_ok ops ?s" "all_keyed ops ?s" "scheduled ops ?s = fold (map_step (parses ops)) cs Map.empty"
    using registry_run_refines [OF assms(1), of "new_scheduler n t c" cs] new by simp_all
  have "cr_table ops (sd_cron ?s) i = Some p \<longleftrightarrow> (\<exists>!key. map_of (sd_entries ?s) key = Some i) \<and>
       (\<exists>key. map_of (sd_entries ?s) key = Some i \<and> scheduled ops ?s key = Some p)" for i p
  proof
    assume t: "cr_table ops (sd_cron ?s) i = Some p"
    then obtain key where key: "map_of (sd_entries ?s) key = Some i" using run(2) unfolding all_keyed_def by blast
    then have "scheduled ops ?s key = Some p" by (simp add: scheduled_def t)
    with key registry_okD(3) [OF run(1)] show "(\<exists>!key. map_of (sd_entries ?s) key = Some i) \<and>
       (\<exists>key. map_of (sd_entries ?s) key = Some i \<and> scheduled ops ?s key = Some p)" by blast
  next
    assume "(\<exists>!key. map_of (sd_entries ?s) key = Some i) \<and>
       (\<exists>key. map_of (sd_entries ?s) key = Some i \<and> scheduled ops ?s key = Some p)"
    then show "cr_table ops (sd_cron ?s) i = Some p" by (auto simp: scheduled_def)
  qed
  with run(3) show ?thesis unfolding Let_def by blast
qed

text \<open>A cron library for examples: a counter and a list of entries; the empty spec does not parse.\<close>

definition cron_example :: "('j, nat \<times> (nat \<times> string \<times> 'j) list) cron_ops" where
  "cron_example =
     \<lparr>cr_parse = (\<lambda>spec. if spec = [] then Inl (new_error ''empty spec string'') else Inr ()),
      cr_add = (\<lambda>spec j (n, es). if spec = [] then (Inl (new_error ''empty spec string''), (n, es))
        else (Inr n, (n + 1, (n, spec, j) # es))),
      cr_remove = (\<lambda>i (n, es). (n, filter (\<lambda>e. fst e \<noteq> i) es)),
      cr_table = (\<lambda>(n, es) i. if i < n then map_of es i else None)\<rparr>"

lemma map_of_filter_ne: "map_of (filter (\<lambda>e. fst e \<noteq> i) es) = (map_of es)(i := None)"
  by (induction es) (auto simp: fun_eq_iff)

lemma cron_example_laws: "cron_laws cron_example"
  unfolding cron_laws_def cron_example_def
  by (auto simp: fun_eq_iff map_of_filter_ne)

theorem registry_refines_map_witness:
  "scheduled cron_example (fold (registry_step cron_example)
     [RAdd 1 ''@every 900s'' (7::nat), RAdd 2 ''@every 900s'' 8, RAdd 1 ''@every 60s'' 9, RAdd 2 [] 8]
     (new_scheduler 10 second (0, []))) = [1 \<mapsto> (''@every 60s'', 9)]"
proof -
  have "cr_table cron_example (0, []) = Map.empty" by (auto simp: cron_example_def)
  from registry_refines_map [OF cron_example_laws this, of
      "[RAdd 1 ''@every 900s'' (7::nat), RAdd 2 ''@every 900s'' 8, RAdd 1 ''@every 60s'' 9, RAdd 2 [] 8]" 10 second]
  show ?thesis by (simp add: Let_def cron_example_def fun_eq_iff)
qed

section \<open>Parallelism and shutdown\<close>

lemma sched_fields [simp]:
  "sd_waiting (snd (add_job ops spec j s)) = sd_waiting s" "sd_waiting (remove_keyed ops key s) = sd_waiting s"
  "sd_waiting (snd (add_keyed ops key spec j s)) = sd_waiting s"
  "sd_slots (snd (add_job ops spec j s)) = sd_slots s" "sd_running (snd (add_job ops spec j s)) = sd_running s"
  "sd_slots (remove_keyed ops key s) = sd_slots s" "sd_running (remove_keyed ops key s) = sd_running s"
  "sd_slots (snd (add_keyed ops key spec j s)) = sd_slots s" "sd_running (snd (add_keyed ops key spec j s)) = sd_running s"
  by (auto simp: add_job_def remove_keyed_def add_keyed_def Let_def split: prod.splits sum.splits option.splits)

lemma sched_step_slots:
  "sched_step ops s s' \<Longrightarrow> int (length (sd_running s)) \<le> sd_slots s \<Longrightarrow>
     sd_slots s' = sd_slots s \<and> int (length (sd_running s')) \<le> sd_slots s'"
proof (induction rule: sched_step.induct)
  case (Job s s')
  then show ?case by (auto elim: job_stepE)
qed (simp_all add: scheduler_start_def stop_begin_def)

text \<open>What is left to do: a waiting job has two steps, a running one has one.\<close>

definition work_left :: "('j, 'c) scheduler \<Rightarrow> nat" where
  "work_left s = 2 * length (sd_waiting s) + length (sd_running s)"

lemma job_step_work: "job_step s s' \<Longrightarrow> work_left s' < work_left s"
  by (auto simp: work_left_def elim!: job_stepE)

lemma job_steps_bound: "(job_step ^^ n) s s' \<Longrightarrow> n + work_left s' \<le> work_left s"
proof (induction n arbitrary: s')
  case (Suc n)
  then obtain t where "(job_step ^^ n) s t" "job_step t s'" by auto
  with Suc.IH [of t] job_step_work [of t s'] show ?case by simp
qed simp

lemma stopped_no_work: "sched_step ops s s' \<Longrightarrow> sd_cronStopped s \<Longrightarrow> work_left s' \<le> work_left s"
proof (induction rule: sched_step.induct)
  case (Job s s')
  then show ?case using job_step_work [of s s'] by simp
qed (simp_all add: work_left_def scheduler_start_def stop_begin_def)

lemma stuck_done: "sd_cancelled s \<Longrightarrow> (\<And>s'. \<not> job_step s s') \<Longrightarrow> sd_waiting s = [] \<and> sd_running s = []"
  using job_step.Bail [of s "[]" "hd (sd_waiting s)" "tl (sd_waiting s)"]
    job_step.Finish [of s "[]" "hd (sd_running s)" "tl (sd_running s)"]
  by (metis append_Nil list.collapse)

lemma job_steps_cancelled:
  "(job_step ^^ n) s s' \<Longrightarrow> sd_cancelled s' = sd_cancelled s \<and> sd_cronStopped s' = sd_cronStopped s"
proof (induction n arbitrary: s')
  case (Suc n)
  then obtain t where "(job_step ^^ n) s t" "job_step t s'" by auto
  with Suc.IH [of t] show ?case by (auto elim!: job_stepE)
qed simp



end
