(* ===== verification/Config.thy ===== *)
theory Config
  imports Go_Prelude
begin

text \<open>
  internal/config/config.go: the configuration record, its defaults, the names of the environment
  overrides, and the validation. Reading the YAML file, merging the layers and unmarshalling them are
  the koanf library's and a parameter; environment names are taken as ASCII.
\<close>

section \<open>The configuration\<close>

record server_config =
  cs_ListenAddr :: string
  cs_ReadTimeoutSeconds :: int
  cs_WriteTimeoutSeconds :: int

record ssh_config =
  ch_DialTimeoutSeconds :: int
  ch_CommandTimeoutSeconds :: int
  ch_MaxConnectionsPerHost :: int

record log_config =
  cl_Level :: string
  cl_Format :: string

record metrics_config =
  cm_VMURL :: string
  cm_PushTimeoutSeconds :: int
  cm_QueryTimeoutSeconds :: int

record logs_config =
  cg_LokiURL :: string
  cg_PushTimeoutSeconds :: int
  cg_QueryTimeoutSeconds :: int

record scheduler_config =
  cd_DefaultIntervalSeconds :: int
  cd_MaxParallel :: int
  cd_PerJobTimeoutSeconds :: int

record auth_config =
  ca_Password :: string
  ca_Realm :: string

record alerts_telegram =
  ct_BotToken :: string
  ct_ChatIDs :: "string list"
  ct_SendTimeoutSeconds :: int

record alerts_rule =
  cr_Name :: string
  cr_Expr :: string
  cr_Severity :: string
  cr_Message :: string
  cr_FingerprintLabels :: "string list"

record alerts_section =
  ce_Enabled :: bool
  ce_EvaluationIntervalSeconds :: int
  ce_NotifyRepeatSeconds :: int
  ce_VMQueryTimeoutSeconds :: int
  ce_Telegram :: alerts_telegram
  ce_Rules :: "alerts_rule list"
  ce_DisableDefaults :: bool

record streaming_file =
  cf_ID :: string
  cf_Path :: string

record streaming_config =
  ck_Enabled :: bool
  ck_MonitorID :: string
  ck_ScriptPath :: string
  ck_Files :: "streaming_file list"
  ck_FlushIntervalSeconds :: int
  ck_MaxBatchLines :: int
  ck_PushTimeoutSeconds :: int
  ck_MinBackoffSeconds :: int
  ck_MaxBackoffSeconds :: int

record config =
  c_Server :: server_config
  c_DatabasePath :: string
  c_SSH :: ssh_config
  c_Log :: log_config
  c_Metrics :: metrics_config
  c_Logs :: logs_config
  c_Scheduler :: scheduler_config
  c_Auth :: auth_config
  c_Alerts :: alerts_section
  c_Streaming :: streaming_config

section \<open>Validation\<close>

text \<open>A sequence of guards that each return an error: the first that holds decides.\<close>

fun first_failure :: "(bool \<times> string) list \<Rightarrow> go_error option" where
  "first_failure [] = None"
| "first_failure ((bad, m) # gs) = (if bad then Some (new_error m) else first_failure gs)"

definition below :: "int \<Rightarrow> int \<Rightarrow> string \<Rightarrow> bool \<times> string" where
  "below bound n name = (n < bound, name @ '' must be >= '' @ format_int bound @ '', got '' @ format_int n)"

definition config_validate :: "config \<Rightarrow> go_error option" where
  "config_validate c =
     first_failure
       ([(c_DatabasePath c = [], ''database.path is required''),
         (cs_ListenAddr (c_Server c) = [], ''server.listen_addr is required''),
         (cl_Level (c_Log c) \<notin> set [''debug'', ''info'', ''warn'', ''error''],
          ''log.level must be one of debug|info|warn|error, got '' @ go_quote (cl_Level (c_Log c))),
         (cl_Format (c_Log c) \<notin> set [''json'', ''text''],
          ''log.format must be one of json|text, got '' @ go_quote (cl_Format (c_Log c))),
         below 1 (cs_ReadTimeoutSeconds (c_Server c)) ''server.read_timeout_seconds'',
         below 1 (cs_WriteTimeoutSeconds (c_Server c)) ''server.write_timeout_seconds'',
         below 1 (ch_DialTimeoutSeconds (c_SSH c)) ''ssh.dial_timeout_seconds'',
         below 1 (ch_CommandTimeoutSeconds (c_SSH c)) ''ssh.command_timeout_seconds'',
         below 1 (ch_MaxConnectionsPerHost (c_SSH c)) ''ssh.max_connections_per_host'',
         (cm_VMURL (c_Metrics c) = [], ''metrics.vm_url is required''),
         below 1 (cm_PushTimeoutSeconds (c_Metrics c)) ''metrics.push_timeout_seconds'',
         below 1 (cm_QueryTimeoutSeconds (c_Metrics c)) ''metrics.query_timeout_seconds'',
         (cg_LokiURL (c_Logs c) = [], ''logs.loki_url is required''),
         below 1 (cg_PushTimeoutSeconds (c_Logs c)) ''logs.push_timeout_seconds'',
         below 1 (cg_QueryTimeoutSeconds (c_Logs c)) ''logs.query_timeout_seconds'',
         below 1 (cd_DefaultIntervalSeconds (c_Scheduler c)) ''scheduler.default_interval_seconds'',
         below 1 (cd_MaxParallel (c_Scheduler c)) ''scheduler.max_parallel'',
         below 1 (cd_PerJobTimeoutSeconds (c_Scheduler c)) ''scheduler.per_job_timeout_seconds''] @
        (if ce_Enabled (c_Alerts c) then
           [below 15 (ce_EvaluationIntervalSeconds (c_Alerts c)) ''alerts.evaluation_interval_seconds'',
            below 1 (ce_VMQueryTimeoutSeconds (c_Alerts c)) ''alerts.vm_query_timeout_seconds'',
            below 0 (ce_NotifyRepeatSeconds (c_Alerts c)) ''alerts.notify_repeat_seconds'']
         else []) @
        (if ck_Enabled (c_Streaming c) then
           [below 1 (ck_FlushIntervalSeconds (c_Streaming c)) ''streaming.flush_interval_seconds'',
            below 1 (ck_MaxBatchLines (c_Streaming c)) ''streaming.max_batch_lines'',
            below 1 (ck_PushTimeoutSeconds (c_Streaming c)) ''streaming.push_timeout_seconds'',
            below 1 (ck_MinBackoffSeconds (c_Streaming c)) ''streaming.min_backoff_seconds'',
            (ck_MaxBackoffSeconds (c_Streaming c) < ck_MinBackoffSeconds (c_Streaming c),
             ''streaming.max_backoff_seconds ('' @ format_int (ck_MaxBackoffSeconds (c_Streaming c)) @
             '') must be >= streaming.min_backoff_seconds ('' @
             format_int (ck_MinBackoffSeconds (c_Streaming c)) @ '')'')]
         else []))"

section \<open>Defaults and loading\<close>

datatype config_value = VString string | VInt int | VBool bool

definition default_layer :: "(string \<times> config_value) list" where
  "default_layer =
     [(''server.listen_addr'', VString '':8080''),
      (''server.read_timeout_seconds'', VInt 15),
      (''server.write_timeout_seconds'', VInt 15),
      (''database.path'', VString ''./data/monitor.db''),
      (''ssh.dial_timeout_seconds'', VInt 10),
      (''ssh.command_timeout_seconds'', VInt 30),
      (''ssh.max_connections_per_host'', VInt 2),
      (''log.level'', VString ''info''),
      (''log.format'', VString ''json''),
      (''metrics.vm_url'', VString ''http://127.0.0.1:8428''),
      (''metrics.push_timeout_seconds'', VInt 5),
      (''metrics.query_timeout_seconds'', VInt 15),
      (''logs.loki_url'', VString ''http://127.0.0.1:3100''),
      (''logs.push_timeout_seconds'', VInt 5),
      (''logs.query_timeout_seconds'', VInt 15),
      (''scheduler.default_interval_seconds'', VInt 900),
      (''scheduler.max_parallel'', VInt 10),
      (''scheduler.per_job_timeout_seconds'', VInt 30),
      (''auth.password'', VString []),
      (''auth.realm'', VString ''frappe-monitor''),
      (''alerts.enabled'', VBool False),
      (''alerts.evaluation_interval_seconds'', VInt 60),
      (''alerts.notify_repeat_seconds'', VInt 3600),
      (''alerts.vm_query_timeout_seconds'', VInt 10),
      (''alerts.telegram.send_timeout_seconds'', VInt 5),
      (''alerts.disable_defaults'', VBool False),
      (''streaming.enabled'', VBool False),
      (''streaming.script_path'', VString []),
      (''streaming.flush_interval_seconds'', VInt 1),
      (''streaming.max_batch_lines'', VInt 500),
      (''streaming.push_timeout_seconds'', VInt 10),
      (''streaming.min_backoff_seconds'', VInt 1),
      (''streaming.max_backoff_seconds'', VInt 60)]"

abbreviation underscore :: char where "underscore \<equiv> CHR 0x5F"
abbreviation dot :: char where "dot \<equiv> CHR 0x2E"

text \<open>\<open>strings.ReplaceAll(s, "__", ".")\<close>.\<close>

fun dots_for_double :: "string \<Rightarrow> string" where
  "dots_for_double [] = []"
| "dots_for_double [c] = [c]"
| "dots_for_double (c # d # s) =
     (if c = underscore \<and> d = underscore then dot # dots_for_double s else c # dots_for_double (d # s))"

definition env_key :: "string \<Rightarrow> string" where
  "env_key name = dots_for_double (to_lower (trim_prefix ''MONITOR_'' name))"

text \<open>The library: a layer of settings \<open>'l\<close> from a file, the layers of values put over each other in
  turn, the environment by name, and the merged settings unmarshalled.\<close>

record 'l config_lib =
  cb_file :: "string \<Rightarrow> 'l result"
  cb_defaults :: "(string \<times> config_value) list \<Rightarrow> 'l"
  cb_merge :: "'l \<Rightarrow> 'l \<Rightarrow> 'l"
  cb_env :: "(string \<Rightarrow> string) \<Rightarrow> 'l result"
  cb_unmarshal :: "'l \<Rightarrow> config result"

definition config_load :: "'l config_lib \<Rightarrow> string \<Rightarrow> config result" where
  "config_load lib path =
     (case cb_file lib path of
        Inl e \<Rightarrow> Inl (wrap_error (''read config '' @ go_quote path @ '': '') e)
      | Inr l1 \<Rightarrow>
          (case cb_env lib env_key of
             Inl e \<Rightarrow> Inl (wrap_error ''load env: '' e)
           | Inr l2 \<Rightarrow>
               (case cb_unmarshal lib (cb_merge lib (cb_merge lib (cb_defaults lib default_layer) l1) l2) of
                  Inl e \<Rightarrow> Inl (wrap_error ''unmarshal config: '' e)
                | Inr cfg \<Rightarrow> (case config_validate cfg of Some e \<Rightarrow> Inl e | None \<Rightarrow> Inr cfg))))"

section \<open>What validation accepts\<close>

lemma first_failure_None: "first_failure gs = None \<longleftrightarrow> (\<forall>g \<in> set gs. \<not> fst g)"
  by (induction gs rule: first_failure.induct) auto

lemma fst_below [simp]: "fst (below b n name) = (n < b)"
  by (simp add: below_def)

lemma first_failure_append: "first_failure (gs @ hs) = (case first_failure gs of None \<Rightarrow> first_failure hs | Some e \<Rightarrow> Some e)"
  by (induction gs rule: first_failure.induct) simp_all

definition config_ok :: "config \<Rightarrow> bool" where
  "config_ok c \<longleftrightarrow>
     c_DatabasePath c \<noteq> [] \<and> cs_ListenAddr (c_Server c) \<noteq> [] \<and> cm_VMURL (c_Metrics c) \<noteq> [] \<and> cg_LokiURL (c_Logs c) \<noteq> [] \<and>
     cl_Level (c_Log c) \<in> {''debug'', ''info'', ''warn'', ''error''} \<and> cl_Format (c_Log c) \<in> {''json'', ''text''} \<and>
     (\<forall>n \<in> {cs_ReadTimeoutSeconds (c_Server c), cs_WriteTimeoutSeconds (c_Server c), ch_DialTimeoutSeconds (c_SSH c),
        ch_CommandTimeoutSeconds (c_SSH c), ch_MaxConnectionsPerHost (c_SSH c), cm_PushTimeoutSeconds (c_Metrics c),
        cm_QueryTimeoutSeconds (c_Metrics c), cg_PushTimeoutSeconds (c_Logs c), cg_QueryTimeoutSeconds (c_Logs c),
        cd_DefaultIntervalSeconds (c_Scheduler c), cd_MaxParallel (c_Scheduler c),
        cd_PerJobTimeoutSeconds (c_Scheduler c)}. 1 \<le> n) \<and>
     (ce_Enabled (c_Alerts c) \<longrightarrow> 15 \<le> ce_EvaluationIntervalSeconds (c_Alerts c) \<and>
        1 \<le> ce_VMQueryTimeoutSeconds (c_Alerts c) \<and> 0 \<le> ce_NotifyRepeatSeconds (c_Alerts c)) \<and>
     (ck_Enabled (c_Streaming c) \<longrightarrow> 1 \<le> ck_FlushIntervalSeconds (c_Streaming c) \<and>
        1 \<le> ck_MaxBatchLines (c_Streaming c) \<and> 1 \<le> ck_PushTimeoutSeconds (c_Streaming c) \<and>
        1 \<le> ck_MinBackoffSeconds (c_Streaming c) \<and>
        ck_MinBackoffSeconds (c_Streaming c) \<le> ck_MaxBackoffSeconds (c_Streaming c))"

lemma config_validate_iff: "config_validate c = None \<longleftrightarrow> config_ok c"
proof -
  have base: "first_failure (gs @ (if b1 then hs else []) @ (if b2 then ks else [])) = None \<longleftrightarrow>
      first_failure gs = None \<and> (b1 \<longrightarrow> first_failure hs = None) \<and> (b2 \<longrightarrow> first_failure ks = None)" for gs hs ks b1 b2
    by (simp add: first_failure_append split: option.split)
  show ?thesis
    unfolding config_validate_def base unfolding config_ok_def first_failure_None
    by (simp add: not_less) blast
qed

section \<open>Environment names\<close>

definition upper_char :: "char \<Rightarrow> char" where
  "upper_char c = (if (of_char c :: nat) \<in> {97..122} then char_of (of_char c - 32 :: nat) else c)"

text \<open>A segment of a dotted key: no upper case, no dot, no double underscore and none at its end.\<close>

fun no_double :: "string \<Rightarrow> bool" where
  "no_double (c # d # s) = (\<not> (c = underscore \<and> d = underscore) \<and> no_double (d # s))"
| "no_double s = (s \<noteq> [underscore])"

definition segment_ok :: "string \<Rightarrow> bool" where
  "segment_ok s \<longleftrightarrow> no_double s \<and> (\<forall>c \<in> set s. (of_char c :: nat) \<notin> {65..90})"

lemma dots_skip: "no_double s \<Longrightarrow> dots_for_double (s @ underscore # underscore # t) = s @ dot # dots_for_double t"
  by (induction s rule: no_double.induct) simp_all

lemma dots_id: "no_double s \<Longrightarrow> dots_for_double s = s"
  by (induction s rule: no_double.induct) simp_all

lemma dots_join: "\<forall>s \<in> set ss. no_double s \<Longrightarrow> dots_for_double (join [underscore, underscore] ss) = join [dot] ss"
proof (induction ss rule: induct_list012)
  case (3 s t ss)
  then show ?case using dots_skip [of s "join [underscore, underscore] (t # ss)"] by simp
qed (simp_all add: dots_id)

lemma lower_upper: "(of_char c :: nat) \<notin> {65..90} \<Longrightarrow> to_lower [upper_char c] = [c]"
  by (auto simp: to_lower_def upper_char_def Let_def)

lemma to_lower_map_upper: "\<forall>c \<in> set s. (of_char c :: nat) \<notin> {65..90} \<Longrightarrow> to_lower (map upper_char s) = s"
proof (induction s)
  case (Cons c s)
  then show ?case using lower_upper [of c] by (simp add: to_lower_def)
qed (simp add: to_lower_def)

text \<open>
  Every dotted key of lower-case segments can be set from the environment, by the name that writes
  the segments in upper case with two underscores between them: the override is then stored under
  exactly that key.
\<close>

lemma env_key_reads:
  assumes "\<forall>s \<in> set ss. segment_ok s"
  shows "env_key (''MONITOR_'' @ map upper_char (join ''__'' ss)) = join ''.'' ss"
proof -
  have lower: "\<forall>c \<in> set (join ''__'' ss). (of_char c :: nat) \<notin> {65..90}"
    using assms set_join [of "''__''" ss] by (fastforce simp: segment_ok_def)
  have "env_key (''MONITOR_'' @ map upper_char (join ''__'' ss)) = dots_for_double (join ''__'' ss)"
    unfolding env_key_def trim_prefix_append to_lower_map_upper [OF lower] by (rule refl)
  with assms dots_join [of ss] show ?thesis by (simp add: segment_ok_def)
qed

lemma env_key_reads_witness:
  "env_key ''MONITOR_SERVER__LISTEN_ADDR'' = ''server.listen_addr''"
proof -
  have "\<forall>s \<in> set [''server'', ''listen_addr'']. segment_ok s" by (simp add: segment_ok_def)
  note env_key_reads [OF this]
  moreover have "map upper_char (join ''__'' [''server'', ''listen_addr'']) = ''SERVER__LISTEN_ADDR''" by code_simp
  ultimately show ?thesis by simp
qed

end
