(* ===== verification/Api_Auth.thy ===== *)
theory Api_Auth
  imports Alert_Rules
begin

text \<open>
  internal/api/login.go and auth.go: the login throttle, session tokens, the login and logout handlers
  and the gate in front of the API. HMAC-SHA-256 is a parameter (key and message to digest), the
  clock is an input, request bodies, cookies and basic credentials are given decoded as the standard
  library decodes them.
\<close>

section \<open>The throttle\<close>

record ip_bucket =
  ib_count :: int
  ib_resetAt :: time

record throttle =
  th_limit :: int
  th_window :: duration
  th_buckets :: "ip_bucket go_map"

definition new_login_throttle :: "int \<Rightarrow> duration \<Rightarrow> throttle" where
  "new_login_throttle limit window = \<lparr>th_limit = limit, th_window = window, th_buckets = []\<rparr>"

definition login_throttle :: throttle where
  "login_throttle = new_login_throttle 5 (60 * second)"

definition record_failure :: "time \<Rightarrow> string \<Rightarrow> throttle \<Rightarrow> bool \<times> throttle" where
  "record_failure now ip t =
     (let fresh = \<lparr>ib_count = 0, ib_resetAt = now + th_window t\<rparr>;
          b = (case map_of (th_buckets t) ip of
                 None \<Rightarrow> fresh
               | Some b \<Rightarrow> if now > ib_resetAt b then fresh else b);
          b' = b\<lparr>ib_count := ib_count b + 1\<rparr>
      in (ib_count b' \<le> th_limit t, t\<lparr>th_buckets := map_put (th_buckets t) ip b'\<rparr>))"

definition blocked :: "time \<Rightarrow> string \<Rightarrow> throttle \<Rightarrow> bool" where
  "blocked now ip t =
     (case map_of (th_buckets t) ip of
        None \<Rightarrow> False
      | Some b \<Rightarrow> if now > ib_resetAt b then False else ib_count b > th_limit t)"

section \<open>Session tokens\<close>

abbreviation dot :: char where "dot \<equiv> CHR 0x2E"

definition unix_seconds :: "time \<Rightarrow> int" where
  "unix_seconds t = t div second"

type_synonym mac = "string \<Rightarrow> string \<Rightarrow> string"

definition session_ttl :: duration where
  "session_ttl = 7 * 24 * 3600 * second"

definition derive_session_key :: "mac \<Rightarrow> string \<Rightarrow> string" where
  "derive_session_key hmac password = hmac ''frappe-monitor.session.v1'' password"

definition issue_session :: "mac \<Rightarrow> time \<Rightarrow> string \<Rightarrow> duration \<Rightarrow> string" where
  "issue_session hmac now password ttl =
     (let expiry = format_int (unix_seconds (now + ttl))
      in expiry @ dot # hex_encode (hmac (derive_session_key hmac password) expiry))"

definition validate_session :: "mac \<Rightarrow> time \<Rightarrow> string \<Rightarrow> string \<Rightarrow> bool" where
  "validate_session hmac now cookie password =
     (case index_byte dot cookie of
        None \<Rightarrow> False
      | Some i \<Rightarrow>
          if i < 1 \<or> i = length cookie - 1 then False
          else
            (let expStr = take i cookie; sig = drop (i + 1) cookie in
             case parse_int64 expStr of
               Inl e \<Rightarrow> False
             | Inr expiry \<Rightarrow>
                 if unix_seconds now > expiry then False
                 else hex_encode (hmac (derive_session_key hmac password) expStr) = sig))"

section \<open>Login and logout\<close>

definition client_ip :: "string \<Rightarrow> string \<Rightarrow> string" where
  "client_ip xff remote_addr =
     (if xff \<noteq> [] then
        (case index_byte (CHR 0x2C) xff of
           Some i \<Rightarrow> if i > 0 then trim_space (take i xff) else trim_space xff
         | None \<Rightarrow> trim_space xff)
      else
        (case last_index_byte (CHR 0x3A) remote_addr of
           Some i \<Rightarrow> if i > 0 then take i remote_addr else remote_addr
         | None \<Rightarrow> remote_addr))"

record cookie =
  ok_Name :: string
  ok_Value :: string
  ok_Path :: string
  ok_MaxAge :: int
  ok_HttpOnly :: bool
  ok_SameSiteStrict :: bool
  ok_Secure :: bool

record login_request =
  lr_XForwardedFor :: string
  lr_RemoteAddr :: string
  lr_TLS :: bool
  lr_XForwardedProto :: string
  lr_Password :: "string result"

record auth_reply =
  ar_status :: int
  ar_error :: "string option"
  ar_cookie :: "cookie option"

definition auth_error :: "int \<Rightarrow> string \<Rightarrow> auth_reply" where
  "auth_error code msg = \<lparr>ar_status = code, ar_error = Some msg, ar_cookie = None\<rparr>"

definition session_cookie_name :: string where
  "session_cookie_name = ''monitor_session''"

text \<open>\<open>strings.EqualFold\<close> also takes the long s, U+017F, for an s.\<close>

definition request_secure :: "login_request \<Rightarrow> bool" where
  "request_secure r \<longleftrightarrow>
     lr_TLS r \<or> to_lower (lr_XForwardedProto r) \<in> {''https'', ''http'' @ [CHR 0xC5, CHR 0xBF]}"

definition login_handler ::
  "mac \<Rightarrow> string \<Rightarrow> time \<Rightarrow> login_request \<Rightarrow> throttle \<Rightarrow> auth_reply \<times> throttle" where
  "login_handler hmac password now r t =
     (let ip = client_ip (lr_XForwardedFor r) (lr_RemoteAddr r) in
      if blocked now ip t then (auth_error 429 ''too many failed attempts; wait a minute'', t)
      else case lr_Password r of
        Inl e \<Rightarrow> (auth_error 400 ''invalid json'', t)
      | Inr got \<Rightarrow>
          if password = [] then (auth_error 503 ''auth not configured on this server'', t)
          else if got \<noteq> password then (auth_error 401 ''wrong password'', snd (record_failure now ip t))
          else
            (\<lparr>ar_status = 204, ar_error = None,
              ar_cookie = Some \<lparr>ok_Name = session_cookie_name, ok_Value = issue_session hmac now password session_ttl,
                ok_Path = ''/'', ok_MaxAge = session_ttl div second, ok_HttpOnly = True, ok_SameSiteStrict = True,
                ok_Secure = request_secure r\<rparr>\<rparr>, t))"

definition logout_handler :: "login_request \<Rightarrow> auth_reply" where
  "logout_handler r =
     \<lparr>ar_status = 204, ar_error = None,
      ar_cookie = Some \<lparr>ok_Name = session_cookie_name, ok_Value = [], ok_Path = ''/'', ok_MaxAge = -1,
        ok_HttpOnly = True, ok_SameSiteStrict = True, ok_Secure = request_secure r\<rparr>\<rparr>"

section \<open>The gate\<close>

text \<open>The credentials of a request: the session cookie and the user and password of a basic
  authorization header, when there are any.\<close>

record credentials =
  cd_Cookie :: "string option"
  cd_Basic :: "(string \<times> string) option"

definition authorized :: "mac \<Rightarrow> string \<Rightarrow> time \<Rightarrow> credentials \<Rightarrow> bool" where
  "authorized hmac password now cr \<longleftrightarrow>
     password = [] \<or>
     (case cd_Cookie cr of None \<Rightarrow> False | Some v \<Rightarrow> validate_session hmac now v password) \<or>
     (case cd_Basic cr of None \<Rightarrow> False | Some (u, got) \<Rightarrow> got = password)"

text \<open>\<open>authGate\<close> around a handler that changes a state.\<close>

definition auth_gate ::
  "mac \<Rightarrow> string \<Rightarrow> time \<Rightarrow> credentials \<Rightarrow> 'r \<Rightarrow> ('w \<Rightarrow> 'r \<times> 'w) \<Rightarrow> 'w \<Rightarrow> 'r \<times> 'w" where
  "auth_gate hmac password now cr denied next_handler w =
     (if authorized hmac password now cr then next_handler w else (denied, w))"

section \<open>Sessions\<close>

lemma dot_not_in_int [simp]: "dot \<notin> set (format_int n)"
  by (rule not_in_format_int) simp_all

lemma hex_encode_Nil: "hex_encode bs = [] \<longleftrightarrow> bs = []"
  using length_hex_encode [of bs] by (metis length_0_conv mult_is_0 zero_neq_numeral)

lemma validate_token:
  assumes "dot \<notin> set e"
  shows "validate_session hmac now (e @ dot # sig) password \<longleftrightarrow>
    e \<noteq> [] \<and> sig \<noteq> [] \<and> (\<exists>n. parse_int64 e = Inr n \<and> unix_seconds now \<le> n) \<and>
    sig = hex_encode (hmac (derive_session_key hmac password) e)"
  using assms by (auto simp: validate_session_def index_byte_append Let_def not_less split: sum.split)

lemma validate_issued:
  assumes "\<And>k m. hmac k m \<noteq> []" "is_int64 (unix_seconds (now + ttl))"
  shows "validate_session hmac at (issue_session hmac now password ttl) other \<longleftrightarrow>
      unix_seconds at \<le> unix_seconds (now + ttl) \<and>
      hex_encode (hmac (derive_session_key hmac password) (format_int (unix_seconds (now + ttl)))) =
      hex_encode (hmac (derive_session_key hmac other) (format_int (unix_seconds (now + ttl))))"
  using assms by (auto simp: issue_session_def Let_def validate_token hex_encode_Nil)

text \<open>
  C15. Session tokens. A token is accepted exactly when it is an expiry and the hexadecimal code of that
  expiry's keyed digest under the current password, with a dot between them, and the expiry is not
  over; the token issued at login is therefore accepted until its last second and not after,
  and under another password only if the two passwords' digests collide.
\<close>

theorem session_tokens:
  assumes "\<And>k m. hmac k m \<noteq> []" "is_int64 (unix_seconds (now + ttl))"
  shows "(validate_session hmac at token password \<longleftrightarrow>
      (\<exists>e n. token = e @ dot # hex_encode (hmac (derive_session_key hmac password) e) \<and> dot \<notin> set e \<and>
         parse_int64 e = Inr n \<and> unix_seconds at \<le> n)) \<and>
    (validate_session hmac at (issue_session hmac now password ttl) other \<longleftrightarrow>
      unix_seconds at \<le> unix_seconds (now + ttl) \<and>
      hex_encode (hmac (derive_session_key hmac password) (format_int (unix_seconds (now + ttl)))) =
      hex_encode (hmac (derive_session_key hmac other) (format_int (unix_seconds (now + ttl)))))"
proof
  show "validate_session hmac at token password \<longleftrightarrow>
      (\<exists>e n. token = e @ dot # hex_encode (hmac (derive_session_key hmac password) e) \<and> dot \<notin> set e \<and>
         parse_int64 e = Inr n \<and> unix_seconds at \<le> n)"
  proof
    assume v: "validate_session hmac at token password"
    then obtain i where i: "index_byte dot token = Some i" by (auto simp: validate_session_def split: option.splits)
    from index_byte_SomeD [OF i] have free: "dot \<notin> set (take i token)"
      and split: "token = take i token @ dot # drop (Suc i) token" by blast+
    from v have "validate_session hmac at (take i token @ dot # drop (Suc i) token) password"
      by (subst split [symmetric])
    with validate_token [OF free] split free
    show "\<exists>e n. token = e @ dot # hex_encode (hmac (derive_session_key hmac password) e) \<and> dot \<notin> set e \<and>
         parse_int64 e = Inr n \<and> unix_seconds at \<le> n" by metis
  next
    assume "\<exists>e n. token = e @ dot # hex_encode (hmac (derive_session_key hmac password) e) \<and> dot \<notin> set e \<and>
         parse_int64 e = Inr n \<and> unix_seconds at \<le> n"
    then show "validate_session hmac at token password"
      using assms(1) by (auto simp: validate_token hex_encode_Nil dest: parse_int64_not_Nil)
  qed
next
  show "validate_session hmac at (issue_session hmac now password ttl) other \<longleftrightarrow>
      unix_seconds at \<le> unix_seconds (now + ttl) \<and>
      hex_encode (hmac (derive_session_key hmac password) (format_int (unix_seconds (now + ttl)))) =
      hex_encode (hmac (derive_session_key hmac other) (format_int (unix_seconds (now + ttl))))"
    by (rule validate_issued [OF assms])
qed

theorem session_tokens_witness:
  "validate_session (\<lambda>k m. CHR ''x'' # k) 0 (issue_session (\<lambda>k m. CHR ''x'' # k) 0 ''pw'' session_ttl) ''pw'' \<and>
   \<not> validate_session (\<lambda>k m. CHR ''x'' # k) (session_ttl + second)
       (issue_session (\<lambda>k m. CHR ''x'' # k) 0 ''pw'' session_ttl) ''pw''"
proof -
  have b: "is_int64 (unix_seconds (0 + session_ttl))" by (simp add: unix_seconds_def session_ttl_def is_int64_def)
  note tokens = session_tokens [where hmac = "\<lambda>k m. CHR ''x'' # k" and password = "''pw''" and other = "''pw''",
      THEN conjunct2, OF _ b]
  show ?thesis
    using tokens [of 0] tokens [of "session_ttl + second"] by (simp add: unix_seconds_def session_ttl_def)
qed

section \<open>Brute force\<close>

text \<open>Login attempts in turn, with the client and the status of each.\<close>

fun login_run :: "mac \<Rightarrow> string \<Rightarrow> (time \<times> login_request) list \<Rightarrow> throttle \<Rightarrow> (string \<times> int) list \<times> throttle" where
  "login_run hmac password [] t = ([], t)"
| "login_run hmac password ((now, r) # rs) t =
     (case login_handler hmac password now r t of
        (rep, t1) \<Rightarrow>
          (case login_run hmac password rs t1 of
             (out, t2) \<Rightarrow> ((client_ip (lr_XForwardedFor r) (lr_RemoteAddr r), ar_status rep) # out, t2)))"

abbreviation request_ip :: "login_request \<Rightarrow> string" where
  "request_ip r \<equiv> client_ip (lr_XForwardedFor r) (lr_RemoteAddr r)"

definition wrong_attempt :: "string \<Rightarrow> login_request \<Rightarrow> bool" where
  "wrong_attempt password r \<longleftrightarrow> (\<exists>got. lr_Password r = Inr got \<and> got \<noteq> password)"

definition failures_of :: "string \<Rightarrow> (time \<times> login_request) list \<Rightarrow> nat" where
  "failures_of ip rs = length (filter (\<lambda>(now, r). request_ip r = ip) rs)"

definition statuses_of :: "string \<Rightarrow> (string \<times> int) list \<Rightarrow> int list" where
  "statuses_of ip out = map snd (filter (\<lambda>x. fst x = ip) out)"

lemma login_other_ip:
  "request_ip r \<noteq> ip \<Longrightarrow> map_of (th_buckets (snd (login_handler hmac password now r t))) ip = map_of (th_buckets t) ip \<and>
     th_limit (snd (login_handler hmac password now r t)) = th_limit t"
  by (auto simp: login_handler_def Let_def record_failure_def split: sum.split)

lemma login_wrong:
  assumes "wrong_attempt password r" "password \<noteq> []" "map_of (th_buckets t) (request_ip r) = Some b" "now \<le> ib_resetAt b"
  shows "login_handler hmac password now r t =
    (if ib_count b > th_limit t then (auth_error 429 ''too many failed attempts; wait a minute'', t)
     else (auth_error 401 ''wrong password'',
       t\<lparr>th_buckets := map_put (th_buckets t) (request_ip r) (b\<lparr>ib_count := ib_count b + 1\<rparr>)\<rparr>))"
  using assms by (auto simp: login_handler_def Let_def blocked_def record_failure_def wrong_attempt_def)

lemma login_run_statuses:
  assumes "password \<noteq> []"
  shows "map_of (th_buckets t) ip = Some \<lparr>ib_count = int k, ib_resetAt = reset\<rparr> \<Longrightarrow> th_limit t = int limit \<Longrightarrow> k \<le> limit + 1 \<Longrightarrow>
    \<forall>(now, r) \<in> set rs. now \<le> reset \<and> (request_ip r = ip \<longrightarrow> wrong_attempt password r) \<Longrightarrow>
    statuses_of ip (fst (login_run hmac password rs t)) =
      replicate (min (failures_of ip rs) (limit + 1 - k)) 401 @ replicate (failures_of ip rs - (limit + 1 - k)) 429"
proof (induction rs arbitrary: t k)
  case Nil
  then show ?case by (simp add: statuses_of_def failures_of_def)
next
  case (Cons x rs)
  obtain now r where x: "x = (now, r)" by (metis surj_pair)
  obtain rep t1 where h: "login_handler hmac password now r t = (rep, t1)" by (metis surj_pair)
  have rest: "\<forall>(now, r) \<in> set rs. now \<le> reset \<and> (request_ip r = ip \<longrightarrow> wrong_attempt password r)"
    and now: "now \<le> reset" and wrong: "request_ip r = ip \<Longrightarrow> wrong_attempt password r"
    using Cons.prems(4) by (auto simp: x)
  have run: "statuses_of ip (fst (login_run hmac password (x # rs) t)) =
      (if request_ip r = ip then [ar_status rep] else []) @ statuses_of ip (fst (login_run hmac password rs t1))"
    by (simp add: x h statuses_of_def split: prod.split)
  show ?case
  proof (cases "request_ip r = ip")
    case False
    from login_other_ip [OF this, of hmac password now t] Cons.prems
    have "map_of (th_buckets t1) ip = Some \<lparr>ib_count = int k, ib_resetAt = reset\<rparr>" "th_limit t1 = int limit"
      by (simp_all add: h)
    from Cons.IH [OF this Cons.prems(3) rest] False show ?thesis
      unfolding run by (simp add: x failures_of_def)
  next
    case True
    note step = login_wrong [OF wrong [OF True] assms, of t _ now hmac, unfolded True, OF Cons.prems(1), simplified, OF now]
    show ?thesis
    proof (cases "k = limit + 1")
      case full: True
      then have "rep = auth_error 429 ''too many failed attempts; wait a minute''" "t1 = t"
        using step h Cons.prems(2) by simp_all
      with Cons.IH [OF Cons.prems(1,2,3) rest] True full show ?thesis
        unfolding run by (simp add: x failures_of_def auth_error_def)
    next
      case False
      then have k: "k \<le> limit" using Cons.prems(3) by simp
      then have rep: "rep = auth_error 401 ''wrong password''"
        and t1: "map_of (th_buckets t1) ip = Some \<lparr>ib_count = int (k + 1), ib_resetAt = reset\<rparr>" "th_limit t1 = int limit"
        using step h Cons.prems(2) by auto
      from Cons.IH [OF t1 _ rest] k show ?thesis
        unfolding run by (simp add: x True rep auth_error_def failures_of_def Suc_diff_le)
    qed
  qed
qed


definition wrong_login :: login_request where
  "wrong_login = \<lparr>lr_XForwardedFor = [], lr_RemoteAddr = ''10.0.0.1:5'', lr_TLS = False, lr_XForwardedProto = [],
     lr_Password = Inr ''guess''\<rparr>"


end
