(* ===== verification/Api_Servers.thy ===== *)
theory Api_Servers
  imports Collector Api_Auth
begin

text \<open>
  internal/api/handlers.go, respond.go and the routes of router.go: the handlers of servers and of
  system snapshots, over the store and the executor. A request's body is given as the
  standard library's JSON decoder leaves it, its path parameter as text; replies carry the typed body
  that is then written as JSON. The lifecycle hooks are a log of the identifiers they were called with.
\<close>

section \<open>Requests and replies\<close>

record create_server_req =
  cq_Name :: string
  cq_Hostname :: string
  cq_SSHUser :: string
  cq_SSHPort :: int
  cq_SSHKeyPath :: string
  cq_BenchPaths :: "string list option"
  cq_Labels :: "labels option"

record patch_server_req =
  pq_Name :: "string option"
  pq_Hostname :: "string option"
  pq_SSHUser :: "string option"
  pq_SSHPort :: "int option"
  pq_SSHKeyPath :: "string option"
  pq_BenchPaths :: "string list option"
  pq_Labels :: "labels option"

record server_dto =
  sd_ID :: int
  sd_Name :: string
  sd_Hostname :: string
  sd_SSHUser :: string
  sd_SSHPort :: int
  sd_SSHKeyPath :: string
  sd_BenchPaths :: "string list"
  sd_Labels :: labels
  sd_Status :: string
  sd_LastPingedAt :: "time option"
  sd_LastError :: string
  sd_CreatedAt :: time
  sd_UpdatedAt :: time

definition to_dto :: "server \<Rightarrow> server_dto" where
  "to_dto s =
     \<lparr>sd_ID = sv_ID s, sd_Name = sv_Name s, sd_Hostname = sv_Hostname s, sd_SSHUser = sv_SSHUser s,
      sd_SSHPort = sv_SSHPort s, sd_SSHKeyPath = sv_SSHKeyPath s, sd_BenchPaths = sv_BenchPaths s,
      sd_Labels = sv_Labels s, sd_Status = sv_Status s, sd_LastPingedAt = sv_LastPingedAt s,
      sd_LastError = sv_LastError s, sd_CreatedAt = sv_CreatedAt s, sd_UpdatedAt = sv_UpdatedAt s\<rparr>"

record test_connection_resp =
  tc_Reachable :: bool
  tc_LatencyMs :: int
  tc_Error :: string
  tc_ErrorKind :: string

record snapshot_resp =
  sn_CapturedAt :: time
  sn_Payload :: "string option"
  sn_LastError :: string

datatype api_body =
    NoBody
  | ErrorBody string
  | ServerBody server_dto
  | ServersBody "server_dto list"
  | TestBody test_connection_resp
  | DeployBody bool string
  | SnapshotBody snapshot_resp

record api_reply =
  re_status :: int
  re_body :: api_body

definition write_err :: "int \<Rightarrow> string \<Rightarrow> api_reply" where
  "write_err code msg = \<lparr>re_status = code, re_body = ErrorBody msg\<rparr>"

definition write_json :: "int \<Rightarrow> api_body \<Rightarrow> api_reply" where
  "write_json code body = \<lparr>re_status = code, re_body = body\<rparr>"

text \<open>What the handlers change: the store, the executor, and the calls of the hooks.\<close>

record ('f, 'e) api_world =
  hw_db :: "'f db"
  hw_exec :: 'e
  hw_created :: "int list"
  hw_deleted :: "int list"

text \<open>What they are built from, with the clock of one request.\<close>

record 'e api_deps =
  hd_sql :: sql_env
  hd_run :: "'e \<Rightarrow> target \<Rightarrow> string \<Rightarrow> (string \<times> go_error option) \<times> 'e"
  hd_run_input :: "'e \<Rightarrow> target \<Rightarrow> string \<Rightarrow> string \<Rightarrow> (string \<times> go_error option) \<times> 'e"
  hd_collector_script :: string
  hd_collector_version :: string
  hd_system_script :: string
  hd_json_valid :: "string \<Rightarrow> bool"
  hd_created_hook :: bool
  hd_deleted_hook :: bool
  hd_now :: time
  hd_ping_start :: time
  hd_ping_end :: time

definition on_db :: "('f db \<Rightarrow> 'a \<times> 'f db) \<Rightarrow> ('f, 'e) api_world \<Rightarrow> 'a \<times> ('f, 'e) api_world" where
  "on_db op w = (case op (hw_db w) of (r, db) \<Rightarrow> (r, w\<lparr>hw_db := db\<rparr>))"

section \<open>Helpers\<close>

definition tgt_from_server :: "server \<Rightarrow> target" where
  "tgt_from_server s = \<lparr>tg_Host = sv_Hostname s, tg_Port = sv_SSHPort s, tg_User = sv_SSHUser s,
     tg_KeyPath = sv_SSHKeyPath s\<rparr>"

definition status_for_ssh_error :: "go_error \<Rightarrow> int" where
  "status_for_ssh_error e =
     (if errors_is e ErrAuth \<or> errors_is e ErrDial then 502
      else if errors_is e ErrTimeout then 504
      else 500)"

definition classify_ping_error :: "go_error \<Rightarrow> string" where
  "classify_ping_error e =
     (if errors_is e ErrAuth then ''auth''
      else if errors_is e ErrDial then ''dial''
      else if errors_is e ErrTimeout then ''timeout''
      else ''unknown'')"

definition clean_bench_paths :: "string list option \<Rightarrow> string list option" where
  "clean_bench_paths ps = map_option (\<lambda>ps. filter (\<lambda>p. p \<noteq> []) (map trim_space ps)) ps"

text \<open>\<open>Duration.Milliseconds\<close> truncates toward zero.\<close>

definition milliseconds :: "duration \<Rightarrow> int" where
  "milliseconds d = (if d < 0 then - ((- d) div 1000000) else d div 1000000)"

text \<open>The runes of a string as their encodings: a well-formed UTF-8 sequence, or one byte that
  begins none and reads as U+FFFD.\<close>

definition cont_byte :: "nat \<Rightarrow> nat \<Rightarrow> char \<Rightarrow> bool" where
  "cont_byte lo hi c \<longleftrightarrow> lo \<le> (of_char c :: nat) \<and> (of_char c :: nat) \<le> hi"

definition rune_size :: "string \<Rightarrow> nat" where
  "rune_size s =
     (case s of
        [] \<Rightarrow> 0
      | c # r \<Rightarrow>
          let n = (of_char c :: nat);
              follow = (\<lambda>lo hi k. k \<le> length r \<and> 1 \<le> k \<and> cont_byte lo hi (hd r) \<and>
                 list_all (cont_byte 0x80 0xBF) (take (k - 1) (tl r)))
          in if n < 0x80 then 1
             else if 0xC2 \<le> n \<and> n \<le> 0xDF then (if follow 0x80 0xBF 1 then 2 else 0)
             else if n = 0xE0 then (if follow 0xA0 0xBF 2 then 3 else 0)
             else if n = 0xED then (if follow 0x80 0x9F 2 then 3 else 0)
             else if 0xE1 \<le> n \<and> n \<le> 0xEF then (if follow 0x80 0xBF 2 then 3 else 0)
             else if n = 0xF0 then (if follow 0x90 0xBF 3 then 4 else 0)
             else if 0xF1 \<le> n \<and> n \<le> 0xF3 then (if follow 0x80 0xBF 3 then 4 else 0)
             else if n = 0xF4 then (if follow 0x80 0x8F 3 then 4 else 0)
             else 0)"

definition replacement_rune :: string where
  "replacement_rune = [CHR 0xEF, CHR 0xBF, CHR 0xBD]"

function runes :: "string \<Rightarrow> string list" where
  "runes s =
     (if s = [] then []
      else if rune_size s = 0 then replacement_rune # runes (tl s)
      else take (rune_size s) s # runes (drop (rune_size s) s))"
  by pat_completeness auto

termination by (relation "measure length") auto

declare runes.simps [simp del]

definition truncate :: "string \<Rightarrow> nat \<Rightarrow> string" where
  "truncate s n =
     (if length (runes s) \<le> n then s else concat (take n (runes s)) @ [CHR 0xE2, CHR 0x80, CHR 0xA6])"

text \<open>The lookups that the handlers of one server begin with: the identifier, then the server.\<close>

definition with_id ::
  "string \<Rightarrow> (int \<Rightarrow> ('f, 'e) api_world \<Rightarrow> api_reply \<times> ('f, 'e) api_world) \<Rightarrow>
     ('f, 'e) api_world \<Rightarrow> api_reply \<times> ('f, 'e) api_world" where
  "with_id param k w =
     (case parse_int64 param of Inl e \<Rightarrow> (write_err 400 ''invalid id'', w) | Inr i \<Rightarrow> k i w)"

definition with_server ::
  "int \<Rightarrow> (server \<Rightarrow> ('f, 'e) api_world \<Rightarrow> api_reply \<times> ('f, 'e) api_world) \<Rightarrow>
     ('f, 'e) api_world \<Rightarrow> api_reply \<times> ('f, 'e) api_world" where
  "with_server i k w =
     (case on_db (get_server i) w of
        (Inl e, w1) \<Rightarrow>
          (if errors_is e ErrNotFound then (write_err 404 ''server not found'', w1)
           else (write_err 500 (err_msg e), w1))
      | (Inr srv, w1) \<Rightarrow> k srv w1)"

section \<open>Servers\<close>

definition create_handler ::
  "'e api_deps \<Rightarrow> create_server_req result \<Rightarrow> ('f, 'e) api_world \<Rightarrow> api_reply \<times> ('f, 'e) api_world" where
  "create_handler d body w =
     (case body of
        Inl e \<Rightarrow> (write_err 400 ''invalid json'', w)
      | Inr req \<Rightarrow>
          if cq_Name req = [] \<or> cq_Hostname req = [] \<or> cq_SSHKeyPath req = []
          then (write_err 400 ''name, hostname, ssh_key_path are required'', w)
          else
            (case on_db (create_server (hd_sql d) (hd_now d)
                \<lparr>ns_Name = cq_Name req, ns_Hostname = cq_Hostname req,
                 ns_SSHUser = (if cq_SSHUser req = [] then ''monitor'' else cq_SSHUser req),
                 ns_SSHPort = (if cq_SSHPort req = 0 then 22 else cq_SSHPort req),
                 ns_SSHKeyPath = cq_SSHKeyPath req,
                 ns_BenchPaths = clean_bench_paths (cq_BenchPaths req), ns_Labels = cq_Labels req\<rparr>) w of
               (Inl e, w1) \<Rightarrow>
                 (if errors_is e ErrDuplicateHostname then (write_err 409 ''hostname already exists'', w1)
                  else (write_err 400 (err_msg e), w1))
             | (Inr s, w1) \<Rightarrow>
                 (write_json 201 (ServerBody (to_dto s)),
                  if hd_created_hook d then w1\<lparr>hw_created := hw_created w1 @ [sv_ID s]\<rparr> else w1)))"

definition list_handler :: "('f, 'e) api_world \<Rightarrow> api_reply \<times> ('f, 'e) api_world" where
  "list_handler w =
     (case on_db list_servers w of
        (Inl e, w1) \<Rightarrow> (write_err 500 (err_msg e), w1)
      | (Inr rows, w1) \<Rightarrow> (write_json 200 (ServersBody (map to_dto rows)), w1))"

definition patch_handler ::
  "'e api_deps \<Rightarrow> string \<Rightarrow> patch_server_req result \<Rightarrow> ('f, 'e) api_world \<Rightarrow> api_reply \<times> ('f, 'e) api_world" where
  "patch_handler d param body = with_id param (\<lambda>i w.
     (case body of
        Inl e \<Rightarrow> (write_err 400 ''invalid json'', w)
      | Inr req \<Rightarrow>
          if (case pq_SSHPort req of None \<Rightarrow> False | Some p \<Rightarrow> p \<le> 0)
          then (write_err 400 ''ssh_port must be positive'', w)
          else
            (case on_db (update_server (hd_sql d) (hd_now d) i
                \<lparr>up_Name = pq_Name req, up_Hostname = pq_Hostname req, up_SSHUser = pq_SSHUser req,
                 up_SSHPort = pq_SSHPort req, up_SSHKeyPath = pq_SSHKeyPath req,
                 up_BenchPaths = clean_bench_paths (pq_BenchPaths req), up_Labels = pq_Labels req\<rparr>) w of
               (Inl e, w1) \<Rightarrow>
                 (if errors_is e ErrNotFound then (write_err 404 ''server not found'', w1)
                  else if errors_is e ErrDuplicateHostname then (write_err 409 ''hostname already exists'', w1)
                  else (write_err 500 (err_msg e), w1))
             | (Inr s, w1) \<Rightarrow> (write_json 200 (ServerBody (to_dto s)), w1))))"

definition delete_handler ::
  "'e api_deps \<Rightarrow> string \<Rightarrow> ('f, 'e) api_world \<Rightarrow> api_reply \<times> ('f, 'e) api_world" where
  "delete_handler d param = with_id param (\<lambda>i w.
     (case on_db (delete_server (hd_sql d) i) w of
        (Inl e, w1) \<Rightarrow>
          (if errors_is e ErrNotFound then (write_err 404 ''server not found'', w1)
           else (write_err 500 (err_msg e), w1))
      | (Inr _, w1) \<Rightarrow>
          (write_json 204 NoBody, if hd_deleted_hook d then w1\<lparr>hw_deleted := hw_deleted w1 @ [i]\<rparr> else w1)))"

definition get_handler :: "string \<Rightarrow> ('f, 'e) api_world \<Rightarrow> api_reply \<times> ('f, 'e) api_world" where
  "get_handler param = with_id param (\<lambda>i. with_server i (\<lambda>s w. (write_json 200 (ServerBody (to_dto s)), w)))"

definition test_connection_handler ::
  "'e api_deps \<Rightarrow> string \<Rightarrow> ('f, 'e) api_world \<Rightarrow> api_reply \<times> ('f, 'e) api_world" where
  "test_connection_handler d param = with_id param (\<lambda>i. with_server i (\<lambda>srv w.
     (case ping (hd_run d) (hd_ping_start d) (hd_ping_end d) (hw_exec w) (tgt_from_server srv) of
        (Inl e, ex) \<Rightarrow>
          (write_json 200 (TestBody \<lparr>tc_Reachable = False, tc_LatencyMs = 0, tc_Error = err_msg e,
             tc_ErrorKind = classify_ping_error e\<rparr>),
           snd (on_db (set_server_status (hd_sql d) (hd_now d) i ''unreachable'' (err_msg e)) (w\<lparr>hw_exec := ex\<rparr>)))
      | (Inr lat, ex) \<Rightarrow>
          (write_json 200 (TestBody \<lparr>tc_Reachable = True, tc_LatencyMs = milliseconds lat, tc_Error = [],
             tc_ErrorKind = []\<rparr>),
           snd (on_db (set_server_status (hd_sql d) (hd_now d) i ''reachable'' []) (w\<lparr>hw_exec := ex\<rparr>))))))"

definition deploy_cmd :: string where
  "deploy_cmd = ''mkdir -p \"$HOME/.frappe-monitor\" && '' @
     ''cat > \"$HOME/.frappe-monitor/frappe-monitor-collect.sh\" && '' @
     ''chmod +x \"$HOME/.frappe-monitor/frappe-monitor-collect.sh\"''"

definition deploy_handler ::
  "'e api_deps \<Rightarrow> string \<Rightarrow> ('f, 'e) api_world \<Rightarrow> api_reply \<times> ('f, 'e) api_world" where
  "deploy_handler d param = with_id param (\<lambda>i. with_server i (\<lambda>srv w.
     (case hd_run_input d (hw_exec w) (tgt_from_server srv) deploy_cmd (hd_collector_script d) of
        ((out, Some e), ex) \<Rightarrow>
          (write_err (status_for_ssh_error e) (''deploy failed: '' @ err_msg e), w\<lparr>hw_exec := ex\<rparr>)
      | ((out, None), ex) \<Rightarrow>
          (write_json 200 (DeployBody True (hd_collector_version d)), w\<lparr>hw_exec := ex\<rparr>))))"

section \<open>System snapshots\<close>

definition failed_snapshot :: "int \<Rightarrow> string \<Rightarrow> system_snapshot" where
  "failed_snapshot i msg = \<lparr>ss_ServerID = i, ss_CapturedAt = zero_time, ss_Payload = None, ss_LastError = msg\<rparr>"

definition refresh_handler ::
  "'e api_deps \<Rightarrow> string \<Rightarrow> ('f, 'e) api_world \<Rightarrow> api_reply \<times> ('f, 'e) api_world" where
  "refresh_handler d param = with_id param (\<lambda>i. with_server i (\<lambda>srv w.
     (let upsert = (\<lambda>snap. on_db (upsert_system_snapshot (hd_sql d) (hd_now d) snap)) in
      case hd_run_input d (hw_exec w) (tgt_from_server srv) ''bash -s'' (hd_system_script d) of
        ((stdout, Some e), ex) \<Rightarrow>
          (write_err (status_for_ssh_error e) (''system refresh failed: '' @ err_msg e),
           snd (upsert (failed_snapshot i (err_msg e)) (w\<lparr>hw_exec := ex\<rparr>)))
      | ((stdout, None), ex) \<Rightarrow>
          (if \<not> hd_json_valid d stdout then
             (let msg = ''snapshot output is not valid JSON: '' @ truncate stdout 256 in
              (write_err 502 msg, snd (upsert (failed_snapshot i msg) (w\<lparr>hw_exec := ex\<rparr>))))
           else
             (case upsert \<lparr>ss_ServerID = i, ss_CapturedAt = zero_time, ss_Payload = Some stdout, ss_LastError = []\<rparr>
                (w\<lparr>hw_exec := ex\<rparr>) of
                (Inl e, w1) \<Rightarrow> (write_err 500 (''store snapshot: '' @ err_msg e), w1)
              | (Inr _, w1) \<Rightarrow>
                  (case on_db (get_system_snapshot i) w1 of
                     (Inl e, w2) \<Rightarrow> (write_err 500 (''read back snapshot: '' @ err_msg e), w2)
                   | (Inr snap, w2) \<Rightarrow>
                       (write_json 200 (SnapshotBody \<lparr>sn_CapturedAt = ss_CapturedAt snap,
                          sn_Payload = ss_Payload snap, sn_LastError = []\<rparr>), w2)))))))"

definition get_system_handler ::
  "'e api_deps \<Rightarrow> string \<Rightarrow> ('f, 'e) api_world \<Rightarrow> api_reply \<times> ('f, 'e) api_world" where
  "get_system_handler d param = with_id param (\<lambda>i w.
     (case on_db (get_system_snapshot i) w of
        (Inl e, w1) \<Rightarrow>
          (if errors_is e ErrNotFound
           then (write_err 404 (''no snapshot yet '' @ [CHR 0xE2, CHR 0x80, CHR 0x94] @ '' POST /refresh-system''), w1)
           else (write_err 500 (err_msg e), w1))
      | (Inr snap, w1) \<Rightarrow>
          (write_json 200 (SnapshotBody
             \<lparr>sn_CapturedAt = ss_CapturedAt snap,
              sn_Payload = (case ss_Payload snap of
                 None \<Rightarrow> None | Some p \<Rightarrow> if hd_json_valid d p then Some p else None),
              sn_LastError = ss_LastError snap\<rparr>), w1)))"

section \<open>The routes\<close>

datatype api_request =
    PostServers "create_server_req result"
  | GetServers
  | GetServer string
  | PatchServer string "patch_server_req result"
  | DeleteServer string
  | PostTestConnection string
  | PostDeployCollector string
  | PostRefreshSystem string
  | GetSystem string

fun serve :: "'e api_deps \<Rightarrow> api_request \<Rightarrow> ('f, 'e) api_world \<Rightarrow> api_reply \<times> ('f, 'e) api_world" where
  "serve d (PostServers body) w = create_handler d body w"
| "serve d GetServers w = list_handler w"
| "serve d (GetServer i) w = get_handler i w"
| "serve d (PatchServer i body) w = patch_handler d i body w"
| "serve d (DeleteServer i) w = delete_handler d i w"
| "serve d (PostTestConnection i) w = test_connection_handler d i w"
| "serve d (PostDeployCollector i) w = deploy_handler d i w"
| "serve d (PostRefreshSystem i) w = refresh_handler d i w"
| "serve d (GetSystem i) w = get_system_handler d i w"

text \<open>The routes behind the gate.\<close>

definition serve_api ::
  "mac \<Rightarrow> string \<Rightarrow> credentials \<Rightarrow> 'e api_deps \<Rightarrow> api_request \<Rightarrow> ('f, 'e) api_world \<Rightarrow> api_reply \<times> ('f, 'e) api_world" where
  "serve_api hmac password cr d rq =
     auth_gate hmac password (hd_now d) cr (write_err 401 ''unauthorized'') (serve d rq)"

section \<open>Creating a server\<close>

lemma on_db_eq: "op (hw_db w) = (r, db) \<Longrightarrow> on_db op w = (r, w\<lparr>hw_db := db\<rparr>)"
  by (simp add: on_db_def)

lemma world_same [simp]: "w\<lparr>hw_db := hw_db w\<rparr> = w"
  by simp

lemma with_id_format [simp]: "is_int64 i \<Longrightarrow> with_id (format_int i) k w = k i w"
  by (simp add: with_id_def)

definition create_input :: "create_server_req \<Rightarrow> new_server" where
  "create_input req = \<lparr>ns_Name = cq_Name req, ns_Hostname = cq_Hostname req,
     ns_SSHUser = (if cq_SSHUser req = [] then ''monitor'' else cq_SSHUser req),
     ns_SSHPort = (if cq_SSHPort req = 0 then 22 else cq_SSHPort req),
     ns_SSHKeyPath = cq_SSHKeyPath req,
     ns_BenchPaths = clean_bench_paths (cq_BenchPaths req), ns_Labels = cq_Labels req\<rparr>"

definition hostname_taken :: "'f db \<Rightarrow> string \<Rightarrow> bool" where
  "hostname_taken db h \<longleftrightarrow> h \<in> es_Hostname ` set (db_servers db)"

lemma create_handler_cases:
  assumes "healthy (hw_db w)" "contains (sql_unique_msg (hd_sql d) ''servers.hostname'') ''hostname''"
  shows "(\<exists>e. create_handler d (Inr req) w = (e, w) \<and>
       (re_status e = 400 \<and> \<not> valid_new_server (create_input req) \<or>
        re_status e = 409 \<and> valid_new_server (create_input req) \<and> hostname_taken (hw_db w) (cq_Hostname req))) \<or>
    (\<exists>s db'. create_handler d (Inr req) w =
         (write_json 201 (ServerBody (to_dto s)),
          w\<lparr>hw_db := db', hw_created := hw_created w @ (if hd_created_hook d then [sv_ID s] else [])\<rparr>) \<and>
       create_server (hd_sql d) (hd_now d) (create_input req) (hw_db w) = (Inr s, db') \<and>
       valid_new_server (create_input req) \<and> \<not> hostname_taken (hw_db w) (cq_Hostname req) \<and>
       sv_ID s = next_server (hw_db w) \<and> get_server (sv_ID s) db' = (Inr s, db') \<and>
       map ent_to_server (db_servers db') = map ent_to_server (db_servers (hw_db w)) @ [s])"
proof -
  let ?inp = "create_input req"
  have h: "db_ok (hw_db w)" "db_faults (hw_db w) = []" using assms(1) by (simp_all add: healthy_def)
  note spec = create_server_effect [OF h assms(2), where now = "hd_now d" and inp = ?inp]
  obtain res db' where c: "create_server (hd_sql d) (hd_now d) ?inp (hw_db w) = (res, db')" by (metis surj_pair)
  have on: "on_db (create_server (hd_sql d) (hd_now d) ?inp) w = (res, w\<lparr>hw_db := db'\<rparr>)" by (simp add: on_db_def c)
  have handler: "create_handler d (Inr req) w =
      (if cq_Name req = [] \<or> cq_Hostname req = [] \<or> cq_SSHKeyPath req = []
       then (write_err 400 ''name, hostname, ssh_key_path are required'', w)
       else case on_db (create_server (hd_sql d) (hd_now d) ?inp) w of
         (Inl e, w1) \<Rightarrow>
           (if errors_is e ErrDuplicateHostname then (write_err 409 ''hostname already exists'', w1)
            else (write_err 400 (err_msg e), w1))
       | (Inr s, w1) \<Rightarrow>
           (write_json 201 (ServerBody (to_dto s)),
            if hd_created_hook d then w1\<lparr>hw_created := hw_created w1 @ [sv_ID s]\<rparr> else w1))"
    unfolding create_handler_def create_input_def by (simp only: sum.case)
  have valid: "valid_new_server ?inp \<Longrightarrow> \<not> (cq_Name req = [] \<or> cq_Hostname req = [] \<or> cq_SSHKeyPath req = [])"
    by (simp add: valid_new_server_def create_input_def)
  have host: "ns_Hostname ?inp = cq_Hostname req" by (simp add: create_input_def)
  show ?thesis
  proof (cases "cq_Name req = [] \<or> cq_Hostname req = [] \<or> cq_SSHKeyPath req = []")
    case True
    then have "\<not> valid_new_server ?inp" using valid by blast
    with True show ?thesis by (simp add: handler write_err_def)
  next
    case False
    show ?thesis
    proof (cases res)
      case (Inl e)
      then have e: "db' = hw_db w" "if valid_new_server ?inp
          then e = err_duplicate_hostname \<and> ns_Hostname ?inp \<in> es_Hostname ` set (db_servers (hw_db w))
          else errors_is e ValidationErr"
        using spec by (simp_all add: c)
      show ?thesis
      proof (cases "valid_new_server ?inp")
        case True
        then have "errors_is e ErrDuplicateHostname" "hostname_taken (hw_db w) (cq_Hostname req)"
          using e(2) by (simp_all add: err_duplicate_hostname_def errors_is_def hostname_taken_def host)
        with True False e(1) show ?thesis by (simp add: handler on Inl write_err_def)
      next
        case bad: False
        obtain e' where e': "server_create_check (hd_sql d) (server_create_defaults (hd_now d)
            (empty_mutation\<lparr>mu_Name := Some (ns_Name ?inp), mu_Hostname := Some (ns_Hostname ?inp),
            mu_SSHUser := Some (ns_SSHUser ?inp), mu_SSHPort := Some (ns_SSHPort ?inp),
            mu_SSHKeyPath := Some (ns_SSHKeyPath ?inp), mu_Labels := ns_Labels ?inp,
            mu_BenchPaths := ns_BenchPaths ?inp\<rparr>)) = Some e'"
          using bad create_check_new by (fastforce simp: valid_new_server_def)
        have k: "err_chain e' = [ValidationErr]" by (rule server_create_check_kind [OF e'])
        have "e = e'" using c e' k h(2) Inl
          by (simp add: create_server_def server_create_save_def Let_def is_unique_hostname_violation_def errors_is_def)
        with k have "\<not> errors_is e ErrDuplicateHostname" by (simp add: errors_is_def)
        with bad False e(1) show ?thesis by (simp add: handler on Inl write_err_def)
      qed
    next
      case (Inr s)
      note made = spec [unfolded c Inr prod.case sum.case]
      have "valid_new_server ?inp" "\<not> hostname_taken (hw_db w) (cq_Hostname req)"
        "get_server (sv_ID s) db' = (Inr s, db')"
        "map ent_to_server (db_servers db') = map ent_to_server (db_servers (hw_db w)) @ [s]"
        unfolding hostname_taken_def using made unfolding host by blast+
      moreover have "sv_ID s = next_server (hw_db w)" using made by (elim conjE) simp
      ultimately show ?thesis using False c Inr by (simp add: handler on)
    qed
  qed
qed


definition deps_example :: "unit api_deps" where
  "deps_example =
     \<lparr>hd_sql = msg_env, hd_run = (\<lambda>e t c. (([], None), e)), hd_run_input = (\<lambda>e t c i. ((''{}'', None), e)),
      hd_collector_script = [], hd_collector_version = ''1'', hd_system_script = [],
      hd_json_valid = (\<lambda>s. s = ''{}''), hd_created_hook = True, hd_deleted_hook = True,
      hd_now = 5, hd_ping_start = 0, hd_ping_end = 0\<rparr>"

definition api_world_example :: "unit db \<Rightarrow> (unit, unit) api_world" where
  "api_world_example db = \<lparr>hw_db = db, hw_exec = (), hw_created = [], hw_deleted = []\<rparr>"

definition req_example :: create_server_req where
  "req_example = \<lparr>cq_Name = ''web1'', cq_Hostname = ''h1'', cq_SSHUser = [], cq_SSHPort = 0, cq_SSHKeyPath = ''k'',
     cq_BenchPaths = None, cq_Labels = None\<rparr>"

lemma msg_env_hostname: "contains (sql_unique_msg msg_env ''servers.hostname'') ''hostname''"
  by (simp add: msg_env_def contains_def has_prefix_def)


section \<open>Identifiers\<close>

text \<open>The requests that name a server.\<close>

definition server_requests :: "string \<Rightarrow> patch_server_req \<Rightarrow> api_request list" where
  "server_requests param req =
     [GetServer param, PatchServer param (Inr req), DeleteServer param, PostTestConnection param,
      PostDeployCollector param, PostRefreshSystem param, GetSystem param]"

definition valid_patch :: "patch_server_req \<Rightarrow> bool" where
  "valid_patch req \<longleftrightarrow> pq_Name req \<noteq> Some [] \<and> pq_Hostname req \<noteq> Some [] \<and> pq_SSHKeyPath req \<noteq> Some [] \<and>
     (\<forall>p. pq_SSHPort req = Some p \<longrightarrow> 1 \<le> p)"

lemma update_unknown:
  assumes "healthy db" "server_of db i = None" "up_Name inp \<noteq> Some []" "up_Hostname inp \<noteq> Some []"
    "up_SSHKeyPath inp \<noteq> Some []" "\<forall>p. up_SSHPort inp = Some p \<longrightarrow> 1 \<le> p"
  shows "update_server env now i inp db = (Inl err_not_found, db)"
proof -
  let ?m = "empty_mutation\<lparr>mu_Name := up_Name inp, mu_Hostname := up_Hostname inp,
            mu_SSHUser := up_SSHUser inp, mu_SSHPort := up_SSHPort inp,
            mu_SSHKeyPath := up_SSHKeyPath inp, mu_Labels := up_Labels inp, mu_BenchPaths := up_BenchPaths inp\<rparr>"
  have "server_update_check env ?m = None"
    using assms(3-6) by (auto simp: server_update_check_def first_error_None validator_facts empty_mutation_def
        split: option.splits)
  with assms(1,2) show ?thesis
    by (simp add: update_server_def server_update_save_def Let_def ent_not_found_def errors_is_def
        err_not_found_def healthy_def server_of_def)
qed

lemma snapshot_of_unknown: "db_ok db \<Longrightarrow> server_of db i = None \<Longrightarrow> snapshot_of db i = None"
  unfolding snapshot_of_def server_of_def db_ok_def snapshots_ok_def by (force simp: find_None_iff)

lemma get_snapshot_unknown:
  assumes "healthy db" "server_of db i = None"
  shows "get_system_snapshot i db = (Inl err_not_found, db)"
  using assms snapshot_of_unknown [of db i]
  by (simp add: get_system_snapshot_def healthy_def only_snapshot ent_not_found_def errors_is_def err_not_found_def)

lemma delete_unknown:
  assumes "healthy db" "server_of db i = None"
  shows "delete_server env i db = (Inl err_not_found, db)"
  using assms delete_server_effect [of db env i] by (auto simp: healthy_def server_of_def find_None_iff)

text \<open>
  Identifiers. On a healthy store every request for a server that does not exist is answered with 404, and
  every request whose identifier is not a number with 400; in both cases nothing changes, no
  hook is called and no command is run.
\<close>

lemma unknown_server_requests:
  assumes "healthy (hw_db w)" "server_of (hw_db w) i = None" "is_int64 i" "valid_patch req" "parse_int64 bad = Inl e"
  shows "(\<forall>rq \<in> set (server_requests (format_int i) req). re_status (fst (serve d rq w)) = 404 \<and> snd (serve d rq w) = w) \<and>
    (\<forall>rq \<in> set (server_requests bad req). serve d rq w = (write_err 400 ''invalid id'', w))"
proof -
  have srv: "on_db (get_server i) w = (Inl err_not_found, w)"
    using get_server_healthy [OF assms(1), of i] assms(2) by (simp add: on_db_def)
  have nf: "errors_is err_not_found ErrNotFound" by (simp add: errors_is_def err_not_found_def)
  have patch: "on_db (update_server (hd_sql d) (hd_now d) i
      \<lparr>up_Name = pq_Name req, up_Hostname = pq_Hostname req, up_SSHUser = pq_SSHUser req,
       up_SSHPort = pq_SSHPort req, up_SSHKeyPath = pq_SSHKeyPath req,
       up_BenchPaths = clean_bench_paths (pq_BenchPaths req), up_Labels = pq_Labels req\<rparr>) w = (Inl err_not_found, w)"
    using update_unknown [OF assms(1,2)] assms(4) by (simp add: on_db_def valid_patch_def)
  have port: "\<not> (case pq_SSHPort req of None \<Rightarrow> False | Some p \<Rightarrow> p \<le> 0)"
    using assms(4) by (auto simp: valid_patch_def split: option.split)
  have "\<forall>rq \<in> set (server_requests (format_int i) req). re_status (fst (serve d rq w)) = 404 \<and> snd (serve d rq w) = w"
    using assms(3) srv nf patch port get_snapshot_unknown [OF assms(1,2)] delete_unknown [OF assms(1,2), of "hd_sql d"]
    by (simp add: server_requests_def get_handler_def with_server_def patch_handler_def delete_handler_def
        test_connection_handler_def deploy_handler_def refresh_handler_def get_system_handler_def write_err_def on_db_def)
  moreover have "\<forall>rq \<in> set (server_requests bad req). serve d rq w = (write_err 400 ''invalid id'', w)"
    using assms(5) by (simp add: server_requests_def get_handler_def patch_handler_def delete_handler_def
        test_connection_handler_def deploy_handler_def refresh_handler_def get_system_handler_def with_id_def)
  ultimately show ?thesis by blast
qed

definition patch_example :: patch_server_req where
  "patch_example = \<lparr>pq_Name = Some ''n'', pq_Hostname = None, pq_SSHUser = None, pq_SSHPort = None,
     pq_SSHKeyPath = None, pq_BenchPaths = None, pq_Labels = None\<rparr>"

lemma unknown_server_requests_witness:
  "re_status (fst (serve deps_example (DeleteServer ''7'') (api_world_example db1))) = 404 \<and>
   serve deps_example (PostRefreshSystem ''x'') (api_world_example db1) =
     (write_err 400 ''invalid id'', api_world_example db1)"
proof -
  have h: "healthy (hw_db (api_world_example db1))" "server_of (hw_db (api_world_example db1)) 7 = None"
    using db1_healthy by (simp_all add: api_world_example_def healthy_def) (simp add: server_of_def db1_eq empty_db_def)
  have v: "is_int64 7" "valid_patch patch_example" by (simp_all add: is_int64_def valid_patch_def patch_example_def)
  have bad: "parse_int64 ''x'' = Inl ErrSyntax" by (simp add: parse_int64_def parse_uint_def digit_val_def)
  have seven: "format_int 7 = ''7''" by (simp add: format_int_def dec_nat.simps digit_char_def) code_simp
  show ?thesis
    using unknown_server_requests [OF h v bad, of deps_example] unfolding seven
    by (simp add: server_requests_def del: serve.simps)
qed

section \<open>Refreshing a snapshot\<close>

lemma refresh_entered:
  assumes "on_db (get_server i) w = (Inr srv, w)" "is_int64 i"
    "hd_run_input d (hw_exec w) (server_target srv) ''bash -s'' (hd_system_script d) = ((out, err), ex)"
  shows "serve d (PostRefreshSystem (format_int i)) w =
      (case ((out, err), ex) of
        ((stdout, Some e), ex) \<Rightarrow>
          (write_err (status_for_ssh_error e) (''system refresh failed: '' @ err_msg e),
           snd (on_db (upsert_system_snapshot (hd_sql d) (hd_now d) (failed_snapshot i (err_msg e))) (w\<lparr>hw_exec := ex\<rparr>)))
      | ((stdout, None), ex) \<Rightarrow>
          (if \<not> hd_json_valid d stdout then
             (write_err 502 (''snapshot output is not valid JSON: '' @ truncate stdout 256),
              snd (on_db (upsert_system_snapshot (hd_sql d) (hd_now d)
                (failed_snapshot i (''snapshot output is not valid JSON: '' @ truncate stdout 256))) (w\<lparr>hw_exec := ex\<rparr>)))
           else
             (case on_db (upsert_system_snapshot (hd_sql d) (hd_now d)
                 \<lparr>ss_ServerID = i, ss_CapturedAt = zero_time, ss_Payload = Some stdout, ss_LastError = []\<rparr>)
                (w\<lparr>hw_exec := ex\<rparr>) of
                (Inl e, w1) \<Rightarrow> (write_err 500 (''store snapshot: '' @ err_msg e), w1)
              | (Inr _, w1) \<Rightarrow>
                  (case on_db (get_system_snapshot i) w1 of
                     (Inl e, w2) \<Rightarrow> (write_err 500 (''read back snapshot: '' @ err_msg e), w2)
                   | (Inr snap, w2) \<Rightarrow>
                       (write_json 200 (SnapshotBody \<lparr>sn_CapturedAt = ss_CapturedAt snap,
                          sn_Payload = ss_Payload snap, sn_LastError = []\<rparr>), w2)))))"
proof -
  have tgt: "tgt_from_server srv = server_target srv" by (simp add: tgt_from_server_def server_target_def)
  show ?thesis
    using assms(1,3) unfolding serve.simps refresh_handler_def with_id_format [OF assms(2)] with_server_def
    by (simp only: prod.case sum.case tgt Let_def)
qed

text \<open>
  C22. A refresh never loses the last good inventory. For a server with a stored snapshot, a refresh that
  yields valid JSON is answered with it and read back from then on, without an error; one whose command
  fails or yields anything else is answered with 502, 504 or 500, and from then on the old
  payload is read back with the new error text.
\<close>

theorem refresh_then_read:
  assumes "healthy (hw_db w)" "server_of (hw_db w) i = Some r" "snapshot_of (hw_db w) i = Some s" "is_int64 i"
    "\<not> hd_json_valid d []"
    "hd_run_input d (hw_exec w) (server_target (ent_to_server r)) ''bash -s'' (hd_system_script d) = ((out, err), ex)"
  shows "case serve d (PostRefreshSystem (format_int i)) w of (rep, w') \<Rightarrow>
    serve d (GetSystem (format_int i)) w' =
      (if err = None \<and> hd_json_valid d out
       then (write_json 200 (SnapshotBody \<lparr>sn_CapturedAt = hd_now d, sn_Payload = Some out, sn_LastError = []\<rparr>), w')
       else (write_json 200 (SnapshotBody \<lparr>sn_CapturedAt = hd_now d,
           sn_Payload = (if hd_json_valid d (en_Payload s) then Some (en_Payload s) else None),
           sn_LastError = (case err of Some e \<Rightarrow> err_msg e
             | None \<Rightarrow> ''snapshot output is not valid JSON: '' @ truncate out 256)\<rparr>), w')) \<and>
    (if err = None \<and> hd_json_valid d out
     then rep = write_json 200 (SnapshotBody \<lparr>sn_CapturedAt = hd_now d, sn_Payload = Some out, sn_LastError = []\<rparr>)
     else re_status rep = (case err of Some e \<Rightarrow> status_for_ssh_error e | None \<Rightarrow> 502))"
proof -
  have h: "db_ok (hw_db w)" "db_faults (hw_db w) = []" using assms(1) by (simp_all add: healthy_def)
  have srv: "on_db (get_server i) w = (Inr (ent_to_server r), w)"
    using get_server_healthy [OF assms(1), of i] assms(2) by (simp add: on_db_def)
  let ?up = "\<lambda>inp. upsert_system_snapshot (hd_sql d) (hd_now d) inp (hw_db w)"
  have up: "?up inp = (Inr (), snd (?up inp))" "get_system_snapshot i (snd (?up inp)) =
      (Inr \<lparr>ss_ServerID = i, ss_CapturedAt = hd_now d,
         ss_Payload = Some (case ss_Payload inp of None \<Rightarrow> en_Payload s | Some p \<Rightarrow> if p = [] then en_Payload s else p),
         ss_LastError = ss_LastError inp\<rparr>, snd (?up inp))"
    if "ss_ServerID inp = i" for inp
    using snapshot_upsert_effect [OF h, of inp s "hd_sql d" "hd_now d"] assms(3) that by (simp_all add: prod_eq_iff)
  have fail: "serve d (GetSystem (format_int i)) (snd (on_db (upsert_system_snapshot (hd_sql d) (hd_now d) (failed_snapshot i msg))
        (w\<lparr>hw_exec := ex\<rparr>))) =
      (write_json 200 (SnapshotBody \<lparr>sn_CapturedAt = hd_now d,
         sn_Payload = (if hd_json_valid d (en_Payload s) then Some (en_Payload s) else None), sn_LastError = msg\<rparr>),
       snd (on_db (upsert_system_snapshot (hd_sql d) (hd_now d) (failed_snapshot i msg)) (w\<lparr>hw_exec := ex\<rparr>)))" for msg
    using up [of "failed_snapshot i msg"] assms(4)
    by (simp add: get_system_handler_def on_db_def failed_snapshot_def case_prod_unfold)
  note enter = refresh_entered [OF srv assms(4,6)]
  show ?thesis
  proof (cases err)
    case (Some e)
    then show ?thesis unfolding enter using fail by (simp add: write_err_def del: serve.simps)
  next
    case None
    show ?thesis
    proof (cases "hd_json_valid d out")
      case False
      with None show ?thesis unfolding enter using fail by (simp add: write_err_def del: serve.simps)
    next
      case True
      then have ne: "out \<noteq> []" using assms(5) by auto
      let ?inp = "\<lparr>ss_ServerID = i, ss_CapturedAt = zero_time, ss_Payload = Some out, ss_LastError = []\<rparr>"
      have "on_db (upsert_system_snapshot (hd_sql d) (hd_now d) ?inp) (w\<lparr>hw_exec := ex\<rparr>) =
          (Inr (), w\<lparr>hw_db := snd (?up ?inp), hw_exec := ex\<rparr>)"
        using up(1) [of ?inp] by (simp add: on_db_def case_prod_unfold) (metis fst_conv)
      with up(2) [of ?inp] None True ne show ?thesis
        unfolding enter using assms(4) by (simp add: on_db_def get_system_handler_def)
    qed
  qed
qed

theorem refresh_then_read_witness:
  "\<exists>w :: (unit, unit) api_world. serve deps_example (GetSystem (format_int 1)) w =
     (write_json 200 (SnapshotBody \<lparr>sn_CapturedAt = 5, sn_Payload = Some ''{}'', sn_LastError = []\<rparr>), w)"
proof -
  let ?w = "api_world_example db2"
  have h: "healthy (hw_db ?w)" using db2_ok by (simp add: api_world_example_def healthy_def)
  obtain r where r: "server_of (hw_db ?w) 1 = Some r"
    using snapshot_of_unknown [of db2 1] db2_ok by (cases "server_of db2 1") (auto simp: api_world_example_def)
  obtain s where s: "snapshot_of (hw_db ?w) 1 = Some s" using db2_ok by (auto simp: api_world_example_def)
  have v: "is_int64 1" "\<not> hd_json_valid deps_example []" by (simp_all add: is_int64_def deps_example_def)
  have run: "hd_run_input deps_example (hw_exec ?w) (server_target (ent_to_server r)) ''bash -s''
      (hd_system_script deps_example) = ((''{}'', None), ())"
    by (simp add: deps_example_def)
  obtain rep w' where w': "serve deps_example (PostRefreshSystem (format_int 1)) ?w = (rep, w')" by (metis surj_pair)
  have fields: "hd_now deps_example = 5" "hd_json_valid deps_example ''{}''" by (simp_all add: deps_example_def)
  have "serve deps_example (GetSystem (format_int 1)) w' =
     (write_json 200 (SnapshotBody \<lparr>sn_CapturedAt = 5, sn_Payload = Some ''{}'', sn_LastError = []\<rparr>), w')"
    using refresh_then_read [OF h r s v run] fields unfolding w' by (simp del: serve.simps)
  then show ?thesis by blast
qed

section \<open>Behind the gate\<close>

text \<open>
  The gate. With a password configured, a request without a session cookie and without the right basic
  password is answered with 401 and changes nothing, whatever it asks for; the cookie that a
  successful login sets opens every route until the second its lifetime ends, and none after that.
\<close>

lemma login_opens_gate:
  assumes "password \<noteq> []" "\<And>k m. hmac k m \<noteq> []" "is_int64 (unix_seconds (t0 + session_ttl))"
    "login_handler hmac password t0 r th = (rep, th')" "ar_status rep = 204"
  shows "(cd_Cookie cr = None \<and> (\<forall>u got. cd_Basic cr = Some (u, got) \<longrightarrow> got \<noteq> password) \<longrightarrow>
      serve_api hmac password cr d rq w = (write_err 401 ''unauthorized'', w)) \<and>
    (\<exists>c. ar_cookie rep = Some c \<and> ok_HttpOnly c \<and> ok_SameSiteStrict c \<and>
       serve_api hmac password \<lparr>cd_Cookie = Some (ok_Value c), cd_Basic = None\<rparr> d rq w =
         (if unix_seconds (hd_now d) \<le> unix_seconds (t0 + session_ttl) then serve d rq w
          else (write_err 401 ''unauthorized'', w)))"
proof -
  have "ar_cookie rep = Some \<lparr>ok_Name = session_cookie_name, ok_Value = issue_session hmac t0 password session_ttl,
      ok_Path = ''/'', ok_MaxAge = session_ttl div second, ok_HttpOnly = True, ok_SameSiteStrict = True,
      ok_Secure = request_secure r\<rparr>"
    using assms(4,5) by (auto simp: login_handler_def Let_def auth_error_def split: if_splits sum.splits)
  then show ?thesis
    using assms(1) validate_issued [OF assms(2,3), where at = "hd_now d" and password = password and other = password]
    by (auto simp: serve_api_def auth_gate_def authorized_def split: option.split)
qed

lemma login_opens_gate_witness:
  "serve_api (\<lambda>k m. CHR ''x'' # k) ''pw'' \<lparr>cd_Cookie = None, cd_Basic = Some (''u'', ''guess'')\<rparr> deps_example (DeleteServer ''1'')
     (api_world_example db1) = (write_err 401 ''unauthorized'', api_world_example db1)"
proof -
  let ?r = "wrong_login\<lparr>lr_Password := Inr ''pw''\<rparr>" and ?h = "\<lambda>k m. CHR ''x'' # k :: string"
  obtain rep th where l: "login_handler ?h ''pw'' 0 ?r login_throttle = (rep, th)" "ar_status rep = 204"
    by (simp add: login_handler_def Let_def blocked_def login_throttle_def new_login_throttle_def)
  have b: "is_int64 (unix_seconds (0 + session_ttl))" by (simp add: unix_seconds_def session_ttl_def is_int64_def)
  have pw: "''pw'' \<noteq> []" by simp
  show ?thesis
    using login_opens_gate [OF pw _ b l, of "\<lparr>cd_Cookie = None, cd_Basic = Some (''u'', ''guess'')\<rparr>" deps_example
        "DeleteServer ''1''" "api_world_example db1"]
    by simp
qed

end
