(* ===== verification/Url_Query.thy ===== *)
theory Url_Query
  imports Http_Client
begin

text \<open>
  Reading a query string, as \<open>net/url\<close> does: \<open>QueryUnescape\<close>, \<open>ParseQuery\<close> and \<open>Values.Get\<close>. The API
  reads the query of a request with them, and the encoding of an outbound query reads back.
\<close>

definition url_hex_val :: "char \<Rightarrow> nat option" where
  "url_hex_val c =
     (let n = (of_char c :: nat) in
      if 48 \<le> n \<and> n \<le> 57 then Some (n - 48)
      else if 65 \<le> n \<and> n \<le> 70 then Some (n - 55)
      else if 97 \<le> n \<and> n \<le> 102 then Some (n - 87)
      else None)"

text \<open>A percent sign that two hexadecimal digits do not follow is an error.\<close>

fun query_unescape :: "string \<Rightarrow> string option" where
  "query_unescape [] = Some []"
| "query_unescape (c # s) =
     (if c = CHR ''%'' then
        (case s of
           a # b # r \<Rightarrow>
             (case (url_hex_val a, url_hex_val b) of
                (Some x, Some y) \<Rightarrow> map_option (Cons (char_of (16 * x + y))) (query_unescape r)
              | _ \<Rightarrow> None)
         | _ \<Rightarrow> None)
      else map_option (Cons (if c = CHR ''+'' then CHR '' '' else c)) (query_unescape s))"

text \<open>\<open>strings.Cut\<close> at a byte.\<close>

definition cut_byte :: "char \<Rightarrow> string \<Rightarrow> string \<times> string" where
  "cut_byte c s = (case index_byte c s of None \<Rightarrow> (s, []) | Some i \<Rightarrow> (take i s, drop (i + 1) s))"

text \<open>One setting of a query: settings with a semicolon or a wrong escape are dropped.\<close>

definition parse_setting :: "string \<Rightarrow> (string \<times> string) option" where
  "parse_setting p =
     (if CHR '';'' \<in> set p \<or> p = [] then None
      else (case cut_byte (CHR ''='') p of
              (k, v) \<Rightarrow>
                (case (query_unescape k, query_unescape v) of
                   (Some k', Some v') \<Rightarrow> Some (k', v')
                 | _ \<Rightarrow> None)))"

definition parse_query :: "string \<Rightarrow> (string \<times> string) list" where
  "parse_query s = List.map_filter parse_setting (split_on (CHR ''&'') s)"

definition query_get :: "(string \<times> string) list \<Rightarrow> string \<Rightarrow> string" where
  "query_get kvs k = (case map_of kvs k of None \<Rightarrow> [] | Some v \<Rightarrow> v)"

section \<open>An encoded query reads back\<close>

lemma url_hex_val_upper: "d < 16 \<Longrightarrow> url_hex_val (upper_hex d) = Some d"
  by (simp add: url_hex_val_def upper_hex_def Let_def)

lemma query_unescape_byte: "query_unescape (query_escape_byte c @ s) = map_option (Cons c) (query_unescape s)"
proof -
  let ?n = "of_char c :: nat"
  have parts: "?n div 16 < 16" "?n mod 16 < 16" by (simp_all add: less_mult_imp_div_less)
  have whole: "char_of (16 * (?n div 16) + ?n mod 16) = c" by simp
  consider "is_unreserved ?n" | "\<not> is_unreserved ?n" "?n = 32" | "\<not> is_unreserved ?n" "?n \<noteq> 32" by blast
  then show ?thesis
  proof cases
    case 1
    then have "c \<noteq> CHR ''%''" "c \<noteq> CHR ''+''" by (auto simp: is_unreserved_def)
    with 1 show ?thesis by (simp add: query_escape_byte_def)
  next
    case 2
    have "c = char_of ?n" by simp
    also have "\<dots> = CHR '' ''" unfolding 2(2) by code_simp
    finally have "c = CHR '' ''" .
    with 2 show ?thesis by (simp add: query_escape_byte_def)
  next
    case 3
    then show ?thesis
      using url_hex_val_upper [OF parts(1)] url_hex_val_upper [OF parts(2)] whole
      by (simp add: query_escape_byte_def Let_def del: mult_div_mod_eq)
  qed
qed

lemma query_unescape_escape: "query_unescape (query_escape s) = Some s"
  by (induction s) (simp_all add: query_escape_def query_unescape_byte)

lemma query_escape_set: "c \<in> set (query_escape s) \<Longrightarrow> c \<noteq> CHR '';'' \<and> c \<noteq> CHR ''&'' \<and> c \<noteq> CHR ''=''"
proof -
  assume "c \<in> set (query_escape s)"
  then obtain x where x: "c \<in> set (query_escape_byte x)" by (auto simp: query_escape_def replace_bytes_def)
  have hex: "upper_hex d \<noteq> CHR '';''" if "d < 16" for d
  proof -
    have "(of_char (upper_hex d) :: nat) \<noteq> 59" using that by (simp add: upper_hex_def)
    then show ?thesis by auto
  qed
  have "upper_hex ((of_char x :: nat) div 16) \<noteq> CHR '';''" "upper_hex ((of_char x :: nat) mod 16) \<noteq> CHR '';''"
    by (rule hex, simp add: less_mult_imp_div_less, rule hex, simp)
  with x have "c \<noteq> CHR '';''" by (auto simp: query_escape_byte_def Let_def is_unreserved_def split: if_splits)
  then show ?thesis using query_escape_safe \<open>c \<in> set (query_escape s)\<close> by blast
qed

lemma parse_setting_pair: "parse_setting (query_escape k @ ''='' @ query_escape v) = Some (k, v)"
proof -
  have "cut_byte (CHR ''='') (query_escape k @ CHR ''='' # query_escape v) = (query_escape k, query_escape v)"
  proof -
    have "CHR ''='' \<notin> set (query_escape k)" using query_escape_set by blast
    then show ?thesis by (simp add: cut_byte_def index_byte_append)
  qed
  moreover have "CHR '';'' \<notin> set (query_escape k @ CHR ''='' # query_escape v)"
    using query_escape_set by fastforce
  ultimately show ?thesis by (simp add: parse_setting_def query_unescape_escape)
qed

lemma parse_encode_values: "parse_query (encode_values kvs) = kvs"
proof (cases kvs)
  case Nil
  then show ?thesis by (simp add: parse_query_def encode_values_def parse_setting_def map_filter_simps)
next
  case (Cons kv rest)
  let ?es = "map (\<lambda>(k, v). query_escape k @ ''='' @ query_escape v) kvs"
  have "CHR ''&'' \<notin> set e" if "e \<in> set ?es" for e
    using that query_escape_set by fastforce
  then have "split_on (CHR ''&'') (join ''&'' ?es) = ?es" using Cons by (intro split_join) auto
  moreover have "List.map_filter parse_setting (map (\<lambda>(k, v). query_escape k @ ''='' @ query_escape v) xs) = xs" for xs
    using parse_setting_pair by (induction xs) (auto simp: map_filter_simps)
  ultimately show ?thesis by (simp add: parse_query_def encode_values_def)
qed

end
