(* ===== verification/Api_Query.thy ===== *)
theory Api_Query
  imports Url_Query Api_Servers Alert_Eval
begin

text \<open>
  internal/api/proxy.go, hierarchy_handlers.go and alert_handlers.go: the read-only endpoints. The
  backends are the environment of the outbound calls; the JSON decoder of their answers is a
  parameter. The value of a sample is the text of \<open>value[1]\<close>, when that is a JSON string.
\<close>

section \<open>Replies\<close>

record bench_pair =
  bp_Server :: string
  bp_Bench :: string

record bench_detail =
  bd_Server :: string
  bd_Bench :: string
  bd_FrappeVersion :: string
  bd_AppsCount :: int
  bd_SupervisorRun :: int
  bd_SupervisorTotal :: int
  bd_RedisQueues :: "int go_map"

record site_pair =
  sp_Server :: string
  sp_Bench :: string
  sp_Site :: string

record 'f site_detail =
  si_Server :: string
  si_Bench :: string
  si_Site :: string
  si_HTTPStatusCode :: int
  si_HTTPResponseMs :: 'f
  si_IsHealthy :: int
  si_AvgResponseMs1h :: 'f

record alert_rule_dto =
  ad_Name :: string
  ad_Expr :: string
  ad_Severity :: string
  ad_Message :: string
  ad_FingerprintLabels :: "string list"

record 'f firing_alert_dto =
  fd_ID :: int
  fd_RuleName :: string
  fd_Fingerprint :: string
  fd_Status :: string
  fd_Value :: 'f
  fd_Labels :: "labels option"
  fd_FirstFiredAt :: time
  fd_LastNotifiedAt :: time

record 'f alerts_resp =
  al_Enabled :: bool
  al_Rules :: "alert_rule_dto list"
  al_Firing :: "'f firing_alert_dto list"

datatype 'f query_body =
    QueryError string
  | Upstream string string
  | Benches "bench_pair list"
  | Bench bench_detail
  | Sites "site_pair list"
  | Site "'f site_detail"
  | Alerts "'f alerts_resp"

record 'f query_reply =
  qr_status :: int
  qr_body :: "'f query_body"

definition query_error :: "int \<Rightarrow> string \<Rightarrow> 'f query_reply" where
  "query_error code msg = \<lparr>qr_status = code, qr_body = QueryError msg\<rparr>"

definition query_ok :: "'f query_body \<Rightarrow> 'f query_reply" where
  "query_ok body = \<lparr>qr_status = 200, qr_body = body\<rparr>"

section \<open>The query proxies\<close>

record proxy_handlers =
  ph_MetricsBaseURL :: string
  ph_LogsBaseURL :: string
  ph_MetricsTimeout :: duration
  ph_LogsTimeout :: duration

definition new_proxy_handlers :: "string \<Rightarrow> string \<Rightarrow> duration \<Rightarrow> duration \<Rightarrow> proxy_handlers" where
  "new_proxy_handlers metrics logs metrics_timeout logs_timeout =
     \<lparr>ph_MetricsBaseURL = trim_slash metrics, ph_LogsBaseURL = trim_slash logs,
      ph_MetricsTimeout = metrics_timeout, ph_LogsTimeout = logs_timeout\<rparr>"

text \<open>An empty content type is not copied; the reply then has none of its own either.\<close>

definition proxy :: "http_env \<Rightarrow> string \<Rightarrow> string \<Rightarrow> 'f query_reply" where
  "proxy env upstream kind =
     (case build_request env upstream of
        Some e \<Rightarrow> query_error 500 (''build '' @ kind @ '' request: '' @ err_msg e)
      | None \<Rightarrow>
          (case send env \<lparr>rq_method = ''GET'', rq_url = upstream, rq_content_type = [], rq_body = []\<rparr> of
             Inl e \<Rightarrow> query_error 502 (kind @ '' upstream unreachable: '' @ err_msg e)
           | Inr rs \<Rightarrow> \<lparr>qr_status = int (rs_status rs), qr_body = Upstream (rs_content_type rs) (rs_body rs)\<rparr>))"

definition proxy_query :: "http_env \<Rightarrow> string \<Rightarrow> string \<Rightarrow> string \<Rightarrow> 'f query_reply" where
  "proxy_query env base kind raw =
     (if trim_space (query_get (parse_query raw) ''query'') = []
      then query_error 400 ''missing 'query' parameter''
      else proxy env (base @ raw) kind)"

definition metrics_query :: "http_env \<Rightarrow> proxy_handlers \<Rightarrow> string \<Rightarrow> 'f query_reply" where
  "metrics_query env h raw = proxy_query env (ph_MetricsBaseURL h @ ''/api/v1/query_range?'') ''metrics'' raw"

definition logs_query :: "http_env \<Rightarrow> proxy_handlers \<Rightarrow> string \<Rightarrow> 'f query_reply" where
  "logs_query env h raw = proxy_query env (ph_LogsBaseURL h @ ''/loki/api/v1/query_range?'') ''logs'' raw"

section \<open>Benches and sites\<close>

record hierarchy_handlers =
  hh_MetricsBaseURL :: string
  hh_Timeout :: duration

definition new_hierarchy_handlers :: "string \<Rightarrow> duration \<Rightarrow> hierarchy_handlers" where
  "new_hierarchy_handlers url timeout = \<lparr>hh_MetricsBaseURL = trim_slash url, hh_Timeout = timeout\<rparr>"

definition query_instant ::
  "http_env \<Rightarrow> (string \<Rightarrow> vm_instant_response result) \<Rightarrow> hierarchy_handlers \<Rightarrow> string \<Rightarrow> vm_instant_response result" where
  "query_instant env decode h promql =
     (let rq = \<lparr>rq_method = ''GET'',
            rq_url = hh_MetricsBaseURL h @ ''/api/v1/query?'' @ encode_values [(''query'', promql)],
            rq_content_type = [], rq_body = []\<rparr>
      in case http_call env rq ''build vm request: '' ''vm unreachable: '' of
           Inl e \<Rightarrow> Inl e
         | Inr rs \<Rightarrow>
             if \<not> is_2xx rs then Inl (http_status_error ''vm '' 4096 rs)
             else (case decode (rs_body rs) of
                     Inl e \<Rightarrow> Inl (wrap_error ''vm response decode: '' e)
                   | Inr out \<Rightarrow>
                       if vr_Status out \<noteq> ''success'' then Inl (new_error (''vm error: '' @ vr_Error out))
                       else Inr out))"

definition scalar_value :: "'f float_ops \<Rightarrow> string option \<Rightarrow> 'f option" where
  "scalar_value fo raw =
     (case raw of None \<Rightarrow> None | Some s \<Rightarrow> (case parse_float fo s of Inl e \<Rightarrow> None | Inr f \<Rightarrow> Some f))"

definition metric_label :: "string go_map option \<Rightarrow> string \<Rightarrow> string" where
  "metric_label m k = (case m of None \<Rightarrow> [] | Some m \<Rightarrow> map_get m k)"

text \<open>A label matcher as \<open>Sprintf\<close> prints it: between quotes, as it is.\<close>

abbreviation quot :: char where "quot \<equiv> CHR 0x22"

definition matcher :: "string \<times> string \<Rightarrow> string" where
  "matcher kv = fst kv @ [CHR ''='', quot] @ snd kv @ [quot]"

definition selector :: "string \<Rightarrow> (string \<times> string) list \<Rightarrow> string" where
  "selector metric ls = metric @ ''{'' @ join '','' (map matcher ls) @ ''}''"

text \<open>The first sample of a query, when it succeeds and has one with a number.\<close>

definition first_value :: "'f float_ops \<Rightarrow> vm_instant_response result \<Rightarrow> 'f option" where
  "first_value fo r =
     (case r of
        Inl e \<Rightarrow> None
      | Inr resp \<Rightarrow> (case vr_Result resp of [] \<Rightarrow> None | (m, v) # rest \<Rightarrow> scalar_value fo v))"

definition set_int :: "'f float_ops \<Rightarrow> vm_instant_response result \<Rightarrow> int" where
  "set_int fo r = (case first_value fo r of None \<Rightarrow> 0 | Some f \<Rightarrow> float_to_int fo f)"

definition set_float :: "'f float_ops \<Rightarrow> vm_instant_response result \<Rightarrow> 'f" where
  "set_float fo r = (case first_value fo r of None \<Rightarrow> zero_float fo | Some f \<Rightarrow> f)"

definition list_benches :: "(string \<Rightarrow> vm_instant_response result) \<Rightarrow> 'f query_reply" where
  "list_benches q =
     (case q ''count by (server, bench) (frappe_bench_apps_count)'' of
        Inl e \<Rightarrow> query_error 502 (err_msg e)
      | Inr resp \<Rightarrow>
          query_ok (Benches (filter (\<lambda>p. bp_Server p \<noteq> [] \<and> bp_Bench p \<noteq> [])
            (map (\<lambda>(m, v). \<lparr>bp_Server = metric_label m ''server'', bp_Bench = metric_label m ''bench''\<rparr>)
               (vr_Result resp)))))"

fun first_version :: "(string go_map option \<times> string option) list \<Rightarrow> string" where
  "first_version [] = []"
| "first_version ((m, v) # rs) =
     (case (case m of None \<Rightarrow> None | Some m \<Rightarrow> map_of m ''frappe_version'') of
        Some x \<Rightarrow> x | None \<Rightarrow> first_version rs)"

fun queue_depths ::
  "'f float_ops \<Rightarrow> (string go_map option \<times> string option) list \<Rightarrow> int go_map \<Rightarrow> int go_map" where
  "queue_depths fo [] acc = acc"
| "queue_depths fo ((m, v) # rs) acc =
     (let q = metric_label m ''queue'' in
      if q = [] then queue_depths fo rs acc
      else (case scalar_value fo v of
              None \<Rightarrow> queue_depths fo rs acc
            | Some f \<Rightarrow> queue_depths fo rs (map_put acc q (float_to_int fo f))))"

definition get_bench ::
  "'f float_ops \<Rightarrow> (string \<Rightarrow> vm_instant_response result) \<Rightarrow> string \<Rightarrow> string \<Rightarrow> 'f query_reply" where
  "get_bench fo q server bench =
     (if server = [] \<or> bench = [] then query_error 400 ''server and bench are required''
      else
        (let sel = (\<lambda>metric. q (selector metric [(''server'', server), (''bench'', bench)]))
         in query_ok (Bench
              \<lparr>bd_Server = server, bd_Bench = bench,
               bd_FrappeVersion = (case sel ''frappe_bench_info'' of Inl e \<Rightarrow> [] | Inr resp \<Rightarrow> first_version (vr_Result resp)),
               bd_AppsCount = set_int fo (sel ''frappe_bench_apps_count''),
               bd_SupervisorRun = set_int fo (sel ''frappe_bench_supervisor_running''),
               bd_SupervisorTotal = set_int fo (sel ''frappe_bench_supervisor_total''),
               bd_RedisQueues = (case sel ''frappe_bench_redis_queue_depth'' of
                  Inl e \<Rightarrow> [] | Inr resp \<Rightarrow> queue_depths fo (vr_Result resp) [])\<rparr>)))"

definition list_sites :: "(string \<Rightarrow> vm_instant_response result) \<Rightarrow> 'f query_reply" where
  "list_sites q =
     (case q ''count by (server, bench, site) (frappe_site_is_healthy)'' of
        Inl e \<Rightarrow> query_error 502 (err_msg e)
      | Inr resp \<Rightarrow>
          query_ok (Sites (filter (\<lambda>p. sp_Server p \<noteq> [] \<and> sp_Bench p \<noteq> [] \<and> sp_Site p \<noteq> [])
            (map (\<lambda>(m, v). \<lparr>sp_Server = metric_label m ''server'', sp_Bench = metric_label m ''bench'',
                sp_Site = metric_label m ''site''\<rparr>) (vr_Result resp)))))"

definition get_site ::
  "'f float_ops \<Rightarrow> (string \<Rightarrow> vm_instant_response result) \<Rightarrow> string \<Rightarrow> string \<Rightarrow> string \<Rightarrow> 'f query_reply" where
  "get_site fo q server bench site =
     (if server = [] \<or> bench = [] \<or> site = [] then query_error 400 ''server, bench, and site are required''
      else
        (let ls = [(''server'', server), (''bench'', bench), (''site'', site)];
             sel = (\<lambda>metric. q (selector metric ls))
         in query_ok (Site
              \<lparr>si_Server = server, si_Bench = bench, si_Site = site,
               si_HTTPStatusCode = set_int fo (sel ''frappe_site_http_status_code''),
               si_HTTPResponseMs = set_float fo (sel ''frappe_site_http_response_ms''),
               si_IsHealthy = set_int fo (sel ''frappe_site_is_healthy''),
               si_AvgResponseMs1h = set_float fo
                 (q (''avg_over_time('' @ selector ''frappe_site_http_response_ms'' ls @ ''[1h])''))\<rparr>)))"

section \<open>Alerts\<close>

text \<open>The store may be absent: then nothing fires.\<close>

record alert_handlers =
  ah_Rules :: "rule list"
  ah_Enabled :: bool
  ah_Store :: bool

definition to_rule_dto :: "rule \<Rightarrow> alert_rule_dto" where
  "to_rule_dto r = \<lparr>ad_Name = ru_Name r, ad_Expr = ru_Expr r, ad_Severity = ru_Severity r, ad_Message = ru_Message r,
     ad_FingerprintLabels = ru_FingerprintLabels r\<rparr>"

definition to_firing_dto :: "'f alert_state \<Rightarrow> 'f firing_alert_dto" where
  "to_firing_dto a = \<lparr>fd_ID = as_ID a, fd_RuleName = as_RuleName a, fd_Fingerprint = as_Fingerprint a,
     fd_Status = as_Status a, fd_Value = as_Value a, fd_Labels = as_Labels a, fd_FirstFiredAt = as_FirstFiredAt a,
     fd_LastNotifiedAt = as_LastNotifiedAt a\<rparr>"

definition list_alerts :: "alert_handlers \<Rightarrow> 'f db \<Rightarrow> 'f query_reply \<times> 'f db" where
  "list_alerts h db =
     (let ok = (\<lambda>firing. query_ok (Alerts
        \<lparr>al_Enabled = ah_Enabled h, al_Rules = map to_rule_dto (ah_Rules h), al_Firing = firing\<rparr>))
      in if \<not> ah_Store h then (ok [], db)
         else (case list_alert_states db of
                 (Inl e, dbr) \<Rightarrow> (query_error 500 (err_msg e), dbr)
               | (Inr rows, dbr) \<Rightarrow> (ok (map to_firing_dto rows), dbr)))"

end
