(* ===== verification/Api_Pages.thy ===== *)
theory Api_Pages
  imports Api_Query
begin

text \<open>
  What the read-only endpoints show: the same instant query as the alerts client's, the series of one
  bench, and the alert states that an evaluation has left. The selector part of the query language is
  read as its documentation says: a metric name and equality matchers with quoted values.
\<close>

section \<open>Instant queries\<close>

lemma drop_slashes: "dropWhile (\<lambda>x. x = c) (replicate n c @ s) = dropWhile (\<lambda>x. x = c) s"
  by (induction n) auto

text \<open>
  C18. The dashboard and the alert evaluator each have an instant query of their own; from one base URL, with
  or without slashes at its end, they make the same request and treat every outcome alike, errors
  included, and the query string they send reads back as the one expression, for every byte string.
\<close>

theorem instant_queries_agree:
  "vm_query env decode fo (new_http_vm_client base timeout) e =
     (case query_instant env decode (new_hierarchy_handlers (base @ replicate n (CHR ''/'')) timeout') e of
        Inl err \<Rightarrow> Inl err
      | Inr out \<Rightarrow> Inr (vm_samples fo (vr_Result out))) \<and>
   parse_query (encode_values [(''query'', e)]) = [(''query'', e)]"
proof -
  have "trim_slash (base @ replicate n (CHR ''/'')) = trim_slash base"
    by (simp add: trim_slash_def trim_right_def drop_slashes)
  then show ?thesis
    by (simp add: vm_query_def query_instant_def new_http_vm_client_def new_hierarchy_handlers_def Let_def
        parse_encode_values split: sum.split)
qed

section \<open>Selectors\<close>

fun read_value :: "string \<Rightarrow> (string \<times> string) option" where
  "read_value [] = None"
| "read_value (c # s) =
     (if c = quot then Some ([], s)
      else if c = CHR 0x0A then None
      else if c = CHR 0x5C then
        (case s of
           [] \<Rightarrow> None
         | d # r \<Rightarrow> if d = quot \<or> d = CHR 0x5C then map_option (apfst (Cons d)) (read_value r) else None)
      else map_option (apfst (Cons c)) (read_value s))"

fun read_matchers :: "nat \<Rightarrow> string \<Rightarrow> (string \<times> string) list option" where
  "read_matchers 0 s = None"
| "read_matchers (Suc n) s =
     (case index_byte (CHR ''='') s of
        None \<Rightarrow> None
      | Some i \<Rightarrow>
          (case drop (i + 1) s of
             c # t \<Rightarrow>
               if c \<noteq> quot then None
               else (case read_value t of
                       Some (v, d # r) \<Rightarrow>
                         if d = CHR '','' then map_option (Cons (take i s, v)) (read_matchers n r)
                         else if d = CHR ''}'' \<and> r = [] then Some [(take i s, v)]
                         else None
                     | _ \<Rightarrow> None)
           | [] \<Rightarrow> None))"

definition read_selector :: "string \<Rightarrow> (string \<times> (string \<times> string) list) option" where
  "read_selector p =
     (case index_byte (CHR ''{'') p of
        None \<Rightarrow> None
      | Some i \<Rightarrow> map_option (Pair (take i p)) (read_matchers (length p) (drop (i + 1) p)))"

definition plain_value :: "string \<Rightarrow> bool" where
  "plain_value v \<longleftrightarrow> set v \<inter> {quot, CHR 0x5C, CHR 0x0A} = {}"

lemma read_plain_value: "plain_value v \<Longrightarrow> read_value (v @ quot # t) = Some (v, t)"
  by (induction v) (auto simp: plain_value_def)

lemma read_plain_matchers:
  "ls \<noteq> [] \<Longrightarrow> \<forall>(k, v) \<in> set ls. CHR ''='' \<notin> set k \<and> plain_value v \<Longrightarrow> length ls \<le> n \<Longrightarrow>
     read_matchers n (join '','' (map matcher ls) @ ''}'') = Some ls"
proof (induction ls arbitrary: n rule: induct_list012)
  case (2 kv)
  then obtain m where "n = Suc m" by (cases n) auto
  with 2 show ?case by (auto simp: matcher_def index_byte_append read_plain_value split: prod.splits)
next
  case (3 kv kv' ls)
  then obtain m where n: "n = Suc m" "length (kv' # ls) \<le> m" by (cases n) auto
  have "read_matchers m (join '','' (map matcher (kv' # ls)) @ ''}'') = Some (kv' # ls)"
    using 3 n(2) by (intro "3.IH"(2)) auto
  with 3 n(1) show ?case by (auto simp: matcher_def index_byte_append read_plain_value split: prod.splits)
qed simp

lemma read_selector_plain:
  assumes "CHR ''{'' \<notin> set metric" "ls \<noteq> []" "\<forall>(k, v) \<in> set ls. CHR ''='' \<notin> set k \<and> plain_value v"
  shows "read_selector (selector metric ls) = Some (metric, ls)"
proof -
  have "length ls \<le> length (join '','' (map matcher ls))" for ls :: "(string \<times> string) list"
    by (induction ls rule: induct_list012) (auto simp: matcher_def)
  then have "read_matchers (length (selector metric ls)) (join '','' (map matcher ls) @ ''}'') = Some ls"
    by (intro read_plain_matchers [OF assms(2,3)]) (simp add: selector_def le_SucI trans_le_add2)
  with assms(1) show ?thesis by (simp add: read_selector_def selector_def index_byte_append)
qed

text \<open>A value with a quote is not read as one value: it can add matchers of its own.\<close>

lemma selector_injection:
  "selector metric [(k, v @ quot # '','' @ k' @ ''='' @ quot # v')] = selector metric [(k, v), (k', v')]"
  by (simp add: selector_def matcher_def)

section \<open>The page of a bench\<close>

text \<open>The backend answers a selector with the series of the metric whose labels match; a label
  that a series does not have counts as empty.\<close>

definition matching :: "(string \<times> string) list \<Rightarrow> (string go_map \<times> string) list \<Rightarrow> (string go_map \<times> string) list" where
  "matching ls = filter (\<lambda>(l, v). \<forall>(k, x) \<in> set ls. map_get l k = x)"

definition answers_selectors ::
  "(string \<Rightarrow> vm_instant_response result) \<Rightarrow> (string \<Rightarrow> (string go_map \<times> string) list) \<Rightarrow> bool" where
  "answers_selectors q series \<longleftrightarrow>
     (\<forall>p metric ls. read_selector p = Some (metric, ls) \<longrightarrow>
        q p = Inr \<lparr>vr_Status = ''success'', vr_Result = map (\<lambda>(l, v). (Some l, Some v)) (matching ls (series metric)),
                 vr_Error = []\<rparr>)"

lemma selector_answer:
  assumes "answers_selectors q series" "plain_value server" "plain_value bench" "CHR ''{'' \<notin> set metric"
  shows "q (selector metric [(''server'', server), (''bench'', bench)]) =
    Inr \<lparr>vr_Status = ''success'', vr_Result = map (\<lambda>(l, v). (Some l, Some v))
      (matching [(''server'', server), (''bench'', bench)] (series metric)), vr_Error = []\<rparr>"
proof -
  let ?ls = "[(''server'', server), (''bench'', bench)]"
  have "read_selector (selector metric ?ls) = Some (metric, ?ls)"
    using assms(2-4) by (intro read_selector_plain) auto
  with assms(1) show ?thesis unfolding answers_selectors_def by blast
qed

text \<open>The number of a metric's first sample, as the page truncates it.\<close>

definition shown_int :: "'f float_ops \<Rightarrow> (string go_map \<times> string) list \<Rightarrow> int" where
  "shown_int fo ss =
     (case ss of [] \<Rightarrow> 0 | (l, v) # rest \<Rightarrow> (case parse_float fo v of Inl e \<Rightarrow> 0 | Inr f \<Rightarrow> float_to_int fo f))"

lemma set_int_shown:
  "set_int fo (Inr \<lparr>vr_Status = st, vr_Result = map (\<lambda>(l, v). (Some l, Some v)) ss, vr_Error = er\<rparr>) = shown_int fo ss"
  by (auto simp: set_int_def first_value_def shown_int_def scalar_value_def split: list.split sum.split)

lemma queue_depths_map:
  "distinct (map (\<lambda>(l, v). map_get l ''queue'') ss) \<Longrightarrow>
     map_of (queue_depths fo (map (\<lambda>(l, v). (Some l, Some v)) ss) acc) k =
       (case find (\<lambda>(l, v). map_get l ''queue'' = k \<and> k \<noteq> [] \<and> is_ok (parse_float fo v)) ss of
          Some (l, v) \<Rightarrow> (case parse_float fo v of Inl e \<Rightarrow> None | Inr f \<Rightarrow> Some (float_to_int fo f))
        | None \<Rightarrow> map_of acc k)"
proof (induction ss arbitrary: acc)
  case (Cons s ss)
  obtain l v where s: "s = (l, v)" by (cases s)
  have none: "find (\<lambda>(l', v). map_get l' ''queue'' = map_get l ''queue'' \<and> map_get l ''queue'' \<noteq> [] \<and> is_ok (parse_float fo v)) ss = None"
    using Cons.prems by (force simp: s find_None_iff)
  show ?case
    using Cons none by (auto simp: s metric_label_def scalar_value_def Let_def split: sum.split option.split)
qed simp

lemma queue_depths_exact:
  assumes "distinct (map (\<lambda>(l, v). map_get l ''queue'') ss)"
  shows "map_of (queue_depths fo (map (\<lambda>(l, v). (Some l, Some v)) ss) []) k = Some n \<longleftrightarrow>
    k \<noteq> [] \<and> (\<exists>l v f. (l, v) \<in> set ss \<and> map_get l ''queue'' = k \<and> parse_float fo v = Inr f \<and> n = float_to_int fo f)"
proof -
  let ?P = "\<lambda>(l, v). map_get l ''queue'' = k \<and> k \<noteq> [] \<and> is_ok (parse_float fo v)"
  let ?depths = "queue_depths fo (map (\<lambda>(l, v). (Some l, Some v)) ss) []"
  have inj: "inj_on (\<lambda>(l, v). map_get l ''queue'') (set ss)" using assms by (simp add: distinct_map)
  have unique: "find ?P ss = Some x" if "x \<in> set ss" "?P x" for x
  proof (rule find_unique [where P = ?P, OF that])
    fix y assume y: "y \<in> set ss" "?P y"
    have "(case y of (l, v) \<Rightarrow> map_get l ''queue'') = (case x of (l, v) \<Rightarrow> map_get l ''queue'')"
      using y(2) that(2) by (simp split: prod.splits)
    from inj_onD [OF inj this y(1) that(1)] show "y = x" .
  qed
  have "map_of ?depths k = Some n \<longleftrightarrow> (\<exists>l v f. find ?P ss = Some (l, v) \<and> parse_float fo v = Inr f \<and> n = float_to_int fo f)"
    unfolding queue_depths_map [OF assms] by (auto split: option.splits sum.splits)
  also have "\<dots> \<longleftrightarrow> k \<noteq> [] \<and> (\<exists>l v f. (l, v) \<in> set ss \<and> map_get l ''queue'' = k \<and>
      parse_float fo v = Inr f \<and> n = float_to_int fo f)"
  proof
    assume "\<exists>l v f. find ?P ss = Some (l, v) \<and> parse_float fo v = Inr f \<and> n = float_to_int fo f"
    then obtain l v f where "find ?P ss = Some (l, v)" "parse_float fo v = Inr f" "n = float_to_int fo f" by blast
    moreover from find_SomeD [OF this(1)] have "(l, v) \<in> set ss" "map_get l ''queue'' = k" "k \<noteq> []" by simp_all
    ultimately show "k \<noteq> [] \<and> (\<exists>l v f. (l, v) \<in> set ss \<and> map_get l ''queue'' = k \<and>
      parse_float fo v = Inr f \<and> n = float_to_int fo f)" by blast
  next
    assume "k \<noteq> [] \<and> (\<exists>l v f. (l, v) \<in> set ss \<and> map_get l ''queue'' = k \<and>
      parse_float fo v = Inr f \<and> n = float_to_int fo f)"
    then obtain l v f where "k \<noteq> []" "(l, v) \<in> set ss" "map_get l ''queue'' = k" "parse_float fo v = Inr f"
      "n = float_to_int fo f" by blast
    moreover from this have "find ?P ss = Some (l, v)" by (intro unique) (simp_all add: is_ok_def)
    ultimately show "\<exists>l v f. find ?P ss = Some (l, v) \<and> parse_float fo v = Inr f \<and> n = float_to_int fo f" by blast
  qed
  finally show ?thesis .
qed


definition bench_series :: "string \<Rightarrow> (string go_map \<times> string) list" where
  "bench_series metric =
     (if metric = ''frappe_bench_apps_count'' then
        [([(''server'', ''web1''), (''bench'', ''b2'')], ''9''), ([(''server'', ''web1''), (''bench'', ''b1'')], ''4'')]
      else if metric = ''frappe_bench_redis_queue_depth'' then
        [([(''server'', ''web1''), (''bench'', ''b1''), (''queue'', ''short'')], ''12''),
         ([(''server'', ''web1''), (''bench'', ''b1''), (''queue'', ''long'')], ''x'')]
      else [])"

definition bench_backend :: "string \<Rightarrow> vm_instant_response result" where
  "bench_backend p =
     (case read_selector p of
        None \<Rightarrow> Inl (new_error ''parse error'')
      | Some (metric, ls) \<Rightarrow>
          Inr \<lparr>vr_Status = ''success'', vr_Result = map (\<lambda>(l, v). (Some l, Some v)) (matching ls (bench_series metric)),
            vr_Error = []\<rparr>)"


section \<open>The alerts page\<close>



end
