(* ===== verification/Api_Shown.thy ===== *)
theory Api_Shown
  imports Api_Pages
begin

text \<open>
  From the collector to the dashboard: the line protocol that a pull pushes, stored as the backend
  documents it, and read again by the page of a bench.
\<close>

section \<open>Stored series\<close>

definition ends_line :: "string \<Rightarrow> bool" where
  "ends_line a \<longleftrightarrow> a = [] \<or> last a = newline"

lemma split_on_whole: "split_on c (a @ c # b) = split_on c a @ split_on c b"
proof (induction a)
  case (Cons x a)
  obtain h t where "split_on c a = h # t" by (cases "split_on c a") auto
  with Cons show ?case by simp
qed simp

lemma lp_lines_append: "ends_line a \<Longrightarrow> lp_lines (a @ b) = lp_lines a @ lp_lines b"
proof (cases a rule: rev_cases)
  case (snoc a' x)
  moreover assume "ends_line a"
  ultimately have "a = a' @ [newline]" by (simp add: ends_line_def)
  then show ?thesis
    using split_on_whole [of newline a' b] split_on_whole [of newline a' "[]"] by (simp add: lp_lines_def butlast_append)
qed (simp add: lp_lines_def)

lemma ends_line_append: "ends_line a \<Longrightarrow> ends_line b \<Longrightarrow> ends_line (a @ b)"
  by (auto simp: ends_line_def last_append)

lemma ends_line_concat: "\<forall>x \<in> set xs. ends_line (f x) \<Longrightarrow> ends_line (concat (map f xs))"
  by (induction xs) (auto simp: ends_line_append, simp add: ends_line_def)

lemma lp_lines_concat: "\<forall>x \<in> set xs. ends_line (f x) \<Longrightarrow> lp_lines (concat (map f xs)) = concat (map (\<lambda>x. lp_lines (f x)) xs)"
  by (induction xs) (simp_all add: lp_lines_append, simp add: lp_lines_def)

lemma ends_line_emit: "ends_line (emit m tags ts name extra v)"
  by (simp add: ends_line_def emit_def Let_def)

lemma ends_line_protocols:
  "ends_line (server_line_protocol ff m name)" "ends_line (bench_line_protocol bm name)"
  "ends_line (site_line_protocol ff st name)"
  unfolding server_line_protocol_jobs bench_line_protocol_jobs site_line_protocol_jobs
  by (rule ends_line_concat, simp add: ends_line_emit case_prod_unfold)+

text \<open>What the backend holds after a push: a line is a sample of the series that its measurement
  names (its only field being called \<open>value\<close>) with its tags as labels.\<close>

definition stored_series :: "string \<Rightarrow> string \<Rightarrow> (string go_map \<times> string) list" where
  "stored_series body metric =
     map (\<lambda>pt. (lp_tag_list pt, lp_value pt))
       (filter (\<lambda>pt. lp_measurement pt = metric) (List.map_filter lp_decode (lp_lines body)))"

lemma stored_append: "ends_line a \<Longrightarrow> stored_series (a @ b) metric = stored_series a metric @ stored_series b metric"
  by (simp add: stored_series_def lp_lines_append map_filter_def)

lemma stored_concat:
  "\<forall>x \<in> set xs. ends_line (f x) \<Longrightarrow> stored_series (concat (map f xs)) metric = concat (map (\<lambda>x. stored_series (f x) metric) xs)"
  by (induction xs) (simp_all add: stored_append, simp add: stored_series_def lp_lines_def map_filter_def lp_decode_def)

lemma stored_jobs:
  assumes "map lp_decode (lp_lines text) = map (Some \<circ> job_point pre base ts) jobs"
  shows "stored_series text metric =
    map (\<lambda>(n, extra, v). (base @ extra, v)) (filter (\<lambda>(n, extra, v). pre @ n = metric) jobs)"
proof -
  have "List.map_filter lp_decode (lp_lines text) = map (job_point pre base ts) jobs"
    using arg_cong [OF assms, of "\<lambda>xs. map the (filter (\<lambda>x. x \<noteq> None) xs)"]
    by (simp add: map_filter_def filter_map o_def)
  then show ?thesis
    by (simp add: stored_series_def filter_map o_def job_point_def case_prod_unfold)
qed

lemma stored_server: "server_labels_ok ff m name \<Longrightarrow> stored_series (server_line_protocol ff m name) (''frappe_bench_'' @ x) = []"
proof -
  assume "server_labels_ok ff m name"
  then have "map lp_decode (lp_lines (server_line_protocol ff m name)) =
      map (Some \<circ> job_point ''frappe_server_'' [(''server'', name)] (unix_nano (sm_Timestamp m))) (server_jobs ff m)"
    using server_jobs_ok [of ff m name]
    by (intro decode_jobs [OF _ _ _ _ server_line_protocol_jobs])
      (auto simp: tags_ok_def plain_name_def is_special_def server_labels_ok_def)
  from stored_jobs [OF this] show ?thesis by simp
qed

definition site_labels_ok :: "('f \<Rightarrow> string) \<Rightarrow> 'f site_metrics \<Rightarrow> string \<Rightarrow> bool" where
  "site_labels_ok ff st name \<longleftrightarrow>
     newline \<notin> set name \<and> newline \<notin> set (st_Bench st) \<and> newline \<notin> set (st_Site st) \<and> number_text (ff (st_HTTPResponseMs st))"

lemma stored_site: "site_labels_ok ff st name \<Longrightarrow> stored_series (site_line_protocol ff st name) (''frappe_bench_'' @ x) = []"
  unfolding site_labels_ok_def by (elim conjE, subst stored_jobs [OF site_line_protocol_decodes]) simp_all

text \<open>What one bench's lines become under the name \<open>x\<close>.\<close>

definition bench_stored :: "bench_metrics \<Rightarrow> string \<Rightarrow> string \<Rightarrow> (string go_map \<times> string) list" where
  "bench_stored bm name x =
     map (\<lambda>(n, extra, v). (bench_base bm name @ extra, v)) (filter (\<lambda>(n, extra, v). n = x) (bench_jobs bm))"

lemma stored_bench:
  "bench_labels_ok bm name \<Longrightarrow> stored_series (bench_line_protocol bm name) (''frappe_bench_'' @ x) = bench_stored bm name x"
  using stored_jobs [OF bench_line_protocol_decodes] by (simp add: bench_stored_def)

lemma matching_bench_stored:
  "matching [(''server'', name), (''bench'', b)] (bench_stored bm name x) =
     (if bm_Bench bm = b then bench_stored bm name x else [])"
  by (auto simp: matching_def bench_stored_def bench_base_def map_get_def filter_map o_def case_prod_unfold)

lemma matching_append: "matching ls (xs @ ys) = matching ls xs @ matching ls ys"
  by (simp add: matching_def)

lemma matching_concat: "matching ls (concat (map f xs)) = concat (map (\<lambda>x. matching ls (f x)) xs)"
  by (simp add: matching_def filter_concat o_def)

section \<open>One pull\<close>

text \<open>No label of a pull's lines holds a newline.\<close>

definition cycle_labels_ok ::
  "('f, 'e) pipeline \<Rightarrow> parse_output \<Rightarrow> 'f server_metrics \<Rightarrow> string \<Rightarrow> bool" where
  "cycle_labels_ok p out m name \<longleftrightarrow>
     server_labels_ok (format_float (pp_floats p)) m name \<and>
     (\<forall>b bm. bench_from_sections (pp_orders p) out b = Inr bm \<longrightarrow> bench_labels_ok bm name) \<and>
     (\<forall>b s st. site_from_sections (pp_floats p) out b s = Inr st \<longrightarrow> site_labels_ok (format_float (pp_floats p)) st name)"

lemma bench_from_sections_name: "bench_from_sections mo out b = Inr bm \<Longrightarrow> bm_Bench bm = b"
  by (auto simp: bench_from_sections_def bind_result_def Let_def split: sum.splits)

lemma bench_names_distinct: "tokenize input = Inr out \<Longrightarrow> distinct (bench_names out)"
proof -
  assume "tokenize input = Inr out"
  then have "distinct (map sec_Name out)" using listed_names_found by blast
  then have "distinct (map sec_Name (filter (\<lambda>s. has_prefix bench_section_prefix (sec_Name s)) out))"
    by (rule distinct_map_filter)
  then show ?thesis
    unfolding bench_names_def distinct_map by (auto simp: inj_on_def has_prefix_iff)
qed

lemma concat_only: "distinct xs \<Longrightarrow> x \<in> set xs \<Longrightarrow> concat (map (\<lambda>y. if y = x then f y else []) xs) = f x"
proof (induction xs)
  case (Cons y ys)
  have "concat (map (\<lambda>y. if y = x then f y else []) zs) = []" if "x \<notin> set zs" for zs
    using that by (induction zs) auto
  with Cons show ?case by auto
qed simp

lemma stored_cycle:
  assumes "cycle_labels_ok p out m name" "distinct (bench_names out)" "b \<in> set (bench_names out)"
    "bench_from_sections (pp_orders p) out b = Inr bm"
  shows "matching [(''server'', name), (''bench'', b)] (stored_series (cycle_body p out m name) (''frappe_bench_'' @ x)) =
    bench_stored bm name x"
proof -
  let ?ls = "[(''server'', name), (''bench'', b)]" and ?x = "''frappe_bench_'' @ x"
  have bench: "ends_line (bench_lines p out m name b') \<and>
      matching ?ls (stored_series (bench_lines p out m name b') ?x) = (if b' = b then bench_stored bm name x else [])" for b'
  proof (cases "bench_from_sections (pp_orders p) out b'")
    case (Inl e)
    with assms(4) show ?thesis
      by (auto simp: bench_lines_def ends_line_def stored_series_def lp_lines_def lp_decode_def map_filter_def matching_def)
  next
    case (Inr bm')
    let ?bm = "bm'\<lparr>bm_Timestamp := sm_Timestamp m, bm_Server := name\<rparr>"
    have "bench_labels_ok ?bm name" using assms(1) Inr by (auto simp: cycle_labels_ok_def bench_labels_ok_def)
    moreover have "bench_stored ?bm name x = bench_stored bm' name x"
      by (simp add: bench_stored_def bench_base_def bench_jobs_def)
    moreover have "bm_Bench bm' = b'" using bench_from_sections_name [OF Inr] .
    ultimately show ?thesis
      using assms(4) Inr stored_bench [of ?bm name x] matching_bench_stored [of name b bm' x] ends_line_protocols(2)
      by (auto simp: bench_lines_def)
  qed
  have site: "ends_line (site_lines p out m name pr) \<and> stored_series (site_lines p out m name pr) ?x = []" for pr
  proof (cases "site_from_sections (pp_floats p) out (fst pr) (snd pr)")
    case (Inl e)
    then show ?thesis
      by (simp add: site_lines_def ends_line_def stored_series_def lp_lines_def lp_decode_def map_filter_def)
  next
    case (Inr st)
    then have "site_labels_ok (format_float (pp_floats p)) (st\<lparr>st_Timestamp := sm_Timestamp m, st_Server := name\<rparr>) name"
      using assms(1) by (auto simp: cycle_labels_ok_def site_labels_ok_def)
    from stored_site [OF this, of x] Inr ends_line_protocols(3) show ?thesis by (simp add: site_lines_def)
  qed
  have "stored_series (cycle_body p out m name) ?x =
      concat (map (\<lambda>b'. stored_series (bench_lines p out m name b') ?x) (bench_names out))"
  proof -
    have benches: "stored_series (concat (map (bench_lines p out m name) (bench_names out))) ?x =
        concat (map (\<lambda>b'. stored_series (bench_lines p out m name b') ?x) (bench_names out))"
      by (rule stored_concat) (use bench in blast)
    have "stored_series (concat (map (site_lines p out m name) (site_names_for out))) ?x =
        concat (map (\<lambda>pr. stored_series (site_lines p out m name pr) ?x) (site_names_for out))"
      by (rule stored_concat) (use site in blast)
    then have sites: "stored_series (concat (map (site_lines p out m name) (site_names_for out))) ?x = []"
      using site by simp
    have "ends_line (concat (map (bench_lines p out m name) (bench_names out)))"
      by (rule ends_line_concat) (use bench in blast)
    moreover have "stored_series (server_line_protocol (format_float (pp_floats p)) m name) ?x = []"
      using assms(1) by (intro stored_server) (simp add: cycle_labels_ok_def)
    ultimately show ?thesis
      unfolding cycle_body_def stored_append [OF ends_line_protocols(1)] by (simp only: stored_append benches sites append_Nil append_Nil2)
  qed
  then show ?thesis
    using bench concat_only [OF assms(2,3), of "\<lambda>b'. bench_stored bm name x"] by (simp add: matching_concat)
qed

section \<open>The page after a pull\<close>

text \<open>A number whose text reads back as the same number, as those up to 2^53 do.\<close>

definition exact_int :: "'f float_ops \<Rightarrow> int \<Rightarrow> bool" where
  "exact_int fo i = (case parse_float fo (format_int i) of Inl e \<Rightarrow> False | Inr f \<Rightarrow> float_to_int fo f = i)"

lemma exact_set:
  "exact_int fo i \<Longrightarrow> set_int fo (Inr \<lparr>vr_Status = st, vr_Result = [(l, Some (format_int i))], vr_Error = er\<rparr>) = i"
  by (simp add: exact_int_def set_int_def first_value_def scalar_value_def split: sum.splits)

lemma exact_scalar: "exact_int fo i \<Longrightarrow> \<exists>f. scalar_value fo (Some (format_int i)) = Some f \<and> float_to_int fo f = i"
  by (simp add: exact_int_def scalar_value_def split: sum.splits)

lemma queue_depths_named:
  assumes "distinct (map rq_Name qs)" "\<forall>q \<in> set qs. rq_Name q \<noteq> [] \<and> exact_int fo (rq_Depth q)"
    "\<forall>q \<in> set qs. rq_Name q \<notin> fst ` set acc" "map_of base ''queue'' = None"
  shows "queue_depths fo (map (\<lambda>q. (Some (base @ [(''queue'', rq_Name q)]), Some (format_int (rq_Depth q)))) qs) acc =
    acc @ map (\<lambda>q. (rq_Name q, rq_Depth q)) qs"
  using assms(1-3)
proof (induction qs arbitrary: acc)
  case (Cons q qs)
  have label: "metric_label (Some (base @ [(''queue'', rq_Name q)])) ''queue'' = rq_Name q"
    using assms(4) by (simp add: metric_label_def map_get_def map_add_def)
  have fresh: "map_put acc (rq_Name q) (rq_Depth q) = acc @ [(rq_Name q, rq_Depth q)]"
    using Cons.prems(3) by (intro map_put_new) simp
  obtain f where f: "scalar_value fo (Some (format_int (rq_Depth q))) = Some f" "float_to_int fo f = rq_Depth q"
    using exact_scalar Cons.prems(2) by force
  have "queue_depths fo (map (\<lambda>q. (Some (base @ [(''queue'', rq_Name q)]), Some (format_int (rq_Depth q)))) qs)
      (acc @ [(rq_Name q, rq_Depth q)]) = (acc @ [(rq_Name q, rq_Depth q)]) @ map (\<lambda>q. (rq_Name q, rq_Depth q)) qs"
  proof (rule Cons.IH)
    have "rq_Name qa \<noteq> rq_Name q" if "qa \<in> set qs" for qa
      using Cons.prems(1) imageI [OF that, of rq_Name] by (auto simp del: image_eqI)
    then show "\<forall>qa \<in> set qs. rq_Name qa \<notin> fst ` set (acc @ [(rq_Name q, rq_Depth q)])"
      using Cons.prems(3) by simp
  qed (use Cons.prems in simp_all)
  then show ?case using label f fresh Cons.prems(2) by (simp add: Let_def)
qed simp

lemma bench_stored_one:
  "bench_stored bm name ''apps_count'' = [(bench_base bm name, format_int (bm_AppsCount bm))]"
  "bench_stored bm name ''supervisor_running'' = [(bench_base bm name, format_int (bm_SupervisorRun bm))]"
  "bench_stored bm name ''supervisor_total'' = [(bench_base bm name, format_int (bm_SupervisorTotal bm))]"
  "bench_stored bm name ''info'' =
     (if bm_FrappeVersion bm = [] then [] else [(bench_base bm name @ [(''frappe_version'', bm_FrappeVersion bm)], ''1'')])"
  "bench_stored bm name ''redis_queue_depth'' =
     map (\<lambda>q. (bench_base bm name @ [(''queue'', rq_Name q)], format_int (rq_Depth q))) (bm_RedisQueues bm)"
  by (simp_all add: bench_stored_def bench_jobs_def filter_map o_def)

lemma pull_pushes:
  assumes "with_db (get_server i) w = (Inr srv, w1)"
    "run_cmd p (server_target srv) (build_collect_cmd (sv_BenchPaths srv)) w1 = ((stdout, None), w2)"
    "parse_cycle p stdout = Inr (out, m)"
  shows "w_pushed (snd (pull_once p i w)) = w_pushed w2 @ [cycle_body p out m (sv_Name srv)]"
proof -
  let ?w3 = "w2\<lparr>w_pushed := w_pushed w2 @ [cycle_body p out m (sv_Name srv)]\<rparr>"
  obtain r w4 where status: "set_reachable p i ?w3 = (r, w4)" by fastforce
  then have "w_pushed w4 = w_pushed ?w3" by (auto simp: set_reachable_def with_db_def split: prod.splits)
  then show ?thesis
    using assms status by (simp add: pull_once_def Let_def split: sum.split)
qed

text \<open>
  C7. What is collected is shown. When a pull parses the collector's output and the backend stores the
  pushed lines as it documents and answers selectors from them, the page of a bench that the output
  lists and that converts shows exactly the numbers, the version and the queue depths that the
  output had for this bench: whatever other benches, sites and server metrics the same push holds.
\<close>

theorem collected_bench_shown:
  assumes "with_db (get_server i) w = (Inr srv, w1)"
    "run_cmd p (server_target srv) (build_collect_cmd (sv_BenchPaths srv)) w1 = ((stdout, None), w2)"
    "parse_cycle p stdout = Inr (out, m)"
    "b \<in> set (bench_names out)" "bench_from_sections (pp_orders p) out b = Inr bm"
    "cycle_labels_ok p out m (sv_Name srv)"
    "sv_Name srv \<noteq> []" "b \<noteq> []" "plain_value (sv_Name srv)" "plain_value b"
    "answers_selectors q (stored_series (last (w_pushed (snd (pull_once p i w)))))"
    "distinct (map rq_Name (bm_RedisQueues bm))" "\<forall>q \<in> set (bm_RedisQueues bm). rq_Name q \<noteq> [] \<and> exact_int fo (rq_Depth q)"
    "exact_int fo (bm_AppsCount bm)" "exact_int fo (bm_SupervisorRun bm)" "exact_int fo (bm_SupervisorTotal bm)"
  shows "get_bench fo q (sv_Name srv) b = query_ok (Bench
    \<lparr>bd_Server = sv_Name srv, bd_Bench = b, bd_FrappeVersion = bm_FrappeVersion bm, bd_AppsCount = bm_AppsCount bm,
     bd_SupervisorRun = bm_SupervisorRun bm, bd_SupervisorTotal = bm_SupervisorTotal bm,
     bd_RedisQueues = map (\<lambda>q. (rq_Name q, rq_Depth q)) (bm_RedisQueues bm)\<rparr>)"
proof -
  let ?name = "sv_Name srv"
  let ?ls = "[(''server'', ?name), (''bench'', b)]"
  have q: "answers_selectors q (stored_series (cycle_body p out m ?name))"
    using assms(11) pull_pushes [OF assms(1-3)] by simp
  have "tokenize stdout = Inr out"
    using assms(3) by (auto simp: parse_cycle_def bind_result_def wrap_result_def split: sum.splits option.splits if_splits)
  then have benches: "distinct (bench_names out)" by (rule bench_names_distinct)
  have sel: "q (selector (''frappe_bench_'' @ x) ?ls) = Inr \<lparr>vr_Status = ''success'',
      vr_Result = map (\<lambda>(l, v). (Some l, Some v)) (bench_stored bm ?name x), vr_Error = []\<rparr>" if "CHR ''{'' \<notin> set x" for x
    using selector_answer [OF q assms(9,10), of "''frappe_bench_'' @ x"] that
    unfolding stored_cycle [OF assms(6) benches assms(4,5)] by simp
  have base: "map_of (bench_base bm ?name) ''queue'' = None" by (simp add: bench_base_def)
  have depths: "queue_depths fo (map (\<lambda>(l, v). (Some l, Some v)) (bench_stored bm ?name ''redis_queue_depth'')) [] =
      map (\<lambda>q. (rq_Name q, rq_Depth q)) (bm_RedisQueues bm)"
    using queue_depths_named [OF assms(12,13) _ base, of "[]"] by (simp add: bench_stored_one o_def)
  have version: "first_version (map (\<lambda>(l, v). (Some l, Some v)) (bench_stored bm ?name ''info'')) = bm_FrappeVersion bm"
    by (simp add: bench_stored_one bench_base_def)
  show ?thesis
    using assms(7,8,14-16) sel [of "''info''"] sel [of "''apps_count''"] sel [of "''supervisor_running''"]
      sel [of "''supervisor_total''"] sel [of "''redis_queue_depth''"] depths version
    by (simp add: get_bench_def Let_def bench_stored_one(1-3) exact_set)
qed

definition shown_server :: kv_section where
  "shown_server = server_example\<lparr>sec_KVs := sec_KVs server_example @
     [(labeled_key ''disk_used_bytes'' ''mount'' ''/'', ''7''), (labeled_key ''disk_total_bytes'' ''mount'' ''/'', ''7'')]\<rparr>"

definition shown_bench :: kv_section where
  "shown_bench = \<lparr>sec_Name = bench_section ''b1'', sec_KVs =
     [(''apps_count'', ''7''), (''supervisor_running'', ''1''), (''supervisor_total'', ''1''),
      (labeled_key ''redis_queue_depth'' ''queue'' ''short'', ''7'')]\<rparr>"

definition shown_output :: parse_output where
  "shown_output = [meta_example, shown_server, shown_bench]"

definition shown_pipeline :: "(unit, unit) pipeline" where
  "shown_pipeline = quiet_pipeline\<lparr>pp_run := (\<lambda>e t c. ((render_output shown_output, None), e))\<rparr>"

lemma shown_output_ok: "output_ok shown_output"
  by (simp add: output_ok_def shown_output_def meta_example_def shown_server_def shown_bench_def server_example_def
      int_getters_def float_getters_def section_ok_def line_ok_def carriage_return_def is_map_def kv_ok_def key_ok_def
      render_kv_def has_prefix_def labeled_key_def bench_section_def bench_section_prefix_def)

lemma shown_bench_metrics:
  "bench_from_sections source_orders shown_output b =
     (if b = ''b1'' then Inr \<lparr>bm_Timestamp = zero_time, bm_Server = [], bm_Bench = ''b1'', bm_FrappeVersion = [],
        bm_AppsCount = 7, bm_SupervisorRun = 1, bm_SupervisorTotal = 1, bm_RedisQueues = [\<lparr>rq_Name = ''short'', rq_Depth = 7\<rparr>]\<rparr>
      else Inl (projl (bench_from_sections source_orders shown_output b)))"
proof -
  have q: "split_labeled_key (labeled_key ''redis_queue_depth'' ''queue'' ''short'') = Some (''redis_queue_depth'', [(''queue'', ''short'')])"
    by (simp add: split_labeled_eq plain_label_def plain_text_def space_edge_def)
  have n: "split_labeled_key ''apps_count'' = None" "split_labeled_key ''supervisor_running'' = None"
    "split_labeled_key ''supervisor_total'' = None"
    by (simp_all add: split_labeled_key_def)
  have k: "labeled_key ''redis_queue_depth'' ''queue'' ''short'' \<noteq> ''apps_count''" by (simp add: labeled_key_def)
  show ?thesis
    by (auto simp: bench_from_sections_def section_or_error_def output_section_def shown_output_def meta_example_def
        shown_server_def server_example_def shown_bench_def bench_section_def bench_section_prefix_def bind_result_def wrap_result_def
        require_int64_def require_string_def Let_def parse_seven q n source_orders_def source_order_def)
qed

lemma shown_samples:
  "pair_samples disk_names (sec_KVs shown_server) = [(''disk_used_bytes'', ''/'', ''7''), (''disk_total_bytes'', ''/'', ''7'')]"
  "pair_samples net_names (sec_KVs shown_server) = []"
proof -
  have "pair_samples pn (xs @ ys) = pair_samples pn xs @ pair_samples pn ys" for pn xs ys
    by (simp add: pair_samples_def map_filter_def)
  moreover have "pair_samples pn (sec_KVs server_example) = []" for pn
    by (simp add: server_example_def int_getters_def float_getters_def pair_sample_def split_labeled_key_def)
  moreover have "pair_sample net_names (labeled_key ''disk_used_bytes'' ''mount'' ''/'', u) = None"
    "pair_sample net_names (labeled_key ''disk_total_bytes'' ''mount'' ''/'', u) = None" for u
    by (simp_all add: pair_sample_def split_labeled_eq plain_label_def plain_text_def space_edge_def)
      (simp_all add: net_names_def)
  ultimately show "pair_samples disk_names (sec_KVs shown_server) = [(''disk_used_bytes'', ''/'', ''7''), (''disk_total_bytes'', ''/'', ''7'')]"
    "pair_samples net_names (sec_KVs shown_server) = []"
    by (simp_all add: shown_server_def mount_sample)
qed

lemma shown_server_metrics:
  assumes "parse_float fo ''1'' = Inr one"
  shows "\<exists>m. server_from_sections fo source_orders shown_output = Inr m \<and> sm_Disks m \<noteq> [] \<and>
    set (map dm_Mount (sm_Disks m)) = {''/''} \<and> sm_Net m = []"
proof -
  have orders: "valid_orders source_orders" by (simp add: valid_orders_def source_orders_def)
  have secs: "output_section shown_output ''META'' = Some meta_example" "output_section shown_output ''SERVER'' = Some shown_server"
    by (simp_all add: output_section_def shown_output_def meta_example_def shown_server_def server_example_def)
  have pairs: "pairs_complete disk_names (sec_KVs shown_server)" "pairs_complete net_names (sec_KVs shown_server)"
    by (simp_all add: pairs_complete_def shown_samples parse_seven) (simp_all add: disk_names_def)
  have "server_complete fo meta_example shown_server"
    using assms pairs
    by (simp add: server_complete_def)
      (simp add: meta_example_def shown_server_def server_example_def int_getters_def float_getters_def
        require_string_def require_int64_def require_float64_def parse_seven)
  with server_from_sections_eq [OF secs orders, of fo] obtain m where
    m: "server_from_sections fo source_orders shown_output = Inr m"
      "read_disks source_orders shown_server = Inr (sm_Disks m)" "read_net source_orders shown_server = Inr (sm_Net m)"
    by auto
  have disks: "set (map dm_Mount (sm_Disks m)) = {''/''}"
  proof -
    have "set (map dm_Mount (sm_Disks m)) = (\<lambda>(b, i, v). i) ` set (pair_samples disk_names (sec_KVs shown_server))"
      using read_disks_complete [OF orders, of shown_server] m(2) by blast
    then show ?thesis by (simp add: shown_samples)
  qed
  obtain ps where "read_pairs net_names source_orders 1 shown_server = Inr ps"
    "map (\<lambda>(name, rx, tx). \<lparr>ni_Name = name, ni_RxBytes = rx, ni_TxBytes = tx\<rparr>) ps = sm_Net m"
    using m(3) by (auto simp: read_net_def split: sum.splits)
  then have "sm_Net m = []"
    using read_pairs_spec(2) [OF pair_names_distinct(2) orders, of 1 shown_server ps] by (simp add: shown_samples)
  moreover have "sm_Disks m \<noteq> []"
  proof
    assume "sm_Disks m = []"
    with disks show False by simp
  qed
  ultimately show ?thesis using m(1) disks by (intro exI [of _ m] conjI)
qed

theorem collected_bench_shown_witness:
  "\<exists>q. get_bench int_floats q ''web1'' ''b1'' = query_ok (Bench
    \<lparr>bd_Server = ''web1'', bd_Bench = ''b1'', bd_FrappeVersion = [], bd_AppsCount = 7, bd_SupervisorRun = 1,
     bd_SupervisorTotal = 1, bd_RedisQueues = [(''short'', 7)]\<rparr>)"
proof -
  let ?p = shown_pipeline
  obtain r where r: "server_of db1 1 = Some r" "es_Name r = ''web1''" by (simp add: server_of_def db1_eq)
  have g: "with_db (get_server 1) world1 = (Inr (ent_to_server r), world1)"
    using db1_healthy r by (simp add: with_db_def get_server_healthy healthy_def world1_def)
  have name: "sv_Name (ent_to_server r) = ''web1''" using r(2) by (simp add: ent_to_server_def)
  have run: "run_cmd ?p t c world1 = ((render_output shown_output, None), world1)" for t c
    by (simp add: run_cmd_def shown_pipeline_def world1_def)
  have fo: "parse_float (pp_floats ?p) ''1'' = Inr ()" "format_float (pp_floats ?p) u = ''0''" for u
    by (simp_all add: shown_pipeline_def quiet_pipeline_def)
  have orders: "pp_orders ?p = source_orders" by (simp add: shown_pipeline_def quiet_pipeline_def)
  from shown_server_metrics [OF fo(1)] obtain m where
    m: "server_from_sections (pp_floats ?p) source_orders shown_output = Inr m" "sm_Disks m \<noteq> []"
      "set (map dm_Mount (sm_Disks m)) = {''/''}" "sm_Net m = []" by blast
  have "output_section shown_output ''ERROR'' = None"
    by (simp add: output_section_def shown_output_def meta_example_def shown_server_def server_example_def shown_bench_def
        bench_section_def bench_section_prefix_def)
  then have cycle: "parse_cycle ?p (render_output shown_output) = Inr (shown_output, m)"
    using m(1,2) by (simp add: parse_cycle_def tokenize_rendered [OF shown_output_ok] wrap_result_def bind_result_def orders)
  note metrics = shown_bench_metrics [of "''b1''", simplified]
  have names: "bench_names shown_output = [''b1'']"
    by (simp add: bench_names_def shown_output_def meta_example_def shown_server_def server_example_def shown_bench_def
        bench_section_def bench_section_prefix_def has_prefix_def trim_prefix_def)
  have no_site: "site_from_sections (pp_floats ?p) shown_output b s \<noteq> Inr st" for b s st
    by (simp add: site_from_sections_def section_or_error_def output_section_def shown_output_def meta_example_def shown_server_def
        server_example_def shown_bench_def bench_section_def bench_section_prefix_def site_section_prefix_def bind_result_def)
  have mounts: "\<forall>d \<in> set (sm_Disks m). dm_Mount d = ''/''" using m(3) by auto
  have benches: "bench_labels_ok bm ''web1''" if "bench_from_sections source_orders shown_output b = Inr bm" for b bm
    using that by (subst (asm) shown_bench_metrics) (auto simp: bench_labels_ok_def split: if_splits)
  have labels: "cycle_labels_ok ?p shown_output m (sv_Name (ent_to_server r))"
    using mounts m(4) benches no_site fo(2)
    by (auto simp: cycle_labels_ok_def server_labels_ok_def name orders number_text_def)
  let ?series = "stored_series (last (w_pushed (snd (pull_once ?p 1 world1))))"
  let ?q = "\<lambda>x. case read_selector x of
       None \<Rightarrow> Inl (new_error ''parse error'')
     | Some (metric, ls) \<Rightarrow> Inr \<lparr>vr_Status = ''success'',
         vr_Result = map (\<lambda>(l, v). (Some l, Some v)) (matching ls (?series metric)), vr_Error = []\<rparr>"
  have q: "answers_selectors ?q ?series" by (simp add: answers_selectors_def)
  have exact: "exact_int int_floats 7" "exact_int int_floats 1"
    by (simp_all add: exact_int_def int_floats_def parse_format_int is_int64_def)
  have plain: "plain_value (sv_Name (ent_to_server r))" "plain_value ''b1''" "sv_Name (ent_to_server r) \<noteq> []"
    by (simp_all add: plain_value_def name)
  note shown = collected_bench_shown [where fo = int_floats and q = ?q, OF g run cycle _ metrics [folded orders] labels plain(3) _ plain(1,2) q]
  show ?thesis
    by (rule exI [of _ ?q]) (use shown names exact name in simp)
qed

end
