(* ===== verification/Embedded.thy ===== *)
theory Embedded
  imports Go_Prelude
begin

text \<open>
  scripts/embed.go and internal/web: the version that an embedded script declares, and the handler of
  the dashboard's files. The embedded file system and the standard library's file server are
  parameters; \<open>path.Clean\<close> is written out.
\<close>

section \<open>The version of a script\<close>

text \<open>A line that declares an empty version, or none that ends, is passed over.\<close>

definition version_prefix :: string where
  "version_prefix = ''VERSION='' @ [CHR 0x22]"

fun scan_lines :: "string list \<Rightarrow> string" where
  "scan_lines [] = ''unknown''"
| "scan_lines (l # ls) =
     (let line = trim_space l in
      if \<not> has_prefix version_prefix line then scan_lines ls
      else
        (let rest = trim_prefix version_prefix line in
         case index_byte (CHR 0x22) rest of
           Some i \<Rightarrow> if i > 0 then take i rest else scan_lines ls
         | None \<Rightarrow> scan_lines ls))"

definition scan_version :: "string \<Rightarrow> string" where
  "scan_version script = scan_lines (split_on (CHR 0x0A) script)"

section \<open>\<open>path.Clean\<close>\<close>

text \<open>The elements kept so far are held in reverse. A parent step removes the last one; at the root it
  has no effect, and in a relative path with nothing to remove it is kept.\<close>

fun clean_elems :: "bool \<Rightarrow> string list \<Rightarrow> string list \<Rightarrow> string list" where
  "clean_elems rooted acc [] = rev acc"
| "clean_elems rooted acc (e # es) =
     (if e = [] \<or> e = ''.'' then clean_elems rooted acc es
      else if e = ''..'' then
        (case acc of
           [] \<Rightarrow> clean_elems rooted (if rooted then [] else [''..'']) es
         | a # r \<Rightarrow> clean_elems rooted (if a = ''..'' then ''..'' # acc else r) es)
      else clean_elems rooted (e # acc) es)"

definition path_clean :: "string \<Rightarrow> string" where
  "path_clean p =
     (if p = [] then ''.''
      else
        (let rooted = (hd p = CHR ''/'');
             out = join ''/'' (clean_elems rooted [] (split_on (CHR ''/'') p))
         in if rooted then ''/'' @ out else if out = [] then ''.'' else out))"

section \<open>The dashboard\<close>

record page =
  pg_Status :: int
  pg_ContentType :: string
  pg_CacheControl :: string
  pg_Body :: string

datatype stat_result = Found | Not_exist | Stat_error

text \<open>The file system under \<open>dist\<close>: whether there is one, \<open>fs.Stat\<close>, \<open>fs.ReadFile\<close>, whether a name opens,
  and the file server on it.\<close>

record dist_fs =
  df_sub :: bool
  df_stat :: "string \<Rightarrow> stat_result"
  df_read :: "string \<Rightarrow> string"
  df_opens :: "string \<Rightarrow> bool"
  df_serve :: "string \<Rightarrow> page"

definition html_page :: "string \<Rightarrow> page" where
  "html_page body = \<lparr>pg_Status = 200, pg_ContentType = ''text/html; charset=utf-8'', pg_CacheControl = ''no-cache'',
     pg_Body = body\<rparr>"

definition not_built_body :: string where
  \<open>not_built_body = join [CHR 0x0A]
     [''<!DOCTYPE html>'',
      ''<html lang="en">'',
      ''  <head><meta charset="utf-8"><title>frappe-monitor</title></head>'',
      ''  <body>'',
      ''    <h1>frontend not built</h1>'',
      ''    <p>Run <code>make web-build</code> to populate internal/web/dist.'',
      ''       The API is still available at'',
      ''       <a href="/api/v1/servers">/api/v1/servers</a>.</p>'',
      ''  </body>'',
      ''</html>'']\<close>

definition placeholder_body :: string where
  \<open>placeholder_body = join [CHR 0x0A]
     [''<!DOCTYPE html>'',
      ''<html lang="en">'',
      ''  <head><meta charset="utf-8"><title>frappe-monitor</title></head>'',
      ''  <body>'',
      ''    <h1>frontend not built</h1>'',
      ''    <p>The SPA wasn'' @ [CHR 0x27] @ ''t bundled into this binary.'',
      ''       Run <code>make web-build &amp;&amp; make build</code> to enable the dashboard.'',
      ''       The API is still available at'',
      ''       <a href="/api/v1/servers">/api/v1/servers</a>.</p>'',
      ''  </body>'',
      ''</html>'']\<close>

definition index_exists :: "dist_fs \<Rightarrow> bool" where
  "index_exists fs \<longleftrightarrow> df_stat fs ''index.html'' \<noteq> Not_exist"

definition spa_name :: "string \<Rightarrow> string" where
  "spa_name path = (let clean = path_clean path in if clean = ''/'' then ''index.html'' else trim_prefix ''/'' clean)"

definition spa_handler :: "dist_fs \<Rightarrow> string \<Rightarrow> page" where
  "spa_handler fs path =
     (if \<not> df_sub fs \<or> \<not> index_exists fs then html_page not_built_body
      else if df_opens fs (spa_name path) then df_serve fs path
      else html_page (df_read fs ''index.html''))"

text \<open>Without the build tag there is only the placeholder.\<close>

definition placeholder_handler :: "string \<Rightarrow> page" where
  "placeholder_handler path = html_page placeholder_body"

section \<open>Reading a version\<close>

definition declares :: "string \<Rightarrow> string \<Rightarrow> bool" where
  "declares line v \<longleftrightarrow> v \<noteq> [] \<and> CHR 0x22 \<notin> set v \<and> (\<exists>rest. trim_space line = version_prefix @ v @ CHR 0x22 # rest)"

definition declaring :: "string \<Rightarrow> bool" where
  "declaring line \<longleftrightarrow> (\<exists>v. declares line v)"

lemma scan_declared: "declares l v \<Longrightarrow> scan_lines (l # ls) = v"
  by (auto simp: declares_def Let_def index_byte_append)

lemma scan_skipped:
  assumes "\<not> declaring l"
  shows "scan_lines (l # ls) = scan_lines ls"
proof (cases "has_prefix version_prefix (trim_space l)")
  case True
  then obtain rest where r: "trim_space l = version_prefix @ rest" by (rule has_prefixE)
  show ?thesis
  proof (cases "index_byte (CHR 0x22) rest")
    case None
    with r show ?thesis by (simp add: Let_def)
  next
    case (Some i)
    from index_byte_SomeD [OF this] have "CHR 0x22 \<notin> set (take i rest)"
      "rest = take i rest @ CHR 0x22 # drop (Suc i) rest" by blast+
    with assms r have "take i rest = []" unfolding declaring_def declares_def by metis
    with \<open>rest = take i rest @ CHR 0x22 # drop (Suc i) rest\<close> have "i = 0"
      by (metis append_Nil list.distinct(1) take_eq_Nil)
    with r Some show ?thesis by (simp add: Let_def)
  qed
qed (simp add: Let_def)

text \<open>The version is what the first line that declares one declares.\<close>

lemma scan_version_first:
  "case find declaring (split_on (CHR 0x0A) script) of
     None \<Rightarrow> scan_version script = ''unknown''
   | Some l \<Rightarrow> declares l (scan_version script)"
proof -
  have "case find declaring ls of None \<Rightarrow> scan_lines ls = ''unknown'' | Some l \<Rightarrow> declares l (scan_lines ls)" for ls
  proof (induction ls)
    case (Cons l ls)
    show ?case
    proof (cases "declaring l")
      case True
      then obtain v where "declares l v" by (auto simp: declaring_def)
      with scan_declared [OF this, of ls] True show ?thesis by (simp del: scan_lines.simps)
    next
      case False
      with Cons.IH show ?thesis by (simp add: scan_skipped del: scan_lines.simps cong: option.case_cong)
    qed
  qed simp
  then show ?thesis unfolding scan_version_def .
qed

section \<open>Clean paths\<close>

definition path_elem :: "string \<Rightarrow> bool" where
  "path_elem e \<longleftrightarrow> e \<noteq> [] \<and> e \<noteq> ''.'' \<and> e \<noteq> ''..'' \<and> CHR ''/'' \<notin> set e"

lemma clean_elems_rooted:
  "\<forall>e \<in> set acc. path_elem e \<Longrightarrow> \<forall>e \<in> set es. CHR ''/'' \<notin> set e \<Longrightarrow> \<forall>e \<in> set (clean_elems True acc es). path_elem e"
proof (induction es arbitrary: acc)
  case (Cons e es)
  have rest: "\<forall>e \<in> set es. CHR ''/'' \<notin> set e" using Cons.prems(2) by simp
  consider "e = [] \<or> e = ''.''" | "e = ''..''" | "path_elem e"
    using Cons.prems(2) by (auto simp: path_elem_def)
  then show ?case
  proof cases
    case 1
    with Cons.IH [OF Cons.prems(1) rest] show ?thesis by simp
  next
    case 2
    show ?thesis
    proof (cases acc)
      case Nil
      with 2 Cons.IH [OF Cons.prems(1) rest] show ?thesis by simp
    next
      case acc: (Cons a r)
      with Cons.prems(1) have "\<forall>e \<in> set r. path_elem e" "a \<noteq> ''..''" by (auto simp: path_elem_def)
      with 2 acc Cons.IH [OF this(1) rest] show ?thesis by simp
    qed
  next
    case 3
    then have step: "clean_elems True acc (e # es) = clean_elems True (e # acc) es" by (simp add: path_elem_def)
    show ?thesis unfolding step by (rule Cons.IH [OF _ rest]) (use 3 Cons.prems(1) in simp)
  qed
qed simp

lemma clean_elems_keep: "\<forall>e \<in> set es. path_elem e \<Longrightarrow> clean_elems rooted acc es = rev acc @ es"
  by (induction es arbitrary: acc) (simp_all add: path_elem_def)

lemma clean_rooted_path:
  obtains es where "\<forall>e \<in> set es. path_elem e" "path_clean (CHR ''/'' # p) = CHR ''/'' # join ''/'' es"
proof
  show "\<forall>e \<in> set (clean_elems True [] (split_on (CHR ''/'') (CHR ''/'' # p))). path_elem e"
    by (rule clean_elems_rooted) (auto dest: split_on_free)
  show "path_clean (CHR ''/'' # p) =
      CHR ''/'' # join ''/'' (clean_elems True [] (split_on (CHR ''/'') (CHR ''/'' # p)))"
    by (simp only: path_clean_def Let_def list.distinct if_False list.sel simp_thms if_True append_Cons append_Nil)
qed

lemma clean_elems_path:
  assumes "\<forall>e \<in> set es. path_elem e"
  shows "path_clean (CHR ''/'' # join ''/'' es) = CHR ''/'' # join ''/'' es"
proof (cases "es = []")
  case False
  then have "split_on (CHR ''/'') (join ''/'' es) = es"
    using assms by (intro split_join) (auto simp: path_elem_def)
  then show ?thesis using assms by (simp add: path_clean_def Let_def clean_elems_keep)
qed (simp add: path_clean_def)

text \<open>
  The dashboard's handler stays inside its files: whatever the path of a request, the name that is
  looked up is a non-empty sequence of plain elements, with no empty one and no step to the same or
  the parent directory, and cleaning a cleaned path changes nothing. A path that is no file is never a
  404: it is answered with a page and status 200.
\<close>

lemma dashboard_paths:
  "(\<exists>es. es \<noteq> [] \<and> (\<forall>e \<in> set es. path_elem e) \<and> spa_name (CHR ''/'' # p) = join ''/'' es) \<and>
   path_clean (path_clean (CHR ''/'' # p)) = path_clean (CHR ''/'' # p) \<and>
   (case df_opens fs (spa_name (CHR ''/'' # p)) of
      True \<Rightarrow> spa_handler fs (CHR ''/'' # p) \<in> {df_serve fs (CHR ''/'' # p), html_page not_built_body}
    | False \<Rightarrow> pg_Status (spa_handler fs (CHR ''/'' # p)) = 200)"
proof -
  obtain es where es: "\<forall>e \<in> set es. path_elem e" "path_clean (CHR ''/'' # p) = CHR ''/'' # join ''/'' es"
    by (rule clean_rooted_path)
  have "\<exists>es. es \<noteq> [] \<and> (\<forall>e \<in> set es. path_elem e) \<and> spa_name (CHR ''/'' # p) = join ''/'' es"
  proof (cases "join ''/'' es = []")
    case True
    then have "spa_name (CHR ''/'' # p) = join ''/'' [''index.html'']" by (simp add: spa_name_def es(2))
    then show ?thesis by (intro exI [of _ "[''index.html'']"]) (simp add: path_elem_def)
  next
    case False
    then have "es \<noteq> []" "spa_name (CHR ''/'' # p) = join ''/'' es"
      by (auto simp: spa_name_def es(2) trim_prefix_def has_prefix_def)
    with es(1) show ?thesis by blast
  qed
  with clean_elems_path [OF es(1)] show ?thesis by (simp add: es(2) spa_handler_def html_page_def split: bool.split)
qed

lemma dashboard_paths_witness:
  "\<exists>es. es \<noteq> [] \<and> list_all path_elem es \<and> spa_name ''/a/../../etc//x'' = join ''/'' es \<and> join ''/'' es = ''etc/x''"
proof -
  obtain es where "es \<noteq> []" "\<forall>e \<in> set es. path_elem e" "spa_name ''/a/../../etc//x'' = join ''/'' es"
    using dashboard_paths [of "''a/../../etc//x''"] by blast
  moreover have "spa_name ''/a/../../etc//x'' = ''etc/x''"
    by (simp add: spa_name_def path_clean_def trim_prefix_def has_prefix_def)
  ultimately show ?thesis by (intro exI [of _ es]) (simp add: list_all_iff)
qed

end
