(* ===== verification/Api_Router.thy ===== *)
theory Api_Router
  imports Api_Query Embedded Stream_Manager
begin

text \<open>
  internal/api/router.go and middleware.go: the table of routes, the gate in front of the API's part of
  it, the request log and the recovery from panics. Choosing a route is the router library's: a
  parameter that is given the table's methods and patterns. The API is a router of its own that is
  mounted in the first and sees the rest of the path.
\<close>

section \<open>Requests and replies\<close>

text \<open>A request with its credentials and body as the standard library decodes them.\<close>

record web_request =
  wq_Method :: string
  wq_Path :: string
  wq_RawQuery :: string
  wq_Credentials :: credentials
  wq_Login :: login_request
  wq_Create :: "create_server_req result"
  wq_Patch :: "patch_server_req result"

datatype 'f web_body =
    ApiBody api_body
  | QueryBody "'f query_body"
  | AuthBody "string option" "cookie option"
  | Healthy
  | Whoami_ok
  | Unauthorized
  | Unrouted
  | PageBody page

record 'f web_reply =
  wr_Status :: int
  wr_Body :: "'f web_body"

text \<open>What requests change: the API's world, the login throttle, and the log with method, path and
  status.\<close>

record ('f, 'e) web_world =
  ww_api :: "('f, 'e) api_world"
  ww_throttle :: throttle
  ww_log :: "(string \<times> string \<times> int) list"

record ('f, 'e) router_deps =
  rd_Api :: "'e api_deps"
  rd_MetricsBaseURL :: string
  rd_LogsBaseURL :: string
  rd_MetricsQueryTimeout :: duration
  rd_LogsQueryTimeout :: duration
  rd_AuthPassword :: string
  rd_AlertsRules :: "rule list"
  rd_AlertsEnabled :: bool
  rd_http :: http_env
  rd_decode :: "string \<Rightarrow> vm_instant_response result"
  rd_floats :: "'f float_ops"
  rd_hmac :: mac
  rd_dashboard :: "string \<Rightarrow> page"

section \<open>The tables\<close>

datatype top_route = Healthz | Login | Logout | Api | Dashboard

datatype api_route =
    Whoami
  | Servers_create | Servers_list | Servers_get | Servers_patch | Servers_delete
  | Test_connection | Deploy_collector | Refresh_system | Get_system
  | Metrics_query | Logs_query
  | Benches_list | Benches_get | Sites_list | Sites_get
  | Alerts_list

type_synonym 'h routes = "((string \<times> string) \<times> 'h) list"

definition top_routes :: "('f, 'e) router_deps \<Rightarrow> top_route routes" where
  "top_routes d =
     [((''GET'', ''/healthz''), Healthz)] @
     (if rd_AuthPassword d \<noteq> [] then [((''POST'', ''/api/v1/login''), Login)] else []) @
     [((''POST'', ''/api/v1/logout''), Logout),
      ((''*'', ''/api/v1/*''), Api),
      ((''*'', ''/*''), Dashboard)]"

definition mount_servers :: "api_route routes" where
  "mount_servers =
     [((''POST'', ''/servers''), Servers_create),
      ((''GET'', ''/servers''), Servers_list),
      ((''GET'', ''/servers/{id}''), Servers_get),
      ((''PATCH'', ''/servers/{id}''), Servers_patch),
      ((''DELETE'', ''/servers/{id}''), Servers_delete),
      ((''POST'', ''/servers/{id}/test-connection''), Test_connection),
      ((''POST'', ''/servers/{id}/deploy-collector''), Deploy_collector),
      ((''POST'', ''/servers/{id}/refresh-system''), Refresh_system),
      ((''GET'', ''/servers/{id}/system''), Get_system)]"

definition mount_hierarchy :: "api_route routes" where
  "mount_hierarchy =
     [((''GET'', ''/benches''), Benches_list),
      ((''GET'', ''/benches/{server}/{bench}''), Benches_get),
      ((''GET'', ''/sites''), Sites_list),
      ((''GET'', ''/sites/{server}/{bench}/{site}''), Sites_get)]"

definition api_routes :: "('f, 'e) router_deps \<Rightarrow> api_route routes" where
  "api_routes d =
     [((''GET'', ''/whoami''), Whoami)] @ mount_servers @
     (if rd_MetricsBaseURL d \<noteq> [] then [((''GET'', ''/metrics/query''), Metrics_query)] else []) @
     (if rd_LogsBaseURL d \<noteq> [] then [((''GET'', ''/logs/query''), Logs_query)] else []) @
     (if rd_MetricsBaseURL d \<noteq> [] then mount_hierarchy else []) @
     [((''GET'', ''/alerts''), Alerts_list)]"

text \<open>The library's choice for a method and a path: the number of a route and the path's parameters, or
  the status when there is none (404, or 405 when only the method differs).\<close>

datatype routed = Routed nat "string go_map" | No_route int

type_synonym mux = "(string \<times> string) list \<Rightarrow> string \<Rightarrow> string \<Rightarrow> routed"

section \<open>Handlers\<close>

definition from_api :: "api_reply \<Rightarrow> 'f web_reply" where
  "from_api r = \<lparr>wr_Status = re_status r, wr_Body = ApiBody (re_body r)\<rparr>"

definition from_query :: "'f query_reply \<Rightarrow> 'f web_reply" where
  "from_query r = \<lparr>wr_Status = qr_status r, wr_Body = QueryBody (qr_body r)\<rparr>"

definition from_auth :: "auth_reply \<Rightarrow> 'f web_reply" where
  "from_auth r = \<lparr>wr_Status = ar_status r, wr_Body = AuthBody (ar_error r) (ar_cookie r)\<rparr>"

definition unrouted :: "int \<Rightarrow> 'f web_reply" where
  "unrouted code = \<lparr>wr_Status = code, wr_Body = Unrouted\<rparr>"

definition hierarchy_query :: "('f, 'e) router_deps \<Rightarrow> string \<Rightarrow> vm_instant_response result" where
  "hierarchy_query d =
     query_instant (rd_http d) (rd_decode d) (new_hierarchy_handlers (rd_MetricsBaseURL d) (rd_MetricsQueryTimeout d))"

definition proxies :: "('f, 'e) router_deps \<Rightarrow> proxy_handlers" where
  "proxies d = new_proxy_handlers (rd_MetricsBaseURL d) (rd_LogsBaseURL d) (rd_MetricsQueryTimeout d) (rd_LogsQueryTimeout d)"

definition via_api ::
  "('f, 'e) router_deps \<Rightarrow> api_request \<Rightarrow> ('f, 'e) web_world \<Rightarrow> 'f web_reply \<times> ('f, 'e) web_world" where
  "via_api d rq w = (case serve (rd_Api d) rq (ww_api w) of (rep, a) \<Rightarrow> (from_api rep, w\<lparr>ww_api := a\<rparr>))"

fun api_handler ::
  "('f, 'e) router_deps \<Rightarrow> api_route \<Rightarrow> string go_map \<Rightarrow> web_request \<Rightarrow> ('f, 'e) web_world \<Rightarrow>
     'f web_reply \<times> ('f, 'e) web_world" where
  "api_handler d Whoami ps rq w = (\<lparr>wr_Status = 200, wr_Body = Whoami_ok\<rparr>, w)"
| "api_handler d Servers_create ps rq w = via_api d (PostServers (wq_Create rq)) w"
| "api_handler d Servers_list ps rq w = via_api d GetServers w"
| "api_handler d Servers_get ps rq w = via_api d (GetServer (map_get ps ''id'')) w"
| "api_handler d Servers_patch ps rq w = via_api d (PatchServer (map_get ps ''id'') (wq_Patch rq)) w"
| "api_handler d Servers_delete ps rq w = via_api d (DeleteServer (map_get ps ''id'')) w"
| "api_handler d Test_connection ps rq w = via_api d (PostTestConnection (map_get ps ''id'')) w"
| "api_handler d Deploy_collector ps rq w = via_api d (PostDeployCollector (map_get ps ''id'')) w"
| "api_handler d Refresh_system ps rq w = via_api d (PostRefreshSystem (map_get ps ''id'')) w"
| "api_handler d Get_system ps rq w = via_api d (GetSystem (map_get ps ''id'')) w"
| "api_handler d Metrics_query ps rq w = (from_query (metrics_query (rd_http d) (proxies d) (wq_RawQuery rq)), w)"
| "api_handler d Logs_query ps rq w = (from_query (logs_query (rd_http d) (proxies d) (wq_RawQuery rq)), w)"
| "api_handler d Benches_list ps rq w = (from_query (list_benches (hierarchy_query d)), w)"
| "api_handler d Benches_get ps rq w =
     (from_query (get_bench (rd_floats d) (hierarchy_query d) (map_get ps ''server'') (map_get ps ''bench'')), w)"
| "api_handler d Sites_list ps rq w = (from_query (list_sites (hierarchy_query d)), w)"
| "api_handler d Sites_get ps rq w =
     (from_query (get_site (rd_floats d) (hierarchy_query d) (map_get ps ''server'') (map_get ps ''bench'')
        (map_get ps ''site'')), w)"
| "api_handler d Alerts_list ps rq w =
     (case list_alerts \<lparr>ah_Rules = rd_AlertsRules d, ah_Enabled = rd_AlertsEnabled d, ah_Store = True\<rparr> (hw_db (ww_api w)) of
        (rep, db) \<Rightarrow> (from_query rep, w\<lparr>ww_api := (ww_api w)\<lparr>hw_db := db\<rparr>\<rparr>))"

section \<open>Routing\<close>

text \<open>Inside the gate: the mounted router, with its own 404 and 405.\<close>

definition route_api ::
  "('f, 'e) router_deps \<Rightarrow> mux \<Rightarrow> string \<Rightarrow> web_request \<Rightarrow> ('f, 'e) web_world \<Rightarrow> 'f web_reply \<times> ('f, 'e) web_world" where
  "route_api d mux path rq w =
     (case mux (map fst (api_routes d)) (wq_Method rq) path of
        No_route code \<Rightarrow> (unrouted code, w)
      | Routed i ps \<Rightarrow>
          if i < length (api_routes d) then api_handler d (snd (api_routes d ! i)) ps rq w else (unrouted 404, w))"

fun top_handler ::
  "('f, 'e) router_deps \<Rightarrow> mux \<Rightarrow> top_route \<Rightarrow> string go_map \<Rightarrow> web_request \<Rightarrow> ('f, 'e) web_world \<Rightarrow>
     'f web_reply \<times> ('f, 'e) web_world" where
  "top_handler d mux Healthz ps rq w = (\<lparr>wr_Status = 200, wr_Body = Healthy\<rparr>, w)"
| "top_handler d mux Login ps rq w =
     (case login_handler (rd_hmac d) (rd_AuthPassword d) (hd_now (rd_Api d)) (wq_Login rq) (ww_throttle w) of
        (rep, t) \<Rightarrow> (from_auth rep, w\<lparr>ww_throttle := t\<rparr>))"
| "top_handler d mux Logout ps rq w = (from_auth (logout_handler (wq_Login rq)), w)"
| "top_handler d mux Api ps rq w =
     auth_gate (rd_hmac d) (rd_AuthPassword d) (hd_now (rd_Api d)) (wq_Credentials rq)
       \<lparr>wr_Status = 401, wr_Body = Unauthorized\<rparr> (route_api d mux (CHR ''/'' # map_get ps ''*'') rq) w"
| "top_handler d mux Dashboard ps rq w =
     (let p = rd_dashboard d (wq_Path rq) in (\<lparr>wr_Status = pg_Status p, wr_Body = PageBody p\<rparr>, w))"

definition route ::
  "('f, 'e) router_deps \<Rightarrow> mux \<Rightarrow> web_request \<Rightarrow> ('f, 'e) web_world \<Rightarrow> 'f web_reply \<times> ('f, 'e) web_world" where
  "route d mux rq w =
     (case mux (map fst (top_routes d)) (wq_Method rq) (wq_Path rq) of
        No_route code \<Rightarrow> (unrouted code, w)
      | Routed i ps \<Rightarrow>
          if i < length (top_routes d) then top_handler d mux (snd (top_routes d ! i)) ps rq w else (unrouted 404, w))"

section \<open>Middleware\<close>

text \<open>\<open>WriteHeader\<close> panics on a status that is not a number of three digits, such as the 99 of an
  upstream's status line \<open>099\<close>; the status recorder does not change that. The log line is written
  only when the handler returns.\<close>

definition write_header ::
  "'f web_reply \<times> ('f, 'e) web_world \<Rightarrow> 'f web_reply outcome \<times> ('f, 'e) web_world" where
  "write_header rw =
     (let code = wr_Status (fst rw) in
      if 100 \<le> code \<and> code \<le> 999 then (Stream_Manager.Returned (fst rw), snd rw)
      else (Panicked (''invalid WriteHeader code '' @ format_int code), snd rw))"

definition request_logger ::
  "web_request \<Rightarrow> 'f web_reply outcome \<times> ('f, 'e) web_world \<Rightarrow> 'f web_reply outcome \<times> ('f, 'e) web_world" where
  "request_logger rq ow =
     (case ow of
        (Stream_Manager.Returned rep, w) \<Rightarrow>
          (Stream_Manager.Returned rep, w\<lparr>ww_log := ww_log w @ [(wq_Method rq, wq_Path rq, wr_Status rep)]\<rparr>)
      | (Panicked p, w) \<Rightarrow> (Panicked p, w))"

definition recoverer :: "'f web_reply outcome \<times> ('f, 'e) web_world \<Rightarrow> 'f web_reply \<times> ('f, 'e) web_world" where
  "recoverer ow =
     (case ow of
        (Stream_Manager.Returned rep, w) \<Rightarrow> (rep, w)
      | (Panicked p, w) \<Rightarrow> (from_api (write_err 500 ''internal''), w))"

definition serve_http ::
  "('f, 'e) router_deps \<Rightarrow> mux \<Rightarrow> web_request \<Rightarrow> ('f, 'e) web_world \<Rightarrow> 'f web_reply \<times> ('f, 'e) web_world" where
  "serve_http d mux rq w = recoverer (request_logger rq (write_header (route d mux rq w)))"

section \<open>Without a session\<close>

text \<open>What the world may learn: no body of a handler behind the gate.\<close>

definition public_body :: "'f web_body \<Rightarrow> bool" where
  "public_body b =
     (case b of ApiBody x \<Rightarrow> x = ErrorBody ''internal'' | QueryBody q \<Rightarrow> False | Whoami_ok \<Rightarrow> False | other \<Rightarrow> True)"

lemma public_body_simps [simp]:
  "public_body (AuthBody e c)" "public_body Healthy" "public_body Unauthorized" "public_body Unrouted"
  "public_body (PageBody p)" "public_body (ApiBody (ErrorBody ''internal''))" "\<not> public_body (QueryBody q)"
  "\<not> public_body Whoami_ok"
  by (simp_all add: public_body_def)

lemma serve_http_body:
  "fst (serve_http d mux rq w) = fst (route d mux rq w) \<or>
     fst (serve_http d mux rq w) = \<lparr>wr_Status = 500, wr_Body = ApiBody (ErrorBody ''internal'')\<rparr>"
  by (simp add: serve_http_def recoverer_def request_logger_def write_header_def from_api_def write_err_def Let_def
      split: outcome.split)

lemma serve_http_world:
  "ww_api (snd (serve_http d mux rq w)) = ww_api (snd (route d mux rq w))"
  "ww_throttle (snd (serve_http d mux rq w)) = ww_throttle (snd (route d mux rq w))"
  by (simp_all add: serve_http_def recoverer_def request_logger_def write_header_def Let_def split: outcome.split)

definition opens_session :: "('f, 'e) router_deps \<Rightarrow> web_request \<Rightarrow> ('f, 'e) web_world \<Rightarrow> bool" where
  "opens_session d rq w \<longleftrightarrow> lr_Password (wq_Login rq) = Inr (rd_AuthPassword d) \<and>
     \<not> blocked (hd_now (rd_Api d)) (request_ip (wq_Login rq)) (ww_throttle w)"

definition sets_session :: "'f web_body \<Rightarrow> bool" where
  "sets_session b = (case b of AuthBody e (Some c) \<Rightarrow> ok_Value c \<noteq> [] | other \<Rightarrow> False)"

lemma login_sets_session:
  "login_handler hmac password now r t = (rep, t') \<Longrightarrow>
     case ar_cookie rep of
       None \<Rightarrow> True
     | Some c \<Rightarrow> lr_Password r = Inr password \<and> \<not> blocked now (request_ip r) t"
  by (auto simp: login_handler_def Let_def auth_error_def split: if_splits sum.splits)

text \<open>Any choice of the routing library leads to one of the handlers in the table.\<close>

lemma route_cases:
  "(\<exists>code. route d mux rq w = (unrouted code, w)) \<or> (\<exists>t ps. route d mux rq w = top_handler d mux t ps rq w)"
  by (cases "mux (map fst (top_routes d)) (wq_Method rq) (wq_Path rq)") (auto simp: route_def)

text \<open>
  C6. The gate covers the API, whatever the routing library does: with a password configured, a request
  that has neither a valid session nor the password changes no server, snapshot or alert, runs
  no command on a server and calls no hook, and its reply holds nothing that a handler of the API
  produced; only a login with the right password, from a client that is not blocked, gets a session.
\<close>

theorem gate_covers_api:
  assumes "rd_AuthPassword d \<noteq> []"
    "\<not> authorized (rd_hmac d) (rd_AuthPassword d) (hd_now (rd_Api d)) (wq_Credentials rq)"
  shows "ww_api (snd (serve_http d mux rq w)) = ww_api w \<and>
    public_body (wr_Body (fst (serve_http d mux rq w))) \<and>
    (sets_session (wr_Body (fst (serve_http d mux rq w))) \<longrightarrow> opens_session d rq w)"
proof -
  let ?r = "route d mux rq w"
  have handled: "ww_api (snd (top_handler d mux t ps rq w)) = ww_api w \<and>
      public_body (wr_Body (fst (top_handler d mux t ps rq w))) \<and>
      (sets_session (wr_Body (fst (top_handler d mux t ps rq w))) \<longrightarrow> opens_session d rq w)" for t ps
  proof (cases t)
    case Login
    then show ?thesis
      using login_sets_session [of "rd_hmac d" "rd_AuthPassword d" "hd_now (rd_Api d)" "wq_Login rq" "ww_throttle w"]
      by (auto simp: from_auth_def sets_session_def opens_session_def split: prod.split option.splits)
  qed (use assms in \<open>simp_all add: auth_gate_def from_auth_def logout_handler_def sets_session_def Let_def\<close>)
  have "ww_api (snd ?r) = ww_api w \<and> public_body (wr_Body (fst ?r)) \<and>
      (sets_session (wr_Body (fst ?r)) \<longrightarrow> opens_session d rq w)"
    using route_cases [of d mux rq w]
  proof (elim disjE exE)
    fix code assume "?r = (unrouted code, w)"
    then show ?thesis by (simp add: unrouted_def sets_session_def)
  next
    fix t ps assume "?r = top_handler d mux t ps rq w"
    then show ?thesis using handled [of t ps] by simp
  qed
  then show ?thesis
    using serve_http_body [of d mux rq w] by (auto simp: serve_http_world sets_session_def)
qed

definition example_router :: "(int, unit) router_deps" where
  "example_router = \<lparr>rd_Api = deps_example, rd_MetricsBaseURL = ''http://vm'', rd_LogsBaseURL = [],
     rd_MetricsQueryTimeout = second, rd_LogsQueryTimeout = second, rd_AuthPassword = ''pw'', rd_AlertsRules = [],
     rd_AlertsEnabled = False, rd_http = \<lparr>build_request = (\<lambda>u. None), send = (\<lambda>r. Inl (new_error ''down''))\<rparr>,
     rd_decode = (\<lambda>b. Inl (new_error ''bad'')), rd_floats = int_floats, rd_hmac = (\<lambda>k m. CHR ''x'' # k),
     rd_dashboard = placeholder_handler\<rparr>"

definition example_request :: "string \<Rightarrow> string \<Rightarrow> credentials \<Rightarrow> web_request" where
  "example_request m p cr = \<lparr>wq_Method = m, wq_Path = p, wq_RawQuery = [], wq_Credentials = cr,
     wq_Login = wrong_login\<lparr>lr_Password := Inr ''pw''\<rparr>, wq_Create = Inl (new_error ''eof''), wq_Patch = Inl (new_error ''eof'')\<rparr>"

definition example_web :: "int db \<Rightarrow> (int, unit) web_world" where
  "example_web db = \<lparr>ww_api = \<lparr>hw_db = db, hw_exec = (), hw_created = [], hw_deleted = []\<rparr>, ww_throttle = login_throttle,
     ww_log = []\<rparr>"

theorem gate_covers_api_witness:
  "ww_api (snd (serve_http example_router (\<lambda>tbl m p. Routed 3 [(''*'', ''servers/1'')])
      (example_request ''DELETE'' ''/api/v1/servers/1'' \<lparr>cd_Cookie = None, cd_Basic = Some (''u'', ''guess'')\<rparr>) (example_web empty_db))) =
    ww_api (example_web empty_db)"
  using gate_covers_api [where d = example_router and mux = "\<lambda>tbl m p. Routed 3 [(''*'', ''servers/1'')]" and w = "example_web empty_db" and
      rq = "example_request ''DELETE'' ''/api/v1/servers/1'' \<lparr>cd_Cookie = None, cd_Basic = Some (''u'', ''guess'')\<rparr>"]
  by (simp add: example_router_def example_request_def authorized_def)

section \<open>With a session\<close>

text \<open>The documented choice of the routing library on this program's tables: a path that is a pattern
  without parameters has its route, and any other path below the mount goes to the mounted router
  with the rest of the path.\<close>

definition routes_as_documented :: "('f, 'e) router_deps \<Rightarrow> mux \<Rightarrow> bool" where
  "routes_as_documented d mux \<longleftrightarrow>
     (\<forall>i < length (top_routes d). \<forall>m p. fst (top_routes d ! i) = (m, p) \<and> m \<noteq> ''*'' \<longrightarrow>
        mux (map fst (top_routes d)) m p = Routed i []) \<and>
     (\<forall>m rest. (\<forall>x \<in> set (top_routes d). snd (fst x) \<noteq> ''/api/v1/'' @ rest) \<longrightarrow>
        mux (map fst (top_routes d)) m (''/api/v1/'' @ rest) = Routed (length (top_routes d) - 2) [(''*'', rest)]) \<and>
     (\<forall>i < length (api_routes d). \<forall>m p. fst (api_routes d ! i) = (m, p) \<and> CHR ''{'' \<notin> set p \<longrightarrow>
        mux (map fst (api_routes d)) m p = Routed i [])"

lemma top_routes_password:
  "rd_AuthPassword d \<noteq> [] \<Longrightarrow> top_routes d = [((''GET'', ''/healthz''), Healthz), ((''POST'', ''/api/v1/login''), Login),
      ((''POST'', ''/api/v1/logout''), Logout), ((''*'', ''/api/v1/*''), Api), ((''*'', ''/*''), Dashboard)]"
  by (simp add: top_routes_def)

lemma listing_with_session:
  assumes "rd_AuthPassword d \<noteq> []" "\<And>k m. rd_hmac d k m \<noteq> []" "is_int64 (unix_seconds (t0 + session_ttl))"
    "routes_as_documented d mux" "wq_Method r2 = ''GET''" "wq_Path r2 = ''/api/v1/servers''"
    "wq_Credentials r2 = \<lparr>cd_Cookie = Some (issue_session (rd_hmac d) t0 (rd_AuthPassword d) session_ttl), cd_Basic = None\<rparr>"
    "list_servers (hw_db (ww_api w2)) = (Inr rows, db)"
  shows "serve_http (d\<lparr>rd_Api := (rd_Api d)\<lparr>hd_now := now\<rparr>\<rparr>) mux r2 w2 =
       (if unix_seconds now \<le> unix_seconds (t0 + session_ttl)
        then (\<lparr>wr_Status = 200, wr_Body = ApiBody (ServersBody (map to_dto rows))\<rparr>,
              w2\<lparr>ww_api := (ww_api w2)\<lparr>hw_db := db\<rparr>, ww_log := ww_log w2 @ [(''GET'', ''/api/v1/servers'', 200)]\<rparr>)
        else (\<lparr>wr_Status = 401, wr_Body = Unauthorized\<rparr>, w2\<lparr>ww_log := ww_log w2 @ [(''GET'', ''/api/v1/servers'', 401)]\<rparr>))"
proof -
  let ?pw = "rd_AuthPassword d" and ?t0 = t0
  note top = top_routes_password [OF assms(1)]
  have tables: "top_routes (d\<lparr>rd_Api := x\<rparr>) = top_routes d" "api_routes (d\<lparr>rd_Api := x\<rparr>) = api_routes d" for x
    by (simp_all add: top_routes_def api_routes_def)
  have m2: "mux (map fst (top_routes d)) ''GET'' ''/api/v1/servers'' = Routed 3 [(''*'', ''servers'')]"
    using assms(4) unfolding routes_as_documented_def top by (auto dest: spec [of _ "''servers''"])
  have m3: "mux (map fst (api_routes d)) ''GET'' ''/servers'' = Routed 2 []" "snd (api_routes d ! 2) = Servers_list"
    "2 < length (api_routes d)"
    using assms(4) unfolding routes_as_documented_def by (auto simp: api_routes_def mount_servers_def)
  let ?d = "d\<lparr>rd_Api := (rd_Api d)\<lparr>hd_now := now\<rparr>\<rparr>"
  have gate: "authorized (rd_hmac d) ?pw now (wq_Credentials r2) \<longleftrightarrow> unix_seconds now \<le> unix_seconds (?t0 + session_ttl)"
    unfolding assms(7) using assms(1) validate_issued [OF assms(2,3), where at = now and password = ?pw and other = ?pw]
    by (simp add: authorized_def)
  have inner: "route_api ?d mux ''/servers'' r2 w2 =
      (\<lparr>wr_Status = 200, wr_Body = ApiBody (ServersBody (map to_dto rows))\<rparr>, w2\<lparr>ww_api := (ww_api w2)\<lparr>hw_db := db\<rparr>\<rparr>)"
    unfolding route_api_def tables assms(5) m3(1) using m3(2,3) assms(8)
    by (simp add: via_api_def list_handler_def on_db_def write_json_def from_api_def)
  have "route ?d mux r2 w2 = top_handler ?d mux Api [(''*'', ''servers'')] r2 w2"
    unfolding route_def tables assms(5,6) m2 using top by simp
  also have "\<dots> = (if unix_seconds now \<le> unix_seconds (?t0 + session_ttl) then route_api ?d mux ''/servers'' r2 w2
      else (\<lparr>wr_Status = 401, wr_Body = Unauthorized\<rparr>, w2))"
    using gate by (simp add: auth_gate_def map_get_def)
  finally show ?thesis
    unfolding inner by (simp add: serve_http_def write_header_def request_logger_def recoverer_def assms(5,6))
qed


text \<open>A router that answers as documented: an exact route, or the mount.\<close>

definition plain_mux :: mux where
  "plain_mux tbl m path =
     (case find (\<lambda>i. tbl ! i = (m, path)) [0..<length tbl] of
        Some i \<Rightarrow> Routed i []
      | None \<Rightarrow> (case cut_prefix ''/api/v1/'' path of
                   Some rest \<Rightarrow> Routed (length tbl - 2) [(''*'', rest)]
                 | None \<Rightarrow> No_route 404))"

lemma plain_mux_exact:
  assumes "distinct tbl" "i < length tbl" "tbl ! i = (m, p)"
  shows "plain_mux tbl m p = Routed i []"
proof -
  have "find (\<lambda>i. tbl ! i = (m, p)) [0..<length tbl] = Some i"
  proof (rule find_unique)
    fix y assume "y \<in> set [0..<length tbl]" "tbl ! y = (m, p)"
    then show "y = i" using nth_eq_iff_index_eq [OF assms(1), of y i] assms(2,3) by simp
  qed (use assms in simp_all)
  then show ?thesis by (simp add: plain_mux_def)
qed

lemma plain_mux_mount:
  assumes "\<forall>x \<in> set tbl. snd x \<noteq> ''/api/v1/'' @ rest"
  shows "plain_mux tbl m (''/api/v1/'' @ rest) = Routed (length tbl - 2) [(''*'', rest)]"
proof -
  have "tbl ! i \<noteq> (m, ''/api/v1/'' @ rest)" if "i < length tbl" for i
    using assms nth_mem [OF that] by (metis snd_conv)
  then have "find (\<lambda>i. tbl ! i = (m, ''/api/v1/'' @ rest)) [0..<length tbl] = None"
    by (simp only: find_None_iff) auto
  moreover have "cut_prefix ''/api/v1/'' (''/api/v1/'' @ rest) = Some rest"
    by (simp add: cut_prefix_def has_prefix_def)
  ultimately show ?thesis unfolding plain_mux_def by (simp only: option.case)
qed

lemma plain_mux_documented:
  assumes "distinct (map fst (top_routes d))" "distinct (map fst (api_routes d))"
  shows "routes_as_documented d plain_mux"
  unfolding routes_as_documented_def
proof (intro conjI allI impI; (elim conjE)?)
  show "plain_mux (map fst (top_routes d)) m p = Routed i []"
    if "i < length (top_routes d)" "fst (top_routes d ! i) = (m, p)" for i m p
    using that by (intro plain_mux_exact [OF assms(1)]) simp_all
  show "plain_mux (map fst (api_routes d)) m p = Routed i []"
    if "i < length (api_routes d)" "fst (api_routes d ! i) = (m, p)" for i m p
    using that by (intro plain_mux_exact [OF assms(2)]) simp_all
  show "plain_mux (map fst (top_routes d)) m (''/api/v1/'' @ rest) = Routed (length (top_routes d) - 2) [(''*'', rest)]"
    if "\<forall>x \<in> set (top_routes d). snd (fst x) \<noteq> ''/api/v1/'' @ rest" for m rest
    using plain_mux_mount [of "map fst (top_routes d)" rest m] that by simp
qed


end
