(* ===== verification/App.thy ===== *)
theory App
  imports Api_Servers Scheduler Stream_Manager Alert_Eval Config
begin

text \<open>
  cmd/monitor/main.go: how the parts are wired. The configuration is turned into those of the parts,
  every stored server is scheduled at boot, the API's hooks schedule a created server and launch its
  stream and first snapshot in the background, and deschedule a deleted one. Background goroutines are
  tasks that run at any later time.
\<close>

section \<open>Configurations of the parts\<close>

definition streaming_of :: "config \<Rightarrow> stream_config" where
  "streaming_of c =
     (let k = c_Streaming c in
      \<lparr>tc_Enabled = ck_Enabled k, tc_MonitorID = ck_MonitorID k, tc_ScriptPath = ck_ScriptPath k,
       tc_Files = map (\<lambda>f. \<lparr>fc_ID = cf_ID f, fc_Path = cf_Path f\<rparr>) (ck_Files k),
       tc_FlushIntervalSeconds = ck_FlushIntervalSeconds k, tc_MaxBatchLines = ck_MaxBatchLines k,
       tc_PushTimeoutSeconds = ck_PushTimeoutSeconds k, tc_MinBackoffSeconds = ck_MinBackoffSeconds k,
       tc_MaxBackoffSeconds = ck_MaxBackoffSeconds k\<rparr>)"

definition alerts_of :: "config \<Rightarrow> alerts_config" where
  "alerts_of c =
     (let a = c_Alerts c in
      \<lparr>ac_Enabled = ce_Enabled a, ac_EvaluationIntervalSeconds = ce_EvaluationIntervalSeconds a,
       ac_NotifyRepeatSeconds = ce_NotifyRepeatSeconds a, ac_VMQueryTimeoutSeconds = ce_VMQueryTimeoutSeconds a,
       ac_Telegram = \<lparr>tc_BotToken = ct_BotToken (ce_Telegram a), tc_ChatIDs = ct_ChatIDs (ce_Telegram a),
         tc_SendTimeoutSeconds = ct_SendTimeoutSeconds (ce_Telegram a)\<rparr>,
       ac_Rules = map (\<lambda>r. \<lparr>ru_Name = cr_Name r, ru_Expr = cr_Expr r, ru_Severity = cr_Severity r,
         ru_Message = cr_Message r, ru_FingerprintLabels = cr_FingerprintLabels r\<rparr>) (ce_Rules a),
       ac_DisableDefaults = ce_DisableDefaults a\<rparr>)"

definition pool_config_of :: "config \<Rightarrow> pool_config" where
  "pool_config_of c = \<lparr>pc_DialTimeout = seconds (ch_DialTimeoutSeconds (c_SSH c)),
     pc_CommandTimeout = seconds (ch_CommandTimeoutSeconds (c_SSH c))\<rparr>"

definition schedule_spec :: "int \<Rightarrow> string" where
  "schedule_spec n = ''@every '' @ format_int n @ ''s''"

definition build_sqlite_dsn :: "string \<Rightarrow> string" where
  "build_sqlite_dsn path =
     ''file:'' @ path @ ''?'' @ encode_values (map (Pair ''_pragma'')
       [''journal_mode(wal)'', ''synchronous(normal)'', ''busy_timeout(5000)'', ''foreign_keys(on)'',
        ''temp_store(memory)'', ''mmap_size(134217728)'', ''cache_size(-64000)''])"

datatype log_level = LevelDebug | LevelInfo | LevelWarn | LevelError

definition log_level_of :: "string \<Rightarrow> log_level" where
  "log_level_of level =
     (if level = ''debug'' then LevelDebug
      else if level = ''warn'' then LevelWarn
      else if level = ''error'' then LevelError
      else LevelInfo)"

section \<open>Boot\<close>

text \<open>A scheduled job is the pull of a server, so it is named by the server's identifier.\<close>

fun schedule_all ::
  "(int, 'c) cron_ops \<Rightarrow> string \<Rightarrow> int list \<Rightarrow> (int, 'c) scheduler \<Rightarrow> unit result \<times> (int, 'c) scheduler" where
  "schedule_all ops spec [] s = (Inr (), s)"
| "schedule_all ops spec (i # is) s =
     (case add_keyed ops i spec i s of
        (Inl e, s1) \<Rightarrow> (Inl (wrap_error (''schedule server '' @ format_int i @ '': '') e), s1)
      | (Inr _, s1) \<Rightarrow> schedule_all ops spec is s1)"

definition register_scheduled_pulls ::
  "(int, 'c) cron_ops \<Rightarrow> int \<Rightarrow> 'f db \<times> (int, 'c) scheduler \<Rightarrow> unit result \<times> 'f db \<times> (int, 'c) scheduler" where
  "register_scheduled_pulls ops interval st =
     (case st of (db, s) \<Rightarrow>
        case list_servers db of
          (Inl e, dbr) \<Rightarrow> (Inl e, dbr, s)
        | (Inr servers, dbr) \<Rightarrow>
            (case schedule_all ops (schedule_spec interval) (map sv_ID servers) s of (r, s1) \<Rightarrow> (r, dbr, s1)))"

section \<open>The running program\<close>

datatype hook = Created int | Deleted int

datatype task = HotLaunch int | Bootstrap int

record ('f, 'e, 'c) app =
  ap_api :: "('f, 'e) api_world"
  ap_sched :: "(int, 'c) scheduler"
  ap_alerts :: "'f alert_service option"
  ap_mgr :: "manager option"
  ap_hooks :: "hook list"
  ap_tasks :: "task list"
  ap_ctxs :: nat
  ap_cancelled :: "nat list"

text \<open>The configuration and the parameters of the parts: what the handlers are built from, the cron
  library, and how the alerts service builds its evaluator.\<close>

record ('f, 'e, 'c) app_env =
  ae_cfg :: config
  ae_deps :: "'e api_deps"
  ae_ops :: "(int, 'c) cron_ops"
  ae_build :: "http_vm_client \<Rightarrow> telegram_client list \<Rightarrow> rule list \<Rightarrow> duration \<Rightarrow> 'f evaluator"

definition poll_spec :: "('f, 'e, 'c) app_env \<Rightarrow> string" where
  "poll_spec env = schedule_spec (cd_DefaultIntervalSeconds (c_Scheduler (ae_cfg env)))"

text \<open>\<open>run\<close> up to the listener: the root context is number 0.\<close>

definition boot ::
  "('f, 'e, 'c) app_env \<Rightarrow> 'c \<Rightarrow> ('f, 'e) api_world \<Rightarrow> ('f, 'e, 'c) app result outcome" where
  "boot env cron w =
     (let c = ae_cfg env;
          sched = new_scheduler (cd_MaxParallel (c_Scheduler c)) (seconds (cd_PerJobTimeoutSeconds (c_Scheduler c))) cron
      in case register_scheduled_pulls (ae_ops env) (cd_DefaultIntervalSeconds (c_Scheduler c)) (hw_db w, sched) of
           (Inl e, db, s) \<Rightarrow> Returned (Inl (wrap_error ''register pulls: '' e))
         | (Inr _, db, s) \<Rightarrow>
             (case new_service (alerts_of c) (cm_VMURL (c_Metrics c)) (ae_build env) of
                Inl e \<Rightarrow> Returned (Inl (wrap_error ''alerts: '' e))
              | Inr alerts \<Rightarrow>
                  (let a = \<lparr>ap_api = w\<lparr>hw_db := db\<rparr>, ap_sched = scheduler_start s, ap_alerts = alerts,
                     ap_mgr = None, ap_hooks = [], ap_tasks = [], ap_ctxs = 1, ap_cancelled = []\<rparr>
                   in case new_manager (streaming_of c) of
                        Inl e \<Rightarrow> Returned (Inl (wrap_error ''streamer: '' e))
                      | Inr None \<Rightarrow> Returned (Inr a)
                      | Inr (Some m) \<Rightarrow>
                          (case manager_start 0 (m, db) of
                             (Panicked p, m1, dbs) \<Rightarrow> Panicked p
                           | (Returned (Inl e), m1, dbs) \<Rightarrow> Returned (Inl (wrap_error ''streamer start: '' e))
                           | (Returned (Inr _), m1, dbs) \<Rightarrow>
                               Returned (Inr (a\<lparr>ap_mgr := Some m1, ap_api := w\<lparr>hw_db := dbs\<rparr>\<rparr>))))))"

text \<open>The hooks of the API.\<close>

definition on_server_created :: "('f, 'e, 'c) app_env \<Rightarrow> int \<Rightarrow> ('f, 'e, 'c) app \<Rightarrow> ('f, 'e, 'c) app" where
  "on_server_created env i a =
     (case add_keyed (ae_ops env) i (poll_spec env) i (ap_sched a) of
        (Inl e, s) \<Rightarrow> a\<lparr>ap_sched := s\<rparr>
      | (Inr _, s) \<Rightarrow>
          a\<lparr>ap_sched := s,
            ap_tasks := ap_tasks a @ (if ap_mgr a = None then [] else [HotLaunch i]) @ [Bootstrap i]\<rparr>)"

definition on_server_deleted :: "('f, 'e, 'c) app_env \<Rightarrow> int \<Rightarrow> ('f, 'e, 'c) app \<Rightarrow> ('f, 'e, 'c) app" where
  "on_server_deleted env i a =
     a\<lparr>ap_sched := remove_keyed (ae_ops env) i (ap_sched a), ap_mgr := map_option (remove_server i) (ap_mgr a)\<rparr>"

fun run_hook :: "('f, 'e, 'c) app_env \<Rightarrow> hook \<Rightarrow> ('f, 'e, 'c) app \<Rightarrow> ('f, 'e, 'c) app" where
  "run_hook env (Created i) a = on_server_created env i a"
| "run_hook env (Deleted i) a = on_server_deleted env i a"

text \<open>One request. Its store operation and its hook are two steps, between which other requests may
  run, so the hook it calls is pending first.\<close>

definition serve_app ::
  "('f, 'e, 'c) app_env \<Rightarrow> api_request \<Rightarrow> ('f, 'e, 'c) app \<Rightarrow> api_reply \<times> ('f, 'e, 'c) app" where
  "serve_app env rq a =
     (let w = ap_api a in
      case serve (ae_deps env) rq w of
        (rep, w1) \<Rightarrow>
          (rep, a\<lparr>ap_api := w1,
             ap_hooks := ap_hooks a @ map Created (drop (length (hw_created w)) (hw_created w1)) @
               map Deleted (drop (length (hw_deleted w)) (hw_deleted w1))\<rparr>))"

text \<open>The background goroutine of a created server that launches its stream, under a context of its own
  that is cancelled when it returns.\<close>

definition hot_launch :: "int \<Rightarrow> ('f, 'e, 'c) app \<Rightarrow> unit result outcome option \<times> ('f, 'e, 'c) app" where
  "hot_launch i a =
     (case ap_mgr a of
        None \<Rightarrow> (None, a)
      | Some m \<Rightarrow>
          (case launch_server (ap_ctxs a) i (m, hw_db (ap_api a)) of
             (r, m1, db) \<Rightarrow>
               (Some r, a\<lparr>ap_mgr := Some m1, ap_api := (ap_api a)\<lparr>hw_db := db\<rparr>, ap_ctxs := ap_ctxs a + 1,
                  ap_cancelled := ap_ctxs a # ap_cancelled a\<rparr>)))"

text \<open>The one that captures its first snapshot. It stores the output as it is.\<close>

definition bootstrap_snapshot :: "'e api_deps \<Rightarrow> int \<Rightarrow> ('f, 'e) api_world \<Rightarrow> ('f, 'e) api_world" where
  "bootstrap_snapshot d i w =
     (case on_db (get_server i) w of
        (Inl e, w1) \<Rightarrow> w1
      | (Inr srv, w1) \<Rightarrow>
          (case hd_run_input d (hw_exec w1) (server_target srv) ''bash -s'' (hd_system_script d) of
             ((out, err), ex) \<Rightarrow>
               snd (on_db (upsert_system_snapshot (hd_sql d) (hd_now d)
                 (case err of
                    Some e \<Rightarrow> failed_snapshot i (err_msg e)
                  | None \<Rightarrow> \<lparr>ss_ServerID = i, ss_CapturedAt = zero_time, ss_Payload = Some out, ss_LastError = []\<rparr>))
                 (w1\<lparr>hw_exec := ex\<rparr>))))"

fun run_task :: "('f, 'e, 'c) app_env \<Rightarrow> task \<Rightarrow> ('f, 'e, 'c) app \<Rightarrow> ('f, 'e, 'c) app" where
  "run_task env (HotLaunch i) a = snd (hot_launch i a)"
| "run_task env (Bootstrap i) a = a\<lparr>ap_api := bootstrap_snapshot (ae_deps env) i (ap_api a)\<rparr>"

text \<open>Shutdown, in the order of the code: the scheduler, the alerts service, then the manager.\<close>

definition shutdown ::
  "(nat list \<Rightarrow> nat list) \<Rightarrow> (nat \<Rightarrow> duration option) \<Rightarrow> ('f, 'e, 'c) app \<Rightarrow> ('f, 'e, 'c) app" where
  "shutdown order wind a =
     a\<lparr>ap_sched := stop_begin (ap_sched a),
       ap_mgr := map_option (\<lambda>m. fst (manager_stop order wind (5 * second) m)) (ap_mgr a)\<rparr>"

text \<open>The program's steps: a request, a pending hook, a background task, shutdown, and the store
  operations of the scheduled pulls, the log pipeline, the sink and the alert evaluator, which
  neither create nor delete servers. What the executor answers and the clock may differ from step to step. Without
  \<open>overlap\<close> a request waits until the hook of the last one has run.\<close>

definition background_op :: "'f store_op \<Rightarrow> bool" where
  "background_op op \<longleftrightarrow> (\<forall>inp. op \<noteq> CreateServer inp) \<and> (\<forall>i. op \<noteq> Storage.DeleteServer i)"

definition hooked :: "'e api_deps \<Rightarrow> 'e api_deps" where
  "hooked d = d\<lparr>hd_created_hook := True, hd_deleted_hook := True\<rparr>"

inductive app_step ::
  "bool \<Rightarrow> ('f, 'e, 'c) app_env \<Rightarrow> ('f, 'e, 'c) app \<Rightarrow> ('f, 'e, 'c) app \<Rightarrow> bool" for overlap env where
  Request: "overlap \<or> ap_hooks a = [] \<Longrightarrow> app_step overlap env a (snd (serve_app (env\<lparr>ae_deps := hooked d\<rparr>) rq a))"
| Hook: "ap_hooks a = h1 @ h # h2 \<Longrightarrow> app_step overlap env a (run_hook env h (a\<lparr>ap_hooks := h1 @ h2\<rparr>))"
| Background: "ap_tasks a = t1 @ t # t2 \<Longrightarrow>
     app_step overlap env a (run_task (env\<lparr>ae_deps := d\<rparr>) t (a\<lparr>ap_tasks := t1 @ t2\<rparr>))"
| Store: "background_op op \<Longrightarrow>
     app_step overlap env a (a\<lparr>ap_api := (ap_api a)\<lparr>hw_db := store_step sql (now, op) (hw_db (ap_api a))\<rparr>\<rparr>)"
| Shutdown: "app_step overlap env a (shutdown order wind a)"

section \<open>The servers of the store\<close>

definition server_ids :: "'f db \<Rightarrow> int list" where
  "server_ids db = map es_ID (db_servers db)"

text \<open>An operation that changes neither which servers there are nor the next identifier, and keeps
  the tables consistent.\<close>

definition same_servers :: "'f db \<Rightarrow> 'f db \<Rightarrow> bool" where
  "same_servers db db' \<longleftrightarrow> server_ids db' = server_ids db \<and> next_server db' = next_server db"

definition keeps_ids :: "('f db \<Rightarrow> 'a \<times> 'f db) \<Rightarrow> bool" where
  "keeps_ids op \<longleftrightarrow> (\<forall>db. same_servers db (snd (op db)) \<and> (db_ok db \<longrightarrow> db_ok (snd (op db))))"

lemma same_servers_refl [simp]: "same_servers db db"
  by (simp add: same_servers_def)

lemma same_servers_trans: "same_servers db db' \<Longrightarrow> same_servers db' db'' \<Longrightarrow> same_servers db db''"
  by (simp add: same_servers_def)

lemma driver_cases:
  "(\<exists>e fs. driver op db = (Inl e, db\<lparr>db_faults := fs\<rparr>)) \<or> (\<exists>fs. driver op db = op (db\<lparr>db_faults := fs\<rparr>))"
proof (cases "db_faults db")
  case Nil
  have "db\<lparr>db_faults := db_faults db\<rparr> = db" by simp
  with Nil show ?thesis by (metis driver_healthy)
next
  case (Cons f fs)
  then show ?thesis by (cases f) (auto simp: driver_def)
qed

lemma driver_same: "(\<And>d. same_servers d (snd (op d))) \<Longrightarrow> same_servers db (snd (driver op db))"
proof -
  assume op: "\<And>d. same_servers d (snd (op d))"
  have faults: "same_servers db (db\<lparr>db_faults := fs\<rparr>)" for fs
    by (simp add: same_servers_def server_ids_def next_server_def)
  from driver_cases [of op db] op faults same_servers_trans show ?thesis by (metis snd_conv)
qed

lemma replace_row_ids: "map key (replace_row key r rows) = map key rows"
  by (induction rows) auto

lemma table_same:
  "same_servers db (snd (server_update_save env now i m db))"
  "same_servers db (snd (cursor_create_save env now path off sid db))"
  "same_servers db (snd (cursor_update_save env now i off db))"
  "same_servers db (snd (snapshot_create_save env now pl msg sid db))"
  "same_servers db (snd (snapshot_update_save now i pl msg db))"
  "same_servers db (snd (alert_create_save env now r fp v st ls nt db))"
  "same_servers db (snd (alert_update_save now i v st' ls nt db))"
  "same_servers db (snd (alert_delete i db))"
  by (simp_all add: server_update_save_def cursor_create_save_def cursor_update_save_def snapshot_create_save_def
      snapshot_update_save_def alert_create_save_def alert_update_save_def alert_delete_def same_servers_def
      server_ids_def next_server_def Let_def replace_row_ids split: option.split prod.split)

text \<open>Only creating and deleting change which servers there are.\<close>

lemma store_same:
  "same_servers db (snd (get_server i db))" "same_servers db (snd (list_servers db))"
  "same_servers db (snd (update_server env now i inp db))"
  "same_servers db (snd (set_server_status env now i st msg db))" "same_servers db (snd (get_log_cursor i p db))"
  "same_servers db (snd (upsert_log_cursor env now c db))" "same_servers db (snd (list_alert_states_by_rule r db))"
  "same_servers db (snd (list_alert_states db))"
  "same_servers db (snd (upsert_alert_state env now al db))" "same_servers db (snd (delete_alert_state i db))"
  "same_servers db (snd (get_system_snapshot i db))" "same_servers db (snd (upsert_system_snapshot env now sn db))"
  unfolding store_op_defs
  by (rule driver_same, simp add: Let_def snd_case_result table_same split: sum.split option.split)+

lemma background_same: "background_op op \<Longrightarrow> same_servers db (store_step env (now, op) db)"
  by (cases op) (simp_all add: background_op_def store_same)

lemma keeps_background: "background_op op \<Longrightarrow> keeps_ids (\<lambda>db. (u, store_step env (now, op) db))"
  by (simp add: keeps_ids_def background_same store_step_ok)

lemmas store_ok_each = store_step_ok [of _ _ "(_, Storage.GetServer _)", unfolded store_step.simps]
  store_step_ok [of _ _ "(_, ListServers)", unfolded store_step.simps]
  store_step_ok [of _ _ "(_, UpdateServer _ _)", unfolded store_step.simps]
  store_step_ok [of _ _ "(_, SetServerStatus _ _ _)", unfolded store_step.simps]
  store_step_ok [of _ _ "(_, GetLogCursor _ _)", unfolded store_step.simps]
  store_step_ok [of _ _ "(_, Storage.GetSystemSnapshot _)", unfolded store_step.simps]
  store_step_ok [of _ _ "(_, UpsertSystemSnapshot _)", unfolded store_step.simps]

lemma store_keeps:
  "keeps_ids (get_server i)" "keeps_ids list_servers" "keeps_ids (update_server env now i inp)"
  "keeps_ids (set_server_status env now i st msg)" "keeps_ids (get_log_cursor i p)"
  "keeps_ids (get_system_snapshot i)" "keeps_ids (upsert_system_snapshot env now sn)"
  by (simp_all add: keeps_ids_def store_same store_ok_each)

text \<open>What creating and deleting do to them.\<close>

lemma driver_result:
  "driver op db = (r, db') \<Longrightarrow> (\<exists>e fs. r = Inl e \<and> db' = db\<lparr>db_faults := fs\<rparr>) \<or> (\<exists>fs. op (db\<lparr>db_faults := fs\<rparr>) = (r, db'))"
  using driver_cases [of op db] by auto

lemma create_save_effect:
  "server_create_save sql now mut db = (r, db') \<Longrightarrow>
     case r of Inl e \<Rightarrow> db' = db
     | Inr row \<Rightarrow> server_ids db' = server_ids db @ [es_ID row] \<and> es_ID row = next_server db \<and> next_server db' = next_server db + 1"
  by (auto simp: server_create_save_def Let_def server_ids_def next_server_def
      split: prod.splits option.splits if_splits)

lemma create_effect:
  assumes "create_server sql now inp db = (r, db')"
  shows "case r of Inl e \<Rightarrow> same_servers db db'
     | Inr s \<Rightarrow> server_ids db' = server_ids db @ [sv_ID s] \<and> sv_ID s = next_server db \<and> next_server db' = next_server db + 1"
proof -
  have faults: "server_ids (db\<lparr>db_faults := fs\<rparr>) = server_ids db" "next_server (db\<lparr>db_faults := fs\<rparr>) = next_server db" for fs
    by (simp_all add: server_ids_def next_server_def)
  from driver_result [OF assms [unfolded create_server_def Let_def]] show ?thesis
  proof (elim disjE exE conjE)
    fix fs
    let ?mut = "empty_mutation\<lparr>mu_Name := Some (ns_Name inp), mu_Hostname := Some (ns_Hostname inp),
            mu_SSHUser := Some (ns_SSHUser inp), mu_SSHPort := Some (ns_SSHPort inp),
            mu_SSHKeyPath := Some (ns_SSHKeyPath inp), mu_Labels := ns_Labels inp,
            mu_BenchPaths := ns_BenchPaths inp\<rparr>"
    obtain x d where x: "server_create_save sql now ?mut (db\<lparr>db_faults := fs\<rparr>) = (x, d)" by (metis surj_pair)
    assume "(case server_create_save sql now ?mut (db\<lparr>db_faults := fs\<rparr>) of
        (Inl e, db') \<Rightarrow> (Inl (if is_unique_hostname_violation e then err_duplicate_hostname else e), db')
      | (Inr row, db') \<Rightarrow> (Inr (ent_to_server row), db')) = (r, db')"
    with create_save_effect [OF x] show ?thesis
      by (auto simp: x same_servers_def faults ent_to_server_def split: sum.splits)
  qed (simp add: same_servers_def faults)
qed

lemma delete_effect:
  assumes "delete_server sql i db = (r, db')"
  shows "case r of Inl e \<Rightarrow> same_servers db db'
     | Inr u \<Rightarrow> server_ids db' = filter (\<lambda>j. j \<noteq> i) (server_ids db) \<and> next_server db' = next_server db \<and>
         i \<in> set (server_ids db)"
proof -
  have faults: "server_ids (db\<lparr>db_faults := fs\<rparr>) = server_ids db" "next_server (db\<lparr>db_faults := fs\<rparr>) = next_server db" for fs
    by (simp_all add: server_ids_def next_server_def)
  have save: "server_delete sql i d = (x, d') \<Longrightarrow> case x of Inl e \<Rightarrow> d' = d
     | Inr u \<Rightarrow> server_ids d' = filter (\<lambda>j. j \<noteq> i) (server_ids d) \<and> next_server d' = next_server d \<and>
         i \<in> set (server_ids d)" for d x d'
    by (auto simp: server_delete_def server_ids_def next_server_def filter_map o_def list_ex_iff split: if_splits)
  from driver_result [OF assms [unfolded delete_server_def]] show ?thesis
  proof (elim disjE exE conjE)
    fix fs
    obtain x d where x: "server_delete sql i (db\<lparr>db_faults := fs\<rparr>) = (x, d)" by (metis surj_pair)
    assume "(case server_delete sql i (db\<lparr>db_faults := fs\<rparr>) of
        (Inl e, db') \<Rightarrow> (Inl (if errors_is e EntNotFound then err_not_found else e), db')
      | (Inr u, db') \<Rightarrow> (Inr u, db')) = (r, db')"
    with save [OF x] show ?thesis by (auto simp: x same_servers_def faults split: sum.splits)
  qed (simp add: same_servers_def faults)
qed

section \<open>What a request does to them\<close>

definition quiet :: "('f, 'e) api_world \<Rightarrow> ('f, 'e) api_world \<Rightarrow> bool" where
  "quiet w w' \<longleftrightarrow> same_servers (hw_db w) (hw_db w') \<and> (db_ok (hw_db w) \<longrightarrow> db_ok (hw_db w')) \<and>
     hw_created w' = hw_created w \<and> hw_deleted w' = hw_deleted w"

lemma quiet_refl [simp]: "quiet w w" "quiet w (w\<lparr>hw_exec := ex\<rparr>)"
  by (simp_all add: quiet_def)

lemma quiet_trans: "quiet w w' \<Longrightarrow> quiet w' w'' \<Longrightarrow> quiet w w''"
  using same_servers_trans by (auto simp: quiet_def)

lemma quiet_on_db: "keeps_ids op \<Longrightarrow> on_db op w = (r, w') \<Longrightarrow> quiet w w'"
  by (auto simp: quiet_def on_db_def keeps_ids_def split: prod.splits) (metis snd_conv)+

lemma quiet_exec: "keeps_ids op \<Longrightarrow> on_db op (w\<lparr>hw_exec := ex\<rparr>) = (r, w') \<Longrightarrow> quiet w w'"
  by (rule quiet_trans [OF quiet_refl(2) [where ex = ex]]) (rule quiet_on_db)

lemma quiet_snd: "keeps_ids op \<Longrightarrow> quiet w (snd (on_db op w))" "keeps_ids op \<Longrightarrow> quiet w (snd (on_db op (w\<lparr>hw_exec := ex\<rparr>)))"
  using quiet_on_db quiet_exec by (metis prod.collapse)+

lemma quiet_with_id: "(\<And>i w. quiet w (snd (k i w))) \<Longrightarrow> quiet w (snd (with_id param k w))"
  by (simp add: with_id_def split: sum.split)

lemma quiet_with_server: "(\<And>s w. quiet w (snd (k s w))) \<Longrightarrow> quiet w (snd (with_server i k w))"
  by (auto simp: with_server_def split: prod.split sum.split
      dest: quiet_on_db [OF store_keeps(1)] intro: quiet_trans)

lemma quiet_serve:
  assumes "\<forall>b. rq \<noteq> PostServers b" "\<forall>p. rq \<noteq> Api_Servers.DeleteServer p"
  shows "quiet w (snd (serve d rq w))"
proof (cases rq)
  case GetServers
  then show ?thesis
    by (auto simp: list_handler_def split: prod.split sum.split dest: quiet_on_db [OF store_keeps(2)])
next
  case (GetServer p)
  then show ?thesis by (auto simp: get_handler_def intro!: quiet_with_id quiet_with_server)
next
  case (PatchServer p b)
  then show ?thesis
    by (auto simp: patch_handler_def split: prod.split sum.split dest: quiet_on_db [OF store_keeps(3)] intro!: quiet_with_id)
next
  case (PostTestConnection p)
  then show ?thesis
    by (auto simp: test_connection_handler_def quiet_snd store_keeps split: prod.split sum.split
        intro!: quiet_with_id quiet_with_server)
next
  case (PostDeployCollector p)
  then show ?thesis
    by (auto simp: deploy_handler_def split: prod.split option.split intro!: quiet_with_id quiet_with_server)
next
  case (PostRefreshSystem p)
  then show ?thesis
    by (auto simp: refresh_handler_def Let_def quiet_snd store_keeps split: prod.split sum.split option.split
        intro!: quiet_with_id quiet_with_server)
      (blast dest: quiet_on_db [OF store_keeps(6)] quiet_exec [OF store_keeps(7)] intro: quiet_trans)+
next
  case (GetSystem p)
  then show ?thesis
    by (auto simp: get_system_handler_def split: prod.split sum.split dest: quiet_on_db [OF store_keeps(6)]
        intro!: quiet_with_id)
qed (use assms in simp_all)

text \<open>What a request leaves: no hook and the same servers, or a new server and its hook, or one server
  less and its hook.\<close>

lemma serve_effect:
  assumes "serve (hooked d) rq w = (rep, w')"
  shows "db_ok (hw_db w) \<longrightarrow> db_ok (hw_db w')"
    "(same_servers (hw_db w) (hw_db w') \<and> hw_created w' = hw_created w \<and> hw_deleted w' = hw_deleted w) \<or>
     (let i = next_server (hw_db w) in server_ids (hw_db w') = server_ids (hw_db w) @ [i] \<and>
        next_server (hw_db w') = i + 1 \<and> hw_created w' = hw_created w @ [i] \<and> hw_deleted w' = hw_deleted w) \<or>
     (\<exists>i \<in> set (server_ids (hw_db w)). server_ids (hw_db w') = filter (\<lambda>j. j \<noteq> i) (server_ids (hw_db w)) \<and>
        next_server (hw_db w') = next_server (hw_db w) \<and> hw_created w' = hw_created w \<and> hw_deleted w' = hw_deleted w @ [i])"
    (is ?effect)
proof -
  have "(db_ok (hw_db w) \<longrightarrow> db_ok (hw_db w')) \<and> ?effect"
  proof (cases "(\<forall>b. rq \<noteq> PostServers b) \<and> (\<forall>p. rq \<noteq> Api_Servers.DeleteServer p)")
    case True
    with quiet_serve [of rq w "hooked d"] assms show ?thesis by (simp add: quiet_def)
  next
    case False
    then consider b where "rq = PostServers b" | p where "rq = Api_Servers.DeleteServer p" by blast
    then show ?thesis
    proof cases
      case 1
      have op: "db_ok db \<Longrightarrow> db_ok (snd (create_server sql now inp db))" for sql now inp and db :: "'a db"
        using store_step_ok [of db sql "(now, CreateServer inp)"] by simp
      show ?thesis
      proof (cases b)
        case (Inl e)
        with assms 1 show ?thesis by (auto simp: create_handler_def)
      next
        case (Inr req)
        let ?op = "create_server (hd_sql (hooked d)) (hd_now (hooked d)) (create_input req)"
        obtain r db where c: "?op (hw_db w) = (r, db)" by (metis surj_pair)
        have ok: "db_ok (hw_db w) \<longrightarrow> db_ok db" using op [of "hw_db w"] c by (metis snd_conv)
        have "on_db ?op w = (r, w\<lparr>hw_db := db\<rparr>)" by (simp add: on_db_def c)
        with assms 1 create_effect [OF c] ok show ?thesis
          by (auto simp: create_handler_def Inr create_input_def Let_def hooked_def split: sum.splits if_splits)
      qed
    next
      case 2
      show ?thesis
      proof (cases "parse_int64 p")
        case (Inl e)
        with assms 2 show ?thesis by (auto simp: delete_handler_def with_id_def)
      next
        case (Inr i)
        obtain r db where c: "delete_server (hd_sql (hooked d)) i (hw_db w) = (r, db)" by (metis surj_pair)
        have ok: "db_ok (hw_db w) \<longrightarrow> db_ok db"
          using store_step_ok [of "hw_db w" "hd_sql (hooked d)" "(0, Storage.DeleteServer i)"] c by simp
        have "on_db (delete_server (hd_sql (hooked d)) i) w = (r, w\<lparr>hw_db := db\<rparr>)" by (simp add: on_db_def c)
        with assms 2 delete_effect [OF c] ok show ?thesis
          by (auto simp: delete_handler_def with_id_def Inr hooked_def split: sum.splits if_splits)
      qed
    qed
  qed
  then show "db_ok (hw_db w) \<longrightarrow> db_ok (hw_db w')" ?effect by blast+
qed

section \<open>What the background tasks do to them\<close>

lemma read_resume_same:
  "same_servers db (snd (read_resume sid fs acc db)) \<and> (db_ok db \<longrightarrow> db_ok (snd (read_resume sid fs acc db)))"
proof (induction fs arbitrary: acc db)
  case (Cons f fs)
  obtain r dbr where g: "get_log_cursor sid (fs_Path f) db = (r, dbr)" by (metis surj_pair)
  have "same_servers db dbr" "db_ok db \<longrightarrow> db_ok dbr"
    using store_keeps(5) [of sid "fs_Path f"] g unfolding keeps_ids_def by (metis snd_conv)+
  with Cons.IH [where db = dbr] show ?case
    by (auto simp: g split: sum.split intro: same_servers_trans)
qed simp

lemma launch_one_same:
  assumes "launch_one ctx sid fs (m, db) = (r, m', db')"
  shows "same_servers db db' \<and> (db_ok db \<longrightarrow> db_ok db')"
proof -
  obtain x dbr where g: "get_server sid db = (x, dbr)" by (metis surj_pair)
  have r: "same_servers db dbr" "db_ok db \<longrightarrow> db_ok dbr"
    using store_keeps(1) [of sid] g unfolding keeps_ids_def by (metis snd_conv)+
  have rr: "same_servers db (snd (read_resume sid fs [] dbr))" "db_ok db \<longrightarrow> db_ok (snd (read_resume sid fs [] dbr))"
    using read_resume_same [of dbr sid fs "[]"] r same_servers_trans by blast+
  with assms r show ?thesis
    by (auto simp: launch_one_def g Let_def split: if_splits sum.splits prod.splits option.splits)
qed

lemma launch_all_same:
  "launch_all ctx fs sids (m, db) = (r, m', db') \<Longrightarrow> same_servers db db' \<and> (db_ok db \<longrightarrow> db_ok db')"
proof (induction sids arbitrary: m db)
  case (Cons sid sids)
  obtain x m1 dbx where l: "launch_one ctx sid fs (m, db) = (x, m1, dbx)" by (metis prod_cases3)
  from launch_one_same [OF l] Cons show ?case
    by (cases x) (auto simp: l intro: same_servers_trans)
qed simp

lemma manager_start_same:
  "manager_start ctx (m, db) = (r, m', db') \<Longrightarrow> same_servers db db' \<and> (db_ok db \<longrightarrow> db_ok db')"
proof -
  assume st: "manager_start ctx (m, db) = (r, m', db')"
  obtain x dbr where g: "list_servers db = (x, dbr)" by (metis surj_pair)
  have r: "same_servers db dbr" "db_ok db \<longrightarrow> db_ok dbr"
    using store_keeps(2) g unfolding keeps_ids_def by (metis snd_conv)+
  show ?thesis
  proof (cases x)
    case (Inl e)
    with st r show ?thesis by (simp add: manager_start_def g)
  next
    case (Inr servers)
    obtain y m1 dbx where l: "launch_all ctx (file_specs (mg_cfg m)) (map sv_ID servers) (m, dbr) = (y, m1, dbx)"
      by (metis prod_cases3)
    from launch_all_same [OF l] r st show ?thesis
      by (auto simp: manager_start_def g Inr l Let_def split: outcome.splits if_splits intro: same_servers_trans)
  qed
qed

lemma run_task_same:
  fixes a :: "('f, 'e, 'c) app"
  shows "same_servers (hw_db (ap_api a)) (hw_db (ap_api (run_task env t a))) \<and>
    (db_ok (hw_db (ap_api a)) \<longrightarrow> db_ok (hw_db (ap_api (run_task env t a)))) \<and>
    ap_sched (run_task env t a) = ap_sched a \<and> ap_hooks (run_task env t a) = ap_hooks a"
proof (cases t)
  case (HotLaunch i)
  show ?thesis
  proof (cases "ap_mgr a")
    case (Some m)
    obtain r m1 dbx where l: "launch_server (ap_ctxs a) i (m, hw_db (ap_api a)) = (r, m1, dbx)" by (metis prod_cases3)
    from launch_one_same [OF l [unfolded launch_server_def]] show ?thesis
      by (simp add: HotLaunch hot_launch_def Some l)
  qed (simp add: HotLaunch hot_launch_def)
next
  case (Bootstrap i)
  have "quiet w (bootstrap_snapshot d i w)" for d :: "'e api_deps" and w :: "('f, 'e) api_world"
    by (auto simp: bootstrap_snapshot_def split: prod.split sum.split
        dest: quiet_on_db [OF store_keeps(1)] intro: quiet_trans quiet_snd [OF store_keeps(7)])
  then show ?thesis by (simp add: Bootstrap quiet_def)
qed

end
