(* ===== verification/App_Polling.thy ===== *)
theory App_Polling
  imports App
begin

text \<open>
  The composition of the API's hooks, the scheduler and the store: which servers are polled.
\<close>

section \<open>Polling\<close>

text \<open>The relation between the polled servers, the stored ones with the next identifier, and the
  pending hooks.\<close>

definition polls :: "bool \<Rightarrow> string \<Rightarrow> (int \<rightharpoonup> string \<times> int) \<Rightarrow> int set \<Rightarrow> int \<Rightarrow> hook list \<Rightarrow> bool" where
  "polls overlap spec polled ids next hooks \<longleftrightarrow>
     (\<forall>i p. polled i = Some p \<longrightarrow> p = (spec, i)) \<and>
     (\<forall>i \<in> ids. i \<in> dom polled \<or> Created i \<in> set hooks) \<and>
     (\<forall>i. Deleted i \<in> set hooks \<longrightarrow> i \<notin> ids \<and> i < next) \<and>
     (overlap \<or> length hooks \<le> 1 \<and> (\<forall>i. Created i \<in> set hooks \<longrightarrow> i \<in> ids) \<and>
        (\<forall>i \<in> dom polled. i \<in> ids \<or> Deleted i \<in> set hooks))"

lemma polls_create:
  "polls overlap spec polled ids n hooks \<Longrightarrow> overlap \<or> hooks = [] \<Longrightarrow> polls overlap spec polled (insert n ids) (n + 1) (hooks @ [Created n])"
  unfolding polls_def by (auto 0 3)

lemma polls_delete:
  "polls overlap spec polled ids n hooks \<Longrightarrow> overlap \<or> hooks = [] \<Longrightarrow> i < n \<Longrightarrow>
     polls overlap spec polled (ids - {i}) n (hooks @ [Deleted i])"
  unfolding polls_def by (auto 0 3)

lemma polls_created:
  assumes "polls overlap spec polled ids n (h1 @ Created i # h2)"
  shows "polls overlap spec (polled(i \<mapsto> (spec, i))) ids n (h1 @ h2)"
proof -
  have "(\<forall>k p. polled k = Some p \<longrightarrow> p = (spec, k)) \<and> (\<forall>k \<in> ids. k \<in> dom polled \<or> k = i \<or> Created k \<in> set (h1 @ h2)) \<and>
      (\<forall>k. Deleted k \<in> set (h1 @ h2) \<longrightarrow> k \<notin> ids \<and> k < n)"
    "overlap \<or> h1 = [] \<and> h2 = [] \<and> i \<in> ids \<and> dom polled \<subseteq> ids"
    using assms unfolding polls_def by auto
  then show ?thesis unfolding polls_def by auto
qed

lemma polls_deleted:
  assumes "polls overlap spec polled ids n (h1 @ Deleted i # h2)"
  shows "polls overlap spec (polled(i := None)) ids n (h1 @ h2)"
proof -
  have "(\<forall>k p. polled k = Some p \<longrightarrow> p = (spec, k)) \<and> (\<forall>k \<in> ids. k \<in> dom polled \<or> Created k \<in> set (h1 @ h2)) \<and> i \<notin> ids \<and>
      (\<forall>k. Deleted k \<in> set (h1 @ h2) \<longrightarrow> k \<notin> ids \<and> k < n)"
    "overlap \<or> h1 = [] \<and> h2 = [] \<and> dom polled \<subseteq> insert i ids"
    using assms unfolding polls_def by auto
  then show ?thesis unfolding polls_def by auto
qed

definition poll_inv :: "bool \<Rightarrow> ('f, 'e, 'c) app_env \<Rightarrow> ('f, 'e, 'c) app \<Rightarrow> bool" where
  "poll_inv overlap env a \<longleftrightarrow>
     registry_ok (ae_ops env) (ap_sched a) \<and> db_ok (hw_db (ap_api a)) \<and>
     polls overlap (poll_spec env) (scheduled (ae_ops env) (ap_sched a)) (set (server_ids (hw_db (ap_api a))))
       (next_server (hw_db (ap_api a))) (ap_hooks a)"

lemma poll_inv_same:
  "poll_inv overlap env a \<Longrightarrow> ap_sched a' = ap_sched a \<Longrightarrow> ap_hooks a' = ap_hooks a \<Longrightarrow>
     same_servers (hw_db (ap_api a)) (hw_db (ap_api a')) \<Longrightarrow> db_ok (hw_db (ap_api a')) \<Longrightarrow> poll_inv overlap env a'"
  by (simp add: poll_inv_def same_servers_def Let_def)

lemma poll_inv_ok: "poll_inv overlap env a \<Longrightarrow> db_ok (hw_db (ap_api a))"
  by (simp add: poll_inv_def Let_def)

lemma ids_below: "db_ok db \<Longrightarrow> i \<in> set (server_ids db) \<Longrightarrow> i < next_server db"
  by (auto simp: db_ok_def servers_ok_def server_ids_def)

lemma request_keeps_inv:
  assumes "poll_inv overlap env a" "overlap \<or> ap_hooks a = []"
  shows "poll_inv overlap env (snd (serve_app (env\<lparr>ae_deps := hooked d\<rparr>) rq a))"
proof -
  let ?w = "ap_api a"
  let ?db = "hw_db ?w"
  obtain rep w' where sv: "serve (hooked d) rq ?w = (rep, w')" by (metis surj_pair)
  have ok: "db_ok (hw_db w')" using serve_effect(1) [OF sv] poll_inv_ok [OF assms(1)] by blast
  note below = ids_below [OF poll_inv_ok [OF assms(1)]]
  note inv = assms(1) [unfolded poll_inv_def, THEN conjunct2, THEN conjunct2]
  have a': "snd (serve_app (env\<lparr>ae_deps := hooked d\<rparr>) rq a) = a\<lparr>ap_api := w',
      ap_hooks := ap_hooks a @ map Created (drop (length (hw_created ?w)) (hw_created w')) @
        map Deleted (drop (length (hw_deleted ?w)) (hw_deleted w'))\<rparr>"
    by (simp add: serve_app_def sv Let_def)
  from serve_effect(2) [OF sv] show ?thesis
  proof (elim disjE)
    assume "same_servers ?db (hw_db w') \<and> hw_created w' = hw_created ?w \<and> hw_deleted w' = hw_deleted ?w"
    with ok show ?thesis unfolding a' by (intro poll_inv_same [OF assms(1)]) simp_all
  next
    assume "let i = next_server ?db in server_ids (hw_db w') = server_ids ?db @ [i] \<and>
        next_server (hw_db w') = i + 1 \<and> hw_created w' = hw_created ?w @ [i] \<and> hw_deleted w' = hw_deleted ?w"
    with ok assms polls_create [OF inv assms(2)] show ?thesis unfolding a' poll_inv_def Let_def by simp
  next
    assume "\<exists>i \<in> set (server_ids ?db). server_ids (hw_db w') = filter (\<lambda>j. j \<noteq> i) (server_ids ?db) \<and>
        next_server (hw_db w') = next_server ?db \<and> hw_created w' = hw_created ?w \<and> hw_deleted w' = hw_deleted ?w @ [i]"
    then obtain i where i: "i \<in> set (server_ids ?db)" "server_ids (hw_db w') = filter (\<lambda>j. j \<noteq> i) (server_ids ?db)"
      "next_server (hw_db w') = next_server ?db" "hw_created w' = hw_created ?w" "hw_deleted w' = hw_deleted ?w @ [i]" by blast
    have "set (server_ids (hw_db w')) = set (server_ids ?db) - {i}" using i(2) by auto
    with ok assms i polls_delete [OF inv assms(2) below [OF i(1)]] show ?thesis unfolding a' poll_inv_def by simp
  qed
qed

lemma hook_keeps_inv:
  assumes "cron_laws (ae_ops env)" "parses (ae_ops env) (poll_spec env)" "poll_inv overlap env a"
    "ap_hooks a = h1 @ h # h2"
  shows "poll_inv overlap env (run_hook env h (a\<lparr>ap_hooks := h1 @ h2\<rparr>))"
proof -
  let ?s = "ap_sched a"
  have reg: "registry_ok (ae_ops env) ?s" using assms(3) by (simp add: poll_inv_def Let_def)
  show ?thesis
  proof (cases h)
    case (Created i)
    obtain r s where add: "add_keyed (ae_ops env) i (poll_spec env) i ?s = (r, s)" by (metis surj_pair)
    note spec = add_keyed_spec [OF assms(1) reg add]
    have fields: "ap_sched (run_hook env (Created i) (a\<lparr>ap_hooks := h1 @ h2\<rparr>)) = s"
      "ap_api (run_hook env (Created i) (a\<lparr>ap_hooks := h1 @ h2\<rparr>)) = ap_api a"
      "ap_hooks (run_hook env (Created i) (a\<lparr>ap_hooks := h1 @ h2\<rparr>)) = h1 @ h2"
      by (simp_all add: Created on_server_created_def add split: sum.split)
    have sch: "scheduled (ae_ops env) s = (scheduled (ae_ops env) ?s)(i \<mapsto> (poll_spec env, i))" "registry_ok (ae_ops env) s"
      using spec assms(2) by simp_all
    from sch assms(3) polls_created [of overlap "poll_spec env" _ _ _ h1 i h2] show ?thesis
      unfolding poll_inv_def assms(4) Created fields by simp
  next
    case (Deleted i)
    note spec = remove_keyed_spec [OF assms(1) reg, of i]
    have fields: "ap_sched (run_hook env (Deleted i) (a\<lparr>ap_hooks := h1 @ h2\<rparr>)) = remove_keyed (ae_ops env) i ?s"
      "ap_api (run_hook env (Deleted i) (a\<lparr>ap_hooks := h1 @ h2\<rparr>)) = ap_api a"
      "ap_hooks (run_hook env (Deleted i) (a\<lparr>ap_hooks := h1 @ h2\<rparr>)) = h1 @ h2"
      by (simp_all add: Deleted on_server_deleted_def)
    from spec assms(3) polls_deleted [of overlap "poll_spec env" _ _ _ h1 i h2] show ?thesis
      unfolding poll_inv_def assms(4) Deleted fields by simp
  qed
qed

lemma registry_flags:
  "registry_ok ops (stop_begin s) = registry_ok ops s" "scheduled ops (stop_begin s) = scheduled ops s"
  "registry_ok ops (scheduler_start s) = registry_ok ops s" "scheduled ops (scheduler_start s) = scheduled ops s"
  by (simp_all add: registry_ok_def scheduled_def [abs_def] stop_begin_def scheduler_start_def)

lemma step_keeps_inv:
  assumes "cron_laws (ae_ops env)" "parses (ae_ops env) (poll_spec env)"
  shows "app_step overlap env a a' \<Longrightarrow> poll_inv overlap env a \<Longrightarrow> poll_inv overlap env a'"
proof (induction rule: app_step.induct)
  case (Request a d rq)
  then show ?case using request_keeps_inv by blast
next
  case (Hook a h1 h h2)
  then show ?case using hook_keeps_inv [OF assms] by blast
next
  case (Background a t1 t t2 d)
  let ?b = "a\<lparr>ap_tasks := t1 @ t2\<rparr>"
  from run_task_same [of ?b "env\<lparr>ae_deps := d\<rparr>" t] Background poll_inv_ok [OF Background(2)] show ?case
    by (intro poll_inv_same [OF Background(2)]) simp_all
next
  case (Store op a sql now)
  then show ?case
    by (intro poll_inv_same [OF Store(2)]) (simp_all add: background_same store_step_ok poll_inv_ok)
next
  case (Shutdown a order wind)
  then show ?case by (simp add: poll_inv_def shutdown_def registry_flags Let_def)
qed

text \<open>Boot establishes it.\<close>

lemma schedule_all_spec:
  assumes "cron_laws ops"
  shows "registry_ok ops s \<Longrightarrow> schedule_all ops spec is s = (r, s') \<Longrightarrow> is_ok r \<Longrightarrow>
    registry_ok ops s' \<and> scheduled ops s' = (\<lambda>k. if k \<in> set is then Some (spec, k) else scheduled ops s k)"
proof (induction "is" arbitrary: s)
  case Nil
  then show ?case by auto
next
  case (Cons i "is")
  obtain x s1 where add: "add_keyed ops i spec i s = (x, s1)" by (metis surj_pair)
  note spec = add_keyed_spec [OF assms Cons.prems(1) add]
  show ?case
  proof (cases x)
    case (Inl e)
    with Cons.prems(2,3) show ?thesis by (auto simp: add)
  next
    case (Inr u)
    with Cons.prems(2) have "schedule_all ops spec is s1 = (r, s')" by (simp add: add)
    from Cons.IH [OF _ this Cons.prems(3)] spec Inr show ?thesis by (auto simp: fun_eq_iff)
  qed
qed

lemma list_servers_ids:
  assumes "list_servers db = (Inr servers, db')"
  shows "map sv_ID servers = server_ids db" "same_servers db db' \<and> (db_ok db \<longrightarrow> db_ok db')"
proof -
  from driver_result [OF assms [unfolded list_servers_def]] show "map sv_ID servers = server_ids db"
    by (auto simp: server_ids_def ent_to_server_def)
  show "same_servers db db' \<and> (db_ok db \<longrightarrow> db_ok db')"
    using store_keeps(2) assms unfolding keeps_ids_def by (metis snd_conv)
qed

lemma boot_polls:
  assumes "cron_laws (ae_ops env)" "cr_table (ae_ops env) c0 = Map.empty" "db_ok (hw_db w)"
    "boot env c0 w = Returned (Inr a)"
  shows "poll_inv overlap env a"
proof -
  let ?ops = "ae_ops env"
  let ?c = "ae_cfg env"
  let ?sched = "new_scheduler (cd_MaxParallel (c_Scheduler ?c)) (seconds (cd_PerJobTimeoutSeconds (c_Scheduler ?c))) c0"
  note new = new_scheduler_registry [of ?ops c0 "cd_MaxParallel (c_Scheduler ?c)"
      "seconds (cd_PerJobTimeoutSeconds (c_Scheduler ?c))", OF assms(2)]
  obtain x db s where reg: "register_scheduled_pulls ?ops (cd_DefaultIntervalSeconds (c_Scheduler ?c)) (hw_db w, ?sched) = (x, db, s)"
    by (metis prod_cases3)
  then have x: "is_ok x" using assms(4) by (cases x) (simp_all add: boot_def Let_def)
  obtain y dbr where ls: "list_servers (hw_db w) = (y, dbr)" by (metis surj_pair)
  from reg x obtain servers where y: "y = Inr servers" by (cases y) (auto simp: register_scheduled_pulls_def ls)
  note ids = list_servers_ids [OF ls [unfolded y]]
  from reg have sa: "schedule_all ?ops (poll_spec env) (server_ids (hw_db w)) ?sched = (x, s)" "db = dbr"
    by (auto simp: register_scheduled_pulls_def ls y poll_spec_def ids(1) split: prod.splits)
  from schedule_all_spec [OF assms(1) conjunct1 [OF new] sa(1) x] new
  have s: "registry_ok ?ops s" "scheduled ?ops s = (\<lambda>k. if k \<in> set (server_ids (hw_db w)) then Some (poll_spec env, k) else None)"
    by auto
  have "ap_sched a = scheduler_start s \<and> ap_hooks a = [] \<and> same_servers (hw_db w) (hw_db (ap_api a)) \<and> db_ok (hw_db (ap_api a))"
  proof -
    obtain al where al: "new_service (alerts_of ?c) (cm_VMURL (c_Metrics ?c)) (ae_build env) = Inr al"
      using assms(4) reg x by (auto simp: boot_def Let_def split: sum.splits)
    obtain mo where mo: "new_manager (streaming_of ?c) = Inr mo"
      using assms(4) reg x al by (auto simp: boot_def Let_def split: sum.splits)
    show ?thesis
    proof (cases mo)
      case None
      with assms(3,4) reg x al mo ids(2) sa(2) show ?thesis by (auto simp: boot_def Let_def split: sum.splits)
    next
      case (Some m)
      obtain r m1 dbs where ms: "manager_start 0 (m, db) = (r, m1, dbs)" by (metis prod_cases3)
      from manager_start_same [OF ms] ids(2) sa(2) assms(3)
      have "same_servers (hw_db w) dbs" "db_ok dbs" using same_servers_trans by blast+
      with assms(4) reg x al mo Some ms show ?thesis
        by (auto simp: boot_def Let_def split: sum.splits outcome.splits)
    qed
  qed
  with s show ?thesis by (auto simp: poll_inv_def polls_def registry_flags same_servers_def split: if_splits)
qed

text \<open>
  C4. Polling follows the store. From a successful boot, whatever requests, hooks, background tasks, store
  operations and shutdown do in whatever order, every job in the cron table is the pull of its own
  server, and every server in the store is polled unless its creation hook is still to run. When
  a request waits for the hook of the last one, then once no hook is pending the polled servers are exactly those of the
  store.
\<close>

theorem polled_servers:
  assumes "cron_laws (ae_ops env)" "parses (ae_ops env) (poll_spec env)" "cr_table (ae_ops env) c0 = Map.empty"
    "db_ok (hw_db w)" "boot env c0 w = Returned (Inr a0)" "(app_step overlap env)\<^sup>*\<^sup>* a0 a"
  shows "let polled = scheduled (ae_ops env) (ap_sched a); ids = set (server_ids (hw_db (ap_api a))) in
    (\<forall>i p. polled i = Some p \<longrightarrow> p = (poll_spec env, i)) \<and>
    (\<forall>i \<in> ids. Created i \<notin> set (ap_hooks a) \<longrightarrow> polled i \<noteq> None) \<and>
    (\<not> overlap \<and> ap_hooks a = [] \<longrightarrow> dom polled = ids)"
proof -
  have "poll_inv overlap env a"
    using assms(6) boot_polls [OF assms(1,3-5)] by (induction rule: rtranclp_induct) (auto intro: step_keeps_inv [OF assms(1,2)])
  then show ?thesis by (auto simp: poll_inv_def polls_def Let_def)
qed

section \<open>Two requests at once\<close>

lemma create_server_keeps:
  assumes "db_faults db = []" "create_server sql now inp db = (r, db')"
  shows "db_cursors db' = db_cursors db" "db_snapshots db' = db_snapshots db" "db_faults db' = []"
  using assms by (auto simp: create_server_def server_create_save_def Let_def split: prod.splits sum.splits option.splits if_splits)

lemma create_request:
  assumes "healthy (hw_db (ap_api a))" "contains (sql_unique_msg (hd_sql d) ''servers.hostname'') ''hostname''"
    "valid_new_server (create_input req)" "\<not> hostname_taken (hw_db (ap_api a)) (cq_Hostname req)"
    "next_server (hw_db (ap_api a)) = n"
  shows "\<exists>db'. snd (serve_app (env\<lparr>ae_deps := hooked d\<rparr>) (PostServers (Inr req)) a) =
      a\<lparr>ap_api := (ap_api a)\<lparr>hw_db := db', hw_created := hw_created (ap_api a) @ [n]\<rparr>, ap_hooks := ap_hooks a @ [Created n]\<rparr> \<and>
    healthy db' \<and> server_ids db' = server_ids (hw_db (ap_api a)) @ [n] \<and>
    (\<forall>c \<in> set (db_cursors db'). ec_Server c \<noteq> n) \<and> (\<forall>s \<in> set (db_snapshots db'). en_Server s \<noteq> n)"
proof -
  let ?w = "ap_api a"
  have sql: "contains (sql_unique_msg (hd_sql (hooked d)) ''servers.hostname'') ''hostname''"
    using assms(2) by (simp add: hooked_def)
  have hk: "hd_created_hook (hooked d)" by (simp add: hooked_def)
  from create_handler_cases [OF assms(1) sql, of req] assms(3,4) obtain s db' where
    made: "create_handler (hooked d) (Inr req) ?w = (write_json 201 (ServerBody (to_dto s)),
        ?w\<lparr>hw_db := db', hw_created := hw_created ?w @ (if hd_created_hook (hooked d) then [sv_ID s] else [])\<rparr>)"
      "create_server (hd_sql (hooked d)) (hd_now (hooked d)) (create_input req) (hw_db ?w) = (Inr s, db')" by blast
  have n: "sv_ID s = n" "server_ids db' = server_ids (hw_db ?w) @ [n]" using create_effect [OF made(2)] assms(5) by simp_all
  have db: "db_ok (hw_db ?w)" "db_faults (hw_db ?w) = []" using assms(1) by (simp_all add: healthy_def)
  note keeps = create_server_keeps [OF db(2) made(2)]
  have "db_ok db'"
    using store_step_ok [OF db(1), of "hd_sql (hooked d)" "(hd_now (hooked d), CreateServer (create_input req))"] made(2) by simp
  then have "healthy db'" using keeps by (simp add: healthy_def)
  moreover have "(\<forall>c \<in> set (db_cursors db'). ec_Server c \<noteq> n) \<and> (\<forall>s \<in> set (db_snapshots db'). en_Server s \<noteq> n)"
    using db(1) assms(5) unfolding keeps by (fastforce simp: db_ok_def servers_ok_def cursors_ok_def snapshots_ok_def)
  moreover have "snd (serve_app (env\<lparr>ae_deps := hooked d\<rparr>) (PostServers (Inr req)) a) =
      a\<lparr>ap_api := ?w\<lparr>hw_db := db', hw_created := hw_created ?w @ [n]\<rparr>, ap_hooks := ap_hooks a @ [Created n]\<rparr>"
    using hk by (simp add: serve_app_def made(1) Let_def n(1))
  ultimately show ?thesis using n(2) by blast
qed

lemma delete_request:
  assumes "healthy (hw_db (ap_api a))" "n \<in> set (server_ids (hw_db (ap_api a)))" "is_int64 n"
    "\<forall>c \<in> set (db_cursors (hw_db (ap_api a))). ec_Server c \<noteq> n"
    "\<forall>s \<in> set (db_snapshots (hw_db (ap_api a))). en_Server s \<noteq> n"
  shows "\<exists>db'. snd (serve_app (env\<lparr>ae_deps := hooked d\<rparr>) (Api_Servers.DeleteServer (format_int n)) a) =
      a\<lparr>ap_api := (ap_api a)\<lparr>hw_db := db', hw_deleted := hw_deleted (ap_api a) @ [n]\<rparr>, ap_hooks := ap_hooks a @ [Deleted n]\<rparr> \<and>
    n \<notin> set (server_ids db')"
proof -
  let ?w = "ap_api a"
  have "\<exists>r \<in> set (db_servers (hw_db ?w)). es_ID r = n" using assms(2) by (auto simp: server_ids_def)
  with assms(1,4,5) have "delete_server (hd_sql (hooked d)) n (hw_db ?w) =
      (Inr (), (hw_db ?w)\<lparr>db_servers := filter (\<lambda>r. es_ID r \<noteq> n) (db_servers (hw_db ?w))\<rparr>)"
    by (subst delete_server_effect) (auto simp: healthy_def)
  then have del: "on_db (delete_server (hd_sql (hooked d)) n) ?w =
      (Inr (), ?w\<lparr>hw_db := (hw_db ?w)\<lparr>db_servers := filter (\<lambda>r. es_ID r \<noteq> n) (db_servers (hw_db ?w))\<rparr>\<rparr>)"
    by (simp add: on_db_def)
  have hk: "hd_deleted_hook (hooked d)" by (simp add: hooked_def)
  show ?thesis
    by (intro exI [of _ "(hw_db ?w)\<lparr>db_servers := filter (\<lambda>r. es_ID r \<noteq> n) (db_servers (hw_db ?w))\<rparr>"])
      (auto simp: serve_app_def delete_handler_def del hk assms(3) Let_def server_ids_def)
qed

text \<open>
  C12. A server can be deleted while its creation is still being answered: from any boot on a healthy store,
  the request that creates it and the one that deletes it may run their hooks in the order
  deletion, creation. No hook is pending then, the server is gone from the store, and its
  pull stays scheduled.
\<close>

theorem deleted_server_polled:
  assumes "cron_laws (ae_ops env)" "parses (ae_ops env) (poll_spec env)" "cr_table (ae_ops env) c0 = Map.empty"
    "db_ok (hw_db w)" "boot env c0 w = Returned (Inr a)" "healthy (hw_db (ap_api a))"
    "valid_new_server (create_input req)" "\<not> hostname_taken (hw_db (ap_api a)) (cq_Hostname req)"
    "next_server (hw_db (ap_api a)) = n" "is_int64 n"
  shows "\<exists>a'. (app_step True env)\<^sup>*\<^sup>* a a' \<and> ap_hooks a' = [] \<and>
    n \<notin> set (server_ids (hw_db (ap_api a'))) \<and> scheduled (ae_ops env) (ap_sched a') n = Some (poll_spec env, n)"
proof -
  define d where "d = (ae_deps env)\<lparr>hd_sql := msg_env\<rparr>"
  have sql: "contains (sql_unique_msg (hd_sql d) ''servers.hostname'') ''hostname''" by (simp add: d_def msg_env_hostname)
  have inv: "poll_inv False env a" by (rule boot_polls [OF assms(1,3,4,5)])
  have hooks: "ap_hooks a = []" and reg: "registry_ok (ae_ops env) (ap_sched a)"
    using assms(5) inv by (auto simp: boot_def poll_inv_def Let_def split: prod.splits sum.splits option.splits outcome.splits)
  obtain b where b: "b = snd (serve_app (env\<lparr>ae_deps := hooked d\<rparr>) (PostServers (Inr req)) a)" by blast
  from create_request [OF assms(6) sql assms(7-9), where env = env] hooks
  have b_facts: "healthy (hw_db (ap_api b))" "n \<in> set (server_ids (hw_db (ap_api b)))" "ap_hooks b = [Created n]" "ap_sched b = ap_sched a"
    "\<forall>c \<in> set (db_cursors (hw_db (ap_api b))). ec_Server c \<noteq> n" "\<forall>s \<in> set (db_snapshots (hw_db (ap_api b))). en_Server s \<noteq> n"
    unfolding b by auto
  obtain c where c: "c = snd (serve_app (env\<lparr>ae_deps := hooked d\<rparr>) (Api_Servers.DeleteServer (format_int n)) b)" by blast
  from delete_request [OF b_facts(1,2) assms(10) b_facts(5,6), where env = env and d = d] b_facts
  have c_facts: "n \<notin> set (server_ids (hw_db (ap_api c)))" "ap_hooks c = [Created n] @ Deleted n # []" "ap_sched c = ap_sched a"
    unfolding c by auto
  obtain e where e: "e = run_hook env (Deleted n) (c\<lparr>ap_hooks := [Created n] @ []\<rparr>)" by blast
  have e_facts: "ap_hooks e = [] @ Created n # []" "ap_sched e = remove_keyed (ae_ops env) n (ap_sched a)"
    "hw_db (ap_api e) = hw_db (ap_api c)" by (simp_all add: e on_server_deleted_def c_facts)
  have "registry_ok (ae_ops env) (ap_sched e)" using remove_keyed_spec [OF assms(1) reg] e_facts(2) by simp
  moreover obtain r s where add: "add_keyed (ae_ops env) n (poll_spec env) n (ap_sched e) = (r, s)" by (metis surj_pair)
  ultimately have sch: "scheduled (ae_ops env) s n = Some (poll_spec env, n)"
    using add_keyed_spec [OF assms(1) _ add] assms(2) by simp
  obtain g where g: "g = run_hook env (Created n) (e\<lparr>ap_hooks := [] @ []\<rparr>)" by blast
  have g_facts: "ap_hooks g = []" "ap_sched g = s" "hw_db (ap_api g) = hw_db (ap_api e)"
    by (simp_all add: g on_server_created_def add split: sum.split)
  have "app_step True env a b" unfolding b by (rule app_step.Request) simp
  moreover have "app_step True env b c" unfolding c by (rule app_step.Request) simp
  moreover have "app_step True env c e" unfolding e by (rule app_step.Hook [OF c_facts(2)])
  moreover have "app_step True env e g" unfolding g by (rule app_step.Hook [OF e_facts(1)])
  ultimately have "(app_step True env)\<^sup>*\<^sup>* a g" by (meson converse_rtranclp_into_rtranclp rtranclp.rtrancl_refl)
  with g_facts c_facts(1) e_facts(3) sch show ?thesis by auto
qed

section \<open>An example\<close>

text \<open>The configuration with every default.\<close>

definition boot_config :: config where
  "boot_config =
     \<lparr>c_Server = \<lparr>cs_ListenAddr = '':8080'', cs_ReadTimeoutSeconds = 15, cs_WriteTimeoutSeconds = 15\<rparr>,
      c_DatabasePath = ''./data/monitor.db'',
      c_SSH = \<lparr>ch_DialTimeoutSeconds = 10, ch_CommandTimeoutSeconds = 30, ch_MaxConnectionsPerHost = 2\<rparr>,
      c_Log = \<lparr>cl_Level = ''info'', cl_Format = ''json''\<rparr>,
      c_Metrics = \<lparr>cm_VMURL = ''http://127.0.0.1:8428'', cm_PushTimeoutSeconds = 5, cm_QueryTimeoutSeconds = 15\<rparr>,
      c_Logs = \<lparr>cg_LokiURL = ''http://127.0.0.1:3100'', cg_PushTimeoutSeconds = 5, cg_QueryTimeoutSeconds = 15\<rparr>,
      c_Scheduler = \<lparr>cd_DefaultIntervalSeconds = 900, cd_MaxParallel = 10, cd_PerJobTimeoutSeconds = 30\<rparr>,
      c_Auth = \<lparr>ca_Password = [], ca_Realm = ''frappe-monitor''\<rparr>,
      c_Alerts = \<lparr>ce_Enabled = False, ce_EvaluationIntervalSeconds = 60, ce_NotifyRepeatSeconds = 3600,
        ce_VMQueryTimeoutSeconds = 10,
        ce_Telegram = \<lparr>ct_BotToken = [], ct_ChatIDs = [], ct_SendTimeoutSeconds = 5\<rparr>,
        ce_Rules = [], ce_DisableDefaults = False\<rparr>,
      c_Streaming = \<lparr>ck_Enabled = False, ck_MonitorID = [], ck_ScriptPath = [], ck_Files = [],
        ck_FlushIntervalSeconds = 1, ck_MaxBatchLines = 500, ck_PushTimeoutSeconds = 10,
        ck_MinBackoffSeconds = 1, ck_MaxBackoffSeconds = 60\<rparr>\<rparr>"

definition app_env_example :: "(int, unit, nat \<times> (nat \<times> string \<times> int) list) app_env" where
  "app_env_example =
     \<lparr>ae_cfg = boot_config, ae_deps = deps_example, ae_ops = cron_example,
      ae_build = (\<lambda>vm chats rules repeat. disk_evaluator repeat)\<rparr>"

definition boot_world :: "(int, unit) api_world" where
  "boot_world = \<lparr>hw_db = empty_db, hw_exec = (), hw_created = [], hw_deleted = []\<rparr>"

lemma boot_example: "\<exists>a. boot app_env_example (0, []) boot_world = Returned (Inr a) \<and> hw_db (ap_api a) = empty_db \<and> ap_hooks a = []"
proof -
  have ls: "list_servers (empty_db :: int db) = (Inr [], empty_db)" by (simp add: list_servers_def driver_def empty_db_def)
  have al: "new_service (alerts_of boot_config) v b = Inr None" for v and b :: "http_vm_client \<Rightarrow> telegram_client list \<Rightarrow> rule list \<Rightarrow> duration \<Rightarrow> int evaluator"
    by (simp add: new_service_def alerts_config_validate_def alerts_of_def boot_config_def Let_def)
  have mg: "new_manager (streaming_of boot_config) = Inr None"
    by (simp add: new_manager_def stream_config_validate_def streaming_of_def boot_config_def Let_def)
  show ?thesis
    by (simp add: boot_def Let_def app_env_example_def register_scheduled_pulls_def boot_world_def ls al mg)
qed

lemma example_laws:
  "cron_laws (ae_ops app_env_example)" "parses (ae_ops app_env_example) (poll_spec app_env_example)"
  "cr_table (ae_ops app_env_example) (0, []) = Map.empty" "db_ok (hw_db boot_world)"
  "valid_new_server (create_input req_example)" "healthy (empty_db :: int db)"
  "\<not> hostname_taken (empty_db :: int db) (cq_Hostname req_example)" "next_server (empty_db :: int db) = 1" "is_int64 1"
  by (simp_all add: app_env_example_def cron_example_laws boot_world_def db_ok_empty valid_new_server_def create_input_def
      req_example_def healthy_def empty_db_def hostname_taken_def next_server_def is_int64_def)
    (use db_ok_empty in \<open>auto simp: cron_example_def poll_spec_def schedule_spec_def empty_db_def\<close>)

theorem polled_servers_witness:
  "\<exists>a0 a. boot app_env_example (0, []) boot_world = Returned (Inr a0) \<and> (app_step False app_env_example)\<^sup>*\<^sup>* a0 a \<and>
     dom (scheduled cron_example (ap_sched a)) = {1}"
proof -
  obtain a0 where a0: "boot app_env_example (0, []) boot_world = Returned (Inr a0)" "hw_db (ap_api a0) = empty_db" "ap_hooks a0 = []"
    using boot_example by blast
  define d where "d = deps_example"
  have sql: "contains (sql_unique_msg (hd_sql d) ''servers.hostname'') ''hostname''"
    by (simp add: d_def deps_example_def msg_env_hostname)
  obtain b where b: "b = snd (serve_app (app_env_example\<lparr>ae_deps := hooked d\<rparr>) (PostServers (Inr req_example)) a0)" by blast
  from create_request [of a0 d req_example 1, where env = app_env_example] sql example_laws a0
  have b_facts: "set (server_ids (hw_db (ap_api b))) = {1}" "ap_hooks b = [] @ Created 1 # []"
    unfolding b by (auto simp: server_ids_def empty_db_def)
  obtain e where e: "e = run_hook app_env_example (Created 1) (b\<lparr>ap_hooks := [] @ []\<rparr>)" by blast
  have e_facts: "ap_hooks e = []" "set (server_ids (hw_db (ap_api e))) = {1}"
    using b_facts by (simp_all add: e on_server_created_def split: prod.split sum.split)
  have "app_step False app_env_example a0 b" unfolding b by (rule app_step.Request) (simp add: a0)
  moreover have "app_step False app_env_example b e" unfolding e by (rule app_step.Hook [OF b_facts(2)])
  ultimately have steps: "(app_step False app_env_example)\<^sup>*\<^sup>* a0 e" by (meson converse_rtranclp_into_rtranclp rtranclp.rtrancl_refl)
  from polled_servers [OF example_laws(1-4) a0(1) steps] e_facts
  have "dom (scheduled cron_example (ap_sched e)) = {1}" by (simp add: Let_def app_env_example_def)
  with a0(1) steps show ?thesis by blast
qed

theorem deleted_server_polled_witness:
  "\<exists>a0 a. boot app_env_example (0, []) boot_world = Returned (Inr a0) \<and> (app_step True app_env_example)\<^sup>*\<^sup>* a0 a \<and>
     ap_hooks a = [] \<and> 1 \<notin> set (server_ids (hw_db (ap_api a))) \<and> scheduled cron_example (ap_sched a) 1 \<noteq> None"
proof -
  obtain a0 where a0: "boot app_env_example (0, []) boot_world = Returned (Inr a0)" "hw_db (ap_api a0) = empty_db"
    using boot_example by blast
  from deleted_server_polled [OF example_laws(1-4) a0(1), of req_example 1] example_laws a0
  show ?thesis by (auto simp: app_env_example_def)
qed

end
