(* ===== verification/App_Launch.thy ===== *)
theory App_Launch
  imports App_Polling
begin

text \<open>
  What a boot can end with, and what the background launch of a created server's stream leaves.
\<close>

section \<open>Boot\<close>

lemma schedule_all_ok:
  assumes "cron_laws ops" "parses ops spec"
  shows "registry_ok ops s \<Longrightarrow> is_ok (fst (schedule_all ops spec is s))"
proof (induction "is" arbitrary: s)
  case (Cons i "is")
  obtain r s1 where add: "add_keyed ops i spec i s = (r, s1)" by (metis surj_pair)
  from add_keyed_spec [OF assms(1) Cons.prems add] assms(2) Cons.IH [of s1] show ?case
    by (cases r) (simp_all add: add)
qed simp

lemma seconds_in_range: "1 \<le> n \<Longrightarrow> n \<le> 9223372036 \<Longrightarrow> seconds n = n * second"
  by (simp add: seconds_def wrap64_id is_int64_def)

lemma new_service_ok:
  "alerts_config_validate cfg = Inr u \<Longrightarrow> \<exists>s. new_service cfg v b = Inr s \<and> (s \<noteq> None \<longleftrightarrow> ac_Enabled cfg)"
  by (simp add: new_service_def Let_def)

lemma new_manager_cases:
  "stream_config_validate c = Some e \<Longrightarrow> new_manager c = Inl e"
  "stream_config_validate c = None \<Longrightarrow>
     (if tc_Enabled c then \<exists>m. new_manager c = Inr (Some m) \<and> mg_sessions m \<noteq> None \<and> mg_cfg m = c else new_manager c = Inr None)"
  by (auto simp: new_manager_def)

lemma manager_start_healthy:
  assumes "healthy db" "mg_sessions m \<noteq> None"
  shows "\<exists>m' db'. manager_start ctx (m, db) =
    (if seconds (tc_FlushIntervalSeconds (mg_cfg m)) \<le> 0
     then (Panicked ''non-positive interval for NewTicker'', m', db') else (Returned (Inr ()), m', db'))"
proof -
  have ls: "list_servers db = (Inr (map ent_to_server (db_servers db)), db)"
    using assms(1) by (simp add: list_servers_def healthy_def)
  from launch_all_no_panic [OF assms(2), of ctx "file_specs (mg_cfg m)" "map sv_ID (map ent_to_server (db_servers db))" db]
  obtain m1 dbx where "launch_all ctx (file_specs (mg_cfg m)) (map sv_ID (map ent_to_server (db_servers db))) (m, db) =
      (Returned (), m1, dbx)" "mg_cfg m1 = mg_cfg m" by blast
  then show ?thesis by (auto simp: manager_start_def ls Let_def)
qed


definition streaming_boot :: "int \<Rightarrow> config" where
  "streaming_boot n = boot_config\<lparr>c_Streaming := \<lparr>ck_Enabled = True, ck_MonitorID = ''m'', ck_ScriptPath = ''s'',
     ck_Files = [\<lparr>cf_ID = ''web'', cf_Path = ''/l''\<rparr>], ck_FlushIntervalSeconds = n, ck_MaxBatchLines = 500,
     ck_PushTimeoutSeconds = 10, ck_MinBackoffSeconds = 1, ck_MaxBackoffSeconds = 60\<rparr>\<rparr>"

lemma streaming_boot_valid:
  "1 \<le> n \<Longrightarrow> config_validate (streaming_boot n) = None"
  "is_ok (alerts_config_validate (alerts_of (streaming_boot n)))"
  "stream_config_validate (streaming_of (streaming_boot n)) = None"
  "ck_Enabled (c_Streaming (streaming_boot n))" "ck_FlushIntervalSeconds (c_Streaming (streaming_boot n)) = n"
  by (simp_all add: config_validate_iff config_ok_def streaming_boot_def boot_config_def alerts_config_validate_def
      alerts_of_def streaming_of_def stream_config_validate_def Let_def trim_space_id space_edge_def)


section \<open>The background launch\<close>

lemma launch_one_new:
  assumes "launch_one ctx i fs (m, db) = (Returned (Inr ()), m', db')" "map_of (session_map m) i = None"
  shows "\<exists>cfg ss. m' = (start_session ctx cfg m)\<lparr>mg_sessions := Some (map_put ss i (length (mg_started m)))\<rparr>"
  using assms by (auto simp: launch_one_def Let_def split: prod.splits sum.splits option.splits)

lemma session_loop_ends: "at_stopped at \<or> at_woken at \<Longrightarrow> snd (snd (session_loop c b (as @ [at])))"
proof (induction as arbitrary: b)
  case Nil
  then show ?case by (auto simp: Let_def split: prod.split)
next
  case (Cons x as)
  then show ?case by (auto simp: Let_def split: prod.split) (metis snd_conv)+
qed

text \<open>
  C5. The stream of a server that is added while the program runs does not stay up. The background launch
  gives the session a context of its own and cancels it as it returns: the session it has just
  registered runs under a cancelled context, so it ends at whatever attempt or pause first sees
  that, whatever would have followed; it was not told to stop and stays in the map, so every later
  launch of the server is taken for done and starts nothing.
\<close>

theorem hot_launch_dies:
  fixes a :: "('f, 'e, 'c) app"
  assumes "ap_mgr a = Some m" "map_of (session_map m) i = None" "hot_launch i a = (Some (Returned (Inr ())), a')"
  shows "\<exists>m' s. ap_mgr a' = Some m' \<and> mg_started m' = mg_started m @ [s] \<and>
    map_of (session_map m') i = Some (length (mg_started m)) \<and> ss_ctx s \<in> set (ap_cancelled a') \<and> \<not> ss_stopped s \<and>
    (\<forall>at as as'. at_stopped at \<or> at_woken at \<longrightarrow>
       session_run (ss_cfg s) (as @ at # as') = session_run (ss_cfg s) (as @ [at]) \<and>
       snd (snd (session_run (ss_cfg s) (as @ [at])))) \<and>
    (\<forall>ctx (db :: 'f db). launch_server ctx i (m', db) = (Returned (Inr ()), m', db))"
proof -
  obtain r m' db where l: "launch_server (ap_ctxs a) i (m, hw_db (ap_api a)) = (r, m', db)" by (metis prod_cases3)
  with assms(1,3) have r: "r = Returned (Inr ())"
    and a': "ap_mgr a' = Some m'" "ap_cancelled a' = ap_ctxs a # ap_cancelled a" by (auto simp: hot_launch_def)
  from launch_one_new [OF l [unfolded launch_server_def r] assms(2)] obtain cfg ss where
    m': "m' = (start_session (ap_ctxs a) cfg m)\<lparr>mg_sessions := Some (map_put ss i (length (mg_started m)))\<rparr>" by blast
  let ?s = "\<lparr>ss_cfg = new_session_config cfg, ss_ctx = ap_ctxs a, ss_stopped = False\<rparr>"
  have known: "map_of (session_map m') i = Some (length (mg_started m))" by (simp add: m' session_map_def)
  have started: "mg_started m' = mg_started m @ [?s]" by (simp add: m' start_session_def)
  have again: "launch_server ctx i (m', db) = (Returned (Inr ()), m', db)" for ctx and db :: "'f db"
    by (simp add: launch_server_def launch_one_def known)
  have ends: "session_run (ss_cfg ?s) (as @ at # as') = session_run (ss_cfg ?s) (as @ [at]) \<and>
       snd (snd (session_run (ss_cfg ?s) (as @ [at])))" if "at_stopped at \<or> at_woken at" for at as as'
    using session_loop_exit [OF that] session_loop_ends [OF that] by (simp add: session_run_def Let_def)
  have ctx: "ss_ctx ?s \<in> set (ap_cancelled a')" "\<not> ss_stopped ?s" by (simp_all add: a')
  show ?thesis
    by (rule exI [of _ m'], rule exI [of _ ?s]) (intro conjI allI impI, (rule a' started known ctx again ends | erule ends [THEN conjunct1] ends [THEN conjunct2])+)
qed

lemma launch_one_ctx: "fst (launch_one ctx i fs md) = fst (launch_one ctx' i fs md)"
  by (simp add: launch_one_def Let_def split: prod.split sum.split option.split)

text \<open>A running program with a stream manager and the server of \<^term>\<open>db1\<close>.\<close>

definition streaming_app :: "(unit, unit, unit) app" where
  "streaming_app = \<lparr>ap_api = api_world_example db1, ap_sched = new_scheduler 1 second (), ap_alerts = None,
     ap_mgr = Some manager_example, ap_hooks = [], ap_tasks = [HotLaunch 1], ap_ctxs = 1, ap_cancelled = []\<rparr>"

theorem hot_launch_dies_witness:
  "\<exists>a' m'. hot_launch 1 streaming_app = (Some (Returned (Inr ())), a') \<and> ap_mgr a' = Some m' \<and>
     map_of (session_map m') 1 = Some 0 \<and> ss_ctx (mg_started m' ! 0) \<in> set (ap_cancelled a')"
proof -
  obtain m1 where m1: "launch_server 0 1 (manager_example, db1) = (Returned (Inr ()), m1, db1)" using db1_launch by blast
  obtain r m2 dbx where l: "launch_server 1 1 (manager_example, db1) = (r, m2, dbx)" by (metis prod_cases3)
  have "r = Returned (Inr ())"
    using launch_one_ctx [of 1 1 "file_specs stream_config_example" "(manager_example, db1)" 0] m1 l by (simp add: launch_server_def)
  moreover obtain x a' where h: "hot_launch 1 streaming_app = (x, a')" by (metis surj_pair)
  ultimately have "x = Some (Returned (Inr ()))"
    using l by (simp add: hot_launch_def streaming_app_def api_world_example_def)
  with h have h: "hot_launch 1 streaming_app = (Some (Returned (Inr ())), a')" by simp
  have m: "ap_mgr streaming_app = Some manager_example" "map_of (session_map manager_example) 1 = None"
    by (simp_all add: streaming_app_def session_map_def)
  from hot_launch_dies [OF m h] h show ?thesis by auto
qed

end
