(* ===== verification/Spec2Isabelle.thy ===== *)
theory Spec2Isabelle
  imports Go_Prelude Http_Client Metrics Parser Ssh Ssh_Fake Ent_Tables Ent_Invariant Storage Json Logs
    Collector Alert_Rules Alert_Notify Alert_Eval Streamer Stream_Sink Stream_Flow Stream_Manager Stream_Restart
    Scheduler Config Api_Auth Api_Servers Url_Query Api_Query Api_Pages Api_Shown Embedded Api_Router
    App App_Polling App_Launch
begin

text \<open>
  Frappe Monitor: a service that collects metrics and logs of servers over SSH, pushes them to
  VictoriaMetrics and Loki, evaluates alert rules, and serves a JSON API with a dashboard.

  \<^bold>\<open>The program.\<close> cmd/monitor/main.go reads the configuration, opens the database, registers a scheduled
  pull for every stored server, starts the alert service and the streamer manager, and listens. A pull
  runs the collector script through the SSH pool, parses its output, pushes line protocol and writes
  the server's status; log lines reach Loki by tailing (internal/collector/logtail.go) or by streaming
  sessions (internal/streamer), both resuming from cursors in the database. The alert evaluator
  queries VictoriaMetrics, keeps one row per firing series and notifies Telegram. The API creates,
  changes and deletes servers, whose hooks reach the scheduler and the manager, and reads the
  store and the backends for the dashboard.

  \<^bold>\<open>Theories and code\<close> (paths under src/). A definition has the name of what it models, in lower case with
  underscores; a field carries a short prefix of its record.

    \<^item> \<open>Go_Prelude\<close>: the Go strings, integers, times, maps and errors the code uses. \<open>Http_Client\<close> and
      \<open>Url_Query\<close>: outbound calls and net/url's query strings. \<open>Json\<close>: encoding/json's output.
    \<^item> \<open>Metrics\<close>: internal/metrics. \<open>Parser\<close>: internal/parser. \<open>Logs\<close>: internal/logs.
    \<^item> \<open>Ssh\<close>, \<open>Ssh_Fake\<close>: internal/ssh, the pool and the tests' executor.
    \<^item> \<open>Ent_Tables\<close>, \<open>Ent_Invariant\<close>: ent/schema, ent/migrate and the generated create, update-one and
      delete-one paths the store calls; the tables' invariant. \<open>Storage\<close>: internal/storage.
    \<^item> \<open>Collector\<close>: internal/collector, a metrics pull and a log pull.
    \<^item> \<open>Alert_Rules\<close>, \<open>Alert_Notify\<close>, \<open>Alert_Eval\<close>: internal/alerts.
    \<^item> \<open>Streamer\<close>, \<open>Stream_Sink\<close>, \<open>Stream_Manager\<close>: internal/streamer.
    \<^item> \<open>Scheduler\<close>: internal/scheduler. \<open>Config\<close>: internal/config.
    \<^item> \<open>Api_Auth\<close>, \<open>Api_Servers\<close>, \<open>Api_Query\<close>, \<open>Api_Router\<close>: internal/api, from the handlers to the routes
      and the middleware. \<open>Embedded\<close>: scripts/embed.go and internal/web.
    \<^item> \<open>App\<close>: cmd/monitor/main.go.
    \<^item> \<open>Stream_Flow\<close>, \<open>Stream_Restart\<close>, \<open>App_Polling\<close>, \<open>App_Launch\<close>, \<open>Api_Pages\<close>, \<open>Api_Shown\<close>: theorems on
      several components at once.

  \<^bold>\<open>State.\<close> The database is a record \<open>db\<close> of four tables with their counters and a list of faults, from
  which each driver call takes one: so every store operation is also modelled where the driver
  fails. A component's world adds what it changes outside: the executor's state and the pushed texts
  (\<open>world\<close>), the notifications sent (\<open>alert_world\<close>), hook calls (\<open>api_world\<close>), the throttle and the
  request log (\<open>web_world\<close>). Operations return a value of \<open>go_error + 'a\<close> with the new state; a panic is
  a value of \<open>outcome\<close>. Goroutines are steps: of the scheduler (\<open>sched_step\<close>), of a flush's two locked
  halves (\<open>Stream_Sink\<close>), and of the program (\<open>app_step\<close>), where a request, its hook and its background
  tasks are separate steps that may interleave.

  \<^bold>\<open>Interfaces.\<close> \<open>byte_escape\<close> (an escaper and its reader) is interpreted for line protocol tags and HTML
  text; \<open>executor\<close> for the pool and the fake; \<open>cursor_store\<close> for the store on a consistent database,
  and the tailing theorems rest on its facts.

  \<^bold>\<open>What the lemmas show.\<close>
    \<^item> Data: the tokenizer, line protocol, labelled keys, stream lines, Loki bodies, query strings and
      session tokens read back; every converter accepts exactly the complete inputs.
    \<^item> Store: the tables' invariant is kept by every sequence of operations with failures anywhere;
      each operation's result on every branch; deletions blocked by foreign keys.
    \<^item> Collection: status, push and cursors of a pull on each path; tailing delivers a growing file's
      bytes once. Streaming: what a session delivers, that flushes that do not overlap lose nothing and
      that overlapping ones do, one session for each server; the lines' way from the script to Loki and
      the cursors, what a restart resumes from, and what reconnecting does to both.
    \<^item> Alerts: an evaluation reconciles rows with firing series; which notifications it sends and when.
    \<^item> Scheduler: the keyed registry refines a map; the running jobs are bounded and drain after a stop.
    \<^item> API: the gate covers the API whatever the routing library does; sessions from login to expiry;
      the throttle's bound; creation, reading and snapshots; the pages of benches and alerts.
    \<^item> Program: the polled servers are the stored ones through any interleaving of requests, hooks and
      tasks, except in the two cases that are shown; how a boot ends; what a collected bench looks like on
      its page; what becomes of a stream launched at run time.

  \<^bold>\<open>Parameters.\<close> Code outside the repository is an argument: SSH, HTTP transport, JSON decoding of
  replies, the SQL driver's messages, koanf's merged configuration, cron, the routing library, SHA-256 and
  HMAC, text templates, floating-point numbers (\<open>float_ops\<close>), map iteration orders, the clock and the file
  system of the dashboard. Where a theorem needs more of one it says so by name: \<open>cron_laws\<close>,
  \<open>answers_selectors\<close>, \<open>routes_as_documented\<close>, \<open>valid_orders\<close>, \<open>proper_evaluator\<close>, \<open>exact_int\<close>.

  \<^bold>\<open>Bounds.\<close> Integers of the code are \<open>int\<close> with \<open>wrap64\<close> where they can overflow; a float to integer conversion
  is a parameter. \<open>read_matchers\<close>, a reader of the theorems only, has fuel: one unit for each matcher, and it
  is given the length of the text, which is at least their number. Every other recursion is
  structural or has a measure; the session loop and the service loop run over a list of what
  happens, so a run of any length is covered and none is assumed to end.

  \<^bold>\<open>Not modelled.\<close> The generated query, predicate and client code of ent beyond the paths above: the store
  uses one-row queries, filters and orderings, which are modelled with the store, and the rest has
  no caller. Opening and closing the database, listening, signals and logging are I/O. The shell
  scripts and the frontend are other languages; the texts they exchange with this program are modelled on
  its side. Context cancellation is an input of the SSH pool and the sessions and is left out of the
  store. Two pulls of one server at once are left out of the collector's state: each is one step.
\<close>

end
